(* ===== verification/Prelude.thy ===== *)
theory Prelude
  imports Main "HOL-Library.Word" "HOL-Library.Monad_Syntax"
begin

text \<open>
  What every theory of the development shares: the machine-integer types of the C sources, the
  counted loop, the loop with an early return, the search for the first free slot, the memory
  block copy, the bounded C string operations, and the generic lemmas about them.

  The arrays of the program have a fixed length and are lists here.  The library unrolls
  \<open>[0..<64]\<close> into a list of 64 numerals during simplification; that rule is switched off, so
  that loops over the program's tables stay loops.
\<close>

unbundle bit_operations_syntax

declare upt_rec_numeral [simp del]

named_theorems wire_simps \<open>byte sequences produced by the encoders\<close>
named_theorems loop_simps \<open>closed forms of counted loops\<close>
named_theorems env_simps \<open>operations that leave the server context unchanged\<close>

section \<open>Machine integers\<close>

type_synonym u8 = "8 word"
type_synonym u16 = "16 word"
type_synonym u32 = "32 word"
type_synonym u64 = "64 word"

lemma unat_u8_less [simp]: "unat (x :: u8) < 256"
  using unsigned_less [of x] by simp

lemma unat_u16_less [simp]: "unat (x :: u16) < 65536"
  using unsigned_less [of x] by simp

lemma unat_u8_le [simp]: "unat (x :: u8) \<le> 255"
  using unat_u8_less [of x] by linarith

lemma unat_u16_le [simp]: "unat (x :: u16) \<le> 65535"
  using unat_u16_less [of x] by linarith

lemma unat_ucast_u8_u16 [simp]: "unat (ucast (x :: u8) :: u16) = unat x"
  by (simp add: unsigned_ucast_eq take_bit_nat_def mod_less order_less_trans [OF unat_u8_less])

lemma unat_Suc_u8: "unat (x :: u8) < 255 \<Longrightarrow> unat (x + 1) = Suc (unat x)"
  by (simp add: unat_plus_if')

lemma unat_pred_u8: "x \<noteq> (0 :: u8) \<Longrightarrow> unat (x - 1) = unat x - 1"
  by (simp add: unat_sub_if') (metis One_nat_def Suc_leI unat_eq_zero word_neq_0_conv neq0_conv)

lemma unat_of_nat_u8: "n < 256 \<Longrightarrow> unat (of_nat n :: u8) = n"
  by (simp add: unat_of_nat)

lemma unat_of_nat_u16: "n < 65536 \<Longrightarrow> unat (of_nat n :: u16) = n"
  by (simp add: unat_of_nat)

lemma of_nat_u8_inj: "m < 256 \<Longrightarrow> n < 256 \<Longrightarrow> (of_nat m :: u8) = of_nat n \<longleftrightarrow> m = n"
  by (metis unat_of_nat_u8)

section \<open>Counted loops\<close>

text \<open>\<open>for (i = 0; i < n; ++i) body(i)\<close> over an explicit state.\<close>

definition for_range :: "nat \<Rightarrow> (nat \<Rightarrow> 's \<Rightarrow> 's) \<Rightarrow> 's \<Rightarrow> 's" where
  "for_range n body s = fold body [0..<n] s"

lemma for_range_0 [simp]: "for_range 0 body s = s"
  by (simp add: for_range_def)

lemma for_range_Suc [simp]: "for_range (Suc n) body s = body n (for_range n body s)"
  by (simp add: for_range_def)

lemma for_range_inv:
  assumes "P 0 s" and "\<And>i t. i < n \<Longrightarrow> P i t \<Longrightarrow> P (Suc i) (body i t)"
  shows "P n (for_range n body s)"
  using assms(2) by (induction n) (simp_all add: assms(1))

lemma for_range_cong:
  assumes "\<And>i t. i < n \<Longrightarrow> f i t = g i t"
  shows "for_range n f s = for_range n g s"
  using assms by (induction n) simp_all

text \<open>
  A loop whose body updates one component, through \<open>upd\<close>, is the update of that component by the
  loop.
\<close>

lemma for_range_lift:
  assumes "\<And>i t. i < n \<Longrightarrow> body i t = upd (g i) t"
    and "\<And>f h t. upd f (upd h t) = upd (\<lambda>x. f (h x)) t" and "\<And>t. upd (\<lambda>x. x) t = t"
  shows "for_range n body s = upd (for_range n g) s"
  using assms(1)
proof (induction n)
  case 0
  have "for_range 0 g = (\<lambda>x. x)" by (rule ext) simp
  then show ?case by (simp add: assms(3))
next
  case (Suc n)
  have "for_range (Suc n) g = (\<lambda>x. g n (for_range n g x))" by (rule ext) simp
  with Suc show ?case by (simp add: assms(2))
qed

text \<open>Updating every element of an array in turn.\<close>

definition imap :: "(nat \<Rightarrow> 'a \<Rightarrow> 'b) \<Rightarrow> 'a list \<Rightarrow> 'b list" where
  "imap g xs = map (\<lambda>i. g i (xs ! i)) [0..<length xs]"

lemma length_imap [simp]: "length (imap g xs) = length xs"
  by (simp add: imap_def)

lemma nth_imap [simp]: "i < length xs \<Longrightarrow> imap g xs ! i = g i (xs ! i)"
  by (simp add: imap_def)

lemma map_imap: "(\<And>i x. f (g i x) = f x) \<Longrightarrow> map f (imap g xs) = map f xs"
  by (rule nth_equalityI) simp_all

lemma imap_imap: "imap f (imap g xs) = imap (\<lambda>i x. f i (g i x)) xs"
  by (rule nth_equalityI) simp_all

lemma imap_ident: "imap (\<lambda>i x. x) xs = xs"
  by (rule nth_equalityI) simp_all

lemma for_range_update:
  assumes "n \<le> length xs"
  shows "for_range n (\<lambda>i xs. xs[i := g i (xs ! i)]) xs = imap (\<lambda>i x. if i < n then g i x else x) xs"
    (is "?loop n = _")
proof -
  have "length (?loop n) = length xs \<and>
      (\<forall>j < length xs. ?loop n ! j = (if j < n then g j (xs ! j) else xs ! j))"
    using assms by (induction n) (auto simp: nth_list_update)
  then show ?thesis by (intro nth_equalityI) simp_all
qed

text \<open>
  The same loop when the body can return early with a failure or may not return at all.
\<close>

primrec for_opt :: "'i list \<Rightarrow> ('i \<Rightarrow> 's \<Rightarrow> 's option) \<Rightarrow> 's \<Rightarrow> 's option" where
  "for_opt [] body s = Some s"
| "for_opt (i # is) body s = (case body i s of None \<Rightarrow> None | Some t \<Rightarrow> for_opt is body t)"

lemma for_opt_append:
  "for_opt (is @ js) body s = (case for_opt is body s of None \<Rightarrow> None | Some t \<Rightarrow> for_opt js body t)"
  by (induction "is" arbitrary: s) (simp_all split: option.splits)

lemma for_opt_total:
  assumes "P s" and "\<And>i t. i \<in> set is \<Longrightarrow> P t \<Longrightarrow> \<exists>t'. body i t = Some t' \<and> P t'"
  shows "\<exists>t. for_opt is body s = Some t \<and> P t"
  using assms
proof (induction "is" arbitrary: s)
  case Nil
  then show ?case by simp
next
  case (Cons i "is")
  then obtain t where t: "body i s = Some t" "P t"
    by (meson list.set_intros(1))
  with Cons have "\<exists>u. for_opt is body t = Some u \<and> P u"
    by (meson list.set_intros(2))
  with t show ?case by simp
qed

lemma for_opt_inv:
  assumes "for_opt is body s = Some t" "P s" and "\<And>i s t. i \<in> set is \<Longrightarrow> P s \<Longrightarrow> body i s = Some t \<Longrightarrow> P t"
  shows "P t"
  using assms
proof (induction "is" arbitrary: s)
  case (Cons i "is")
  then obtain u where u: "body i s = Some u" "for_opt is body u = Some t" by (auto split: option.splits)
  have "P u" using Cons.prems(2,3) u(1) by (meson list.set_intros(1))
  then show ?case using Cons.IH [OF u(2)] Cons.prems(3) by (meson list.set_intros(2))
qed simp

lemma for_opt_total_fold: "for_opt is (\<lambda>i s. Some (f i s)) s = Some (fold f is s)"
  by (induction "is" arbitrary: s) simp_all

section \<open>Searching a table\<close>

text \<open>\<open>for (i = 0; i < n; ++i) if (p(i)) return i; return -1;\<close>\<close>

definition first_index :: "nat \<Rightarrow> (nat \<Rightarrow> bool) \<Rightarrow> nat option" where
  "first_index n p = find p [0..<n]"

lemma first_index_SomeD:
  assumes "first_index n p = Some i"
  shows "i < n" and "p i" and "\<And>j. j < i \<Longrightarrow> \<not> p j"
  using assms by (auto simp: first_index_def find_Some_iff)

lemma first_index_None_iff: "first_index n p = None \<longleftrightarrow> (\<forall>i < n. \<not> p i)"
  by (auto simp: first_index_def find_None_iff)

lemma first_index_eqI:
  assumes "i < n" and "p i" and "\<And>j. j < i \<Longrightarrow> \<not> p j"
  shows "first_index n p = Some i"
  unfolding first_index_def find_Some_iff using assms by (intro exI [of _ i]) simp

lemma first_index_isSome: "i < n \<Longrightarrow> p i \<Longrightarrow> \<exists>j. first_index n p = Some j"
  using first_index_None_iff [of n p] by (cases "first_index n p") auto

section \<open>Memory blocks\<close>

text \<open>\<open>memcpy (dst + off, src, length src)\<close>.\<close>

definition blit :: "nat \<Rightarrow> 'a list \<Rightarrow> 'a list \<Rightarrow> 'a list" where
  "blit off src dst = take off dst @ src @ drop (off + length src) dst"

lemma length_blit [simp]: "off + length src \<le> length dst \<Longrightarrow> length (blit off src dst) = length dst"
  by (simp add: blit_def)

lemma take_blit_0 [simp]: "take (length src) (blit 0 src dst) = src"
  by (simp add: blit_def)

lemma blit_same_length: "length src = length dst \<Longrightarrow> blit 0 src dst = src"
  by (simp add: blit_def)

lemma nth_append_here [simp]: "(xs @ y # ys) ! length xs = y"
  by simp

section \<open>Bounded C strings\<close>

text \<open>
  A \<open>char\<close> array is a list of bytes.  \<open>c_strn n s\<close> is the string that a function bounded by
  \<open>n\<close> sees in the array \<open>s\<close>: the bytes before the first NUL among the first \<open>n\<close>.
\<close>

definition c_strn :: "nat \<Rightarrow> u8 list \<Rightarrow> u8 list" where
  "c_strn n s = takeWhile (\<lambda>b. b \<noteq> 0) (take n s)"

definition strnlen :: "u8 list \<Rightarrow> nat \<Rightarrow> nat" where
  "strnlen s n = length (c_strn n s)"

text \<open>\<open>strncpy (dst, src, n)\<close>: copies up to the NUL, fills with NULs up to \<open>n\<close> bytes.\<close>

definition pad_to :: "nat \<Rightarrow> u8 list \<Rightarrow> u8 list" where
  "pad_to n bs = bs @ replicate (n - length bs) 0"

definition strncpy :: "u8 list \<Rightarrow> u8 list \<Rightarrow> nat \<Rightarrow> u8 list" where
  "strncpy dst src n = blit 0 (pad_to n (c_strn n src)) dst"

definition strncmp_eq :: "u8 list \<Rightarrow> u8 list \<Rightarrow> nat \<Rightarrow> bool" where
  "strncmp_eq a b n \<longleftrightarrow> c_strn n a = c_strn n b"

lemma length_c_strn [simp]: "length (c_strn n s) \<le> n"
  by (simp add: c_strn_def) (metis length_take length_takeWhile_le min.bounded_iff)

lemma strnlen_le [simp]: "strnlen s n \<le> n"
  by (simp add: strnlen_def)

lemma c_strn_no_nul: "b \<in> set (c_strn n s) \<Longrightarrow> b \<noteq> 0"
  by (auto simp: c_strn_def dest: set_takeWhileD)

lemma length_pad_to [simp]: "length bs \<le> n \<Longrightarrow> length (pad_to n bs) = n"
  by (simp add: pad_to_def)

lemma take_strnlen: "take (strnlen s n) s = c_strn n s"
proof -
  have "c_strn n s = take (length (c_strn n s)) (take n s)"
    unfolding c_strn_def by (rule takeWhile_eq_take)
  then show ?thesis
    by (simp add: strnlen_def min_absorb1)
qed

lemma c_strn_pad_to [simp]:
  assumes "\<And>b. b \<in> set bs \<Longrightarrow> b \<noteq> 0" and "length bs \<le> n" and "n \<le> m"
  shows "c_strn m (pad_to n bs @ rest) = (if length bs < n then bs else c_strn m (bs @ rest))"
proof (cases "length bs < n")
  case True
  then obtain k where k: "n - length bs = Suc k"
    by (metis Suc_diff_Suc)
  have "take m (pad_to n bs @ rest) = bs @ 0 # take (m - Suc (length bs)) (replicate k 0 @ rest)"
    using assms True by (simp add: pad_to_def k take_Cons')
  then show ?thesis
    using True assms(1) by (simp add: c_strn_def)
qed (use assms(2) in \<open>simp add: pad_to_def\<close>)

lemma c_strn_pad: "c_strn n (pad_to n (c_strn n s) @ rest) = c_strn n s"
proof (cases "length (c_strn n s) < n")
  case True
  then show ?thesis
    by (simp add: c_strn_no_nul)
next
  case False
  then have len: "length (c_strn n s) = n"
    using length_c_strn [of n s] by linarith
  then have "take n (pad_to n (c_strn n s) @ rest) = c_strn n s"
    by (simp add: pad_to_def)
  then show ?thesis
    using c_strn_no_nul [of _ n s] by (simp add: c_strn_def takeWhile_eq_all_conv)
qed

lemma length_strncpy [simp]: "n \<le> length dst \<Longrightarrow> length (strncpy dst src n) = length dst"
  by (simp add: strncpy_def)

lemma c_strn_strncpy [simp]: "c_strn n (strncpy dst src n) = c_strn n src"
  by (simp add: strncpy_def blit_def c_strn_pad)

section \<open>Lists\<close>

lemma nth_update_cases: "i < length xs \<Longrightarrow> xs[j := x] ! i = (if i = j then x else xs ! i)"
  by auto

lemma map_update_same: "f x = f (xs ! i) \<Longrightarrow> map f (xs[i := x]) = map f xs"
  by (metis list_update_id map_update)

lemma filter_update_absent:
  assumes "i < length xs" and "P (xs ! i)" and "\<not> P x"
  shows "Suc (length (filter P (xs[i := x]))) = length (filter P xs)"
  using assms
proof (induction xs arbitrary: i)
  case (Cons a xs)
  then show ?case by (cases i) auto
qed simp

lemma filter_update_present:
  assumes "i < length xs" and "\<not> P (xs ! i)" and "P x"
  shows "length (filter P (xs[i := x])) = Suc (length (filter P xs))"
  using assms
proof (induction xs arbitrary: i)
  case (Cons a xs)
  then show ?case by (cases i) auto
qed simp

lemma filter_update_neither:
  assumes "\<not> P (xs ! i)" and "\<not> P x"
  shows "filter P (xs[i := x]) = filter P xs"
  using assms
proof (induction xs arbitrary: i)
  case (Cons a xs)
  then show ?case by (cases i) auto
qed simp

end
