(* ===== verification/Config.thy ===== *)
theory Config
  imports Prelude
begin

text \<open>
  \<open>common/include/config.h\<close>: the limits and endpoint ids, the enumerations, the player and the
  bomb, and the cell index.

  A C enumeration object holds any value of its integer type, and the program stores bytes from
  the network in such objects without a check (\<open>client_comms.c\<close>), so the status, the direction,
  the bonus and the cell are words with named values; the message type, which the code only
  switches on, is a datatype with its codes.
\<close>

section \<open>Limits\<close>

abbreviation (input) MAX_PLAYERS :: nat where "MAX_PLAYERS \<equiv> 8"
abbreviation (input) MAX_NAME_LEN :: nat where "MAX_NAME_LEN \<equiv> 15"
abbreviation (input) MAX_ID_LEN :: nat where "MAX_ID_LEN \<equiv> 20"
abbreviation (input) MAX_ERROR_LEN :: nat where "MAX_ERROR_LEN \<equiv> 255"
abbreviation (input) TICKS_PER_SECOND :: nat where "TICKS_PER_SECOND \<equiv> 20"
abbreviation (input) MAX_MAP_SIDE :: nat where "MAX_MAP_SIDE \<equiv> 255"
abbreviation (input) MAX_MAP_CELLS :: nat where "MAX_MAP_CELLS \<equiv> 65025"
abbreviation (input) MAX_BOMBS :: nat where "MAX_BOMBS \<equiv> 64"
abbreviation (input) SERVER_ENDPOINT_ID :: u8 where "SERVER_ENDPOINT_ID \<equiv> 255"
abbreviation (input) BROADCAST_ENDPOINT_ID :: u8 where "BROADCAST_ENDPOINT_ID \<equiv> 254"

section \<open>Enumerations\<close>

type_synonym game_status_t = u32

abbreviation (input) GAME_LOBBY :: game_status_t where "GAME_LOBBY \<equiv> 0"
abbreviation (input) GAME_RUNNING :: game_status_t where "GAME_RUNNING \<equiv> 1"
abbreviation (input) GAME_END :: game_status_t where "GAME_END \<equiv> 2"

abbreviation (input) DIR_UP :: u8 where "DIR_UP \<equiv> 0"
abbreviation (input) DIR_DOWN :: u8 where "DIR_DOWN \<equiv> 1"
abbreviation (input) DIR_LEFT :: u8 where "DIR_LEFT \<equiv> 2"
abbreviation (input) DIR_RIGHT :: u8 where "DIR_RIGHT \<equiv> 3"

abbreviation (input) BONUS_SPEED :: nat where "BONUS_SPEED \<equiv> 1"
abbreviation (input) BONUS_RADIUS :: nat where "BONUS_RADIUS \<equiv> 2"
abbreviation (input) BONUS_TIMER :: nat where "BONUS_TIMER \<equiv> 3"

abbreviation (input) CELL_EMPTY :: u8 where "CELL_EMPTY \<equiv> 46"
abbreviation (input) CELL_HARD :: u8 where "CELL_HARD \<equiv> 72"
abbreviation (input) CELL_SOFT :: u8 where "CELL_SOFT \<equiv> 83"
abbreviation (input) CELL_BOMB :: u8 where "CELL_BOMB \<equiv> 66"
abbreviation (input) CELL_BONUS_SPEED :: u8 where "CELL_BONUS_SPEED \<equiv> 65"
abbreviation (input) CELL_BONUS_RADIUS :: u8 where "CELL_BONUS_RADIUS \<equiv> 82"
abbreviation (input) CELL_BONUS_TIMER :: u8 where "CELL_BONUS_TIMER \<equiv> 84"

datatype msg_type_t =
    MSG_HELLO | MSG_WELCOME | MSG_DISCONNECT | MSG_PING | MSG_PONG | MSG_LEAVE | MSG_ERROR
  | MSG_MAP | MSG_SET_READY | MSG_SET_STATUS | MSG_WINNER | MSG_MOVE_ATTEMPT | MSG_BOMB_ATTEMPT
  | MSG_MOVED | MSG_BOMB | MSG_EXPLOSION_START | MSG_EXPLOSION_END | MSG_DEATH
  | MSG_BONUS_AVAILABLE | MSG_BONUS_RETRIEVED | MSG_BLOCK_DESTROYED | MSG_SYNC_BOARD
  | MSG_SYNC_REQUEST

fun msg_code :: "msg_type_t \<Rightarrow> u8" where
  "msg_code MSG_HELLO = 0"
| "msg_code MSG_WELCOME = 1"
| "msg_code MSG_DISCONNECT = 2"
| "msg_code MSG_PING = 3"
| "msg_code MSG_PONG = 4"
| "msg_code MSG_LEAVE = 5"
| "msg_code MSG_ERROR = 6"
| "msg_code MSG_MAP = 7"
| "msg_code MSG_SET_READY = 10"
| "msg_code MSG_SET_STATUS = 20"
| "msg_code MSG_WINNER = 23"
| "msg_code MSG_MOVE_ATTEMPT = 30"
| "msg_code MSG_BOMB_ATTEMPT = 31"
| "msg_code MSG_MOVED = 40"
| "msg_code MSG_BOMB = 41"
| "msg_code MSG_EXPLOSION_START = 42"
| "msg_code MSG_EXPLOSION_END = 43"
| "msg_code MSG_DEATH = 44"
| "msg_code MSG_BONUS_AVAILABLE = 45"
| "msg_code MSG_BONUS_RETRIEVED = 46"
| "msg_code MSG_BLOCK_DESTROYED = 47"
| "msg_code MSG_SYNC_BOARD = 100"
| "msg_code MSG_SYNC_REQUEST = 101"

definition all_msg_types :: "msg_type_t list" where
  "all_msg_types =
     [MSG_HELLO, MSG_WELCOME, MSG_DISCONNECT, MSG_PING, MSG_PONG, MSG_LEAVE, MSG_ERROR, MSG_MAP,
      MSG_SET_READY, MSG_SET_STATUS, MSG_WINNER, MSG_MOVE_ATTEMPT, MSG_BOMB_ATTEMPT, MSG_MOVED,
      MSG_BOMB, MSG_EXPLOSION_START, MSG_EXPLOSION_END, MSG_DEATH, MSG_BONUS_AVAILABLE,
      MSG_BONUS_RETRIEVED, MSG_BLOCK_DESTROYED, MSG_SYNC_BOARD, MSG_SYNC_REQUEST]"

text \<open>The \<open>switch\<close> on a message byte: \<open>None\<close> is its default branch.\<close>

definition msg_type_of :: "u8 \<Rightarrow> msg_type_t option" where
  "msg_type_of b = find (\<lambda>m. msg_code m = b) all_msg_types"

lemma all_msg_types_complete: "m \<in> set all_msg_types"
  by (cases m) (simp_all add: all_msg_types_def)

lemma msg_code_inj: "msg_code m = msg_code n \<longleftrightarrow> m = n"
  by (cases m; cases n; simp)

lemma msg_type_of_code [simp]: "msg_type_of (msg_code m) = Some m"
  by (cases m; simp add: msg_type_of_def all_msg_types_def)

lemma msg_type_of_SomeD: "msg_type_of b = Some m \<Longrightarrow> b = msg_code m"
  by (auto simp: msg_type_of_def find_Some_iff)

section \<open>Players and bombs\<close>

record player_t =
  pl_id :: u8
  pl_lives :: u8
  pl_name :: "u8 list"
  pl_row :: u16
  pl_col :: u16
  pl_alive :: bool
  pl_ready :: bool
  pl_bomb_count :: u8
  pl_bomb_radius :: u8
  pl_bomb_timer_ticks :: u16
  pl_speed :: u16

record bomb_t =
  bm_owner_id :: u8
  bm_row :: u16
  bm_col :: u16
  bm_radius :: u8
  bm_timer_ticks :: u16

text \<open>What \<open>memset (\<dots>, 0, \<dots>)\<close> leaves in the two structs.\<close>

definition zero_player :: player_t where
  "zero_player = \<lparr>pl_id = 0, pl_lives = 0, pl_name = replicate (MAX_NAME_LEN + 1) 0, pl_row = 0,
     pl_col = 0, pl_alive = False, pl_ready = False, pl_bomb_count = 0, pl_bomb_radius = 0,
     pl_bomb_timer_ticks = 0, pl_speed = 0\<rparr>"

definition zero_bomb :: bomb_t where
  "zero_bomb = \<lparr>bm_owner_id = 0, bm_row = 0, bm_col = 0, bm_radius = 0, bm_timer_ticks = 0\<rparr>"

section \<open>Cell indices\<close>

text \<open>
  The C product is an \<open>int\<close> before the cast; modulo \<open>2 ^ 16\<close> it is the product of the words.
  It stays below \<open>2 ^ 31\<close>, so the signed arithmetic is defined, for every row and column when
  \<open>cols \<le> 255\<close>, the only widths a server map can have (\<open>make_cell_index_int\<close>).
\<close>

definition make_cell_index :: "u16 \<Rightarrow> u16 \<Rightarrow> u16 \<Rightarrow> u16" where
  "make_cell_index row col cols = row * cols + col"

text \<open>Division by zero is undefined in C: \<open>None\<close>.\<close>

definition split_cell_index :: "u16 \<Rightarrow> u16 \<Rightarrow> (u16 \<times> u16) option" where
  "split_cell_index index cols = (if cols = 0 then None else Some (index div cols, index mod cols))"

lemma make_cell_index_int:
  "unat cols \<le> 255 \<Longrightarrow> unat (row :: u16) * unat (cols :: u16) + unat (col :: u16) < 2 ^ 31"
proof -
  assume "unat cols \<le> 255"
  then have "unat row * unat cols \<le> 65535 * 255"
    by (intro mult_le_mono) simp_all
  then have "unat row * unat cols + unat col < 65535 * 255 + 65536"
    using unat_u16_less [of col] by linarith
  then show ?thesis
    by simp
qed

lemma cell_offset_less:
  assumes "(r :: nat) < rows" and "c < cols"
  shows "r * cols + c < rows * cols"
proof -
  have "r * cols + c < r * cols + cols" using assms(2) by simp
  also have "\<dots> = Suc r * cols" by simp
  also have "\<dots> \<le> rows * cols" using assms(1) by (intro mult_le_mono1) simp
  finally show ?thesis .
qed

lemma cell_offset_inj:
  assumes "(c :: nat) < cols" and "c' < cols" and "r * cols + c = r' * cols + c'"
  shows "r = r' \<and> c = c'"
proof -
  have "(r * cols + c) div cols = r" "(r' * cols + c') div cols = r'"
    using assms(1,2) by simp_all
  with assms show ?thesis by simp
qed

text \<open>On a map of at most 65025 cells the index of a cell does not wrap.\<close>

lemma unat_make_cell_index:
  assumes "row < rows" and "col < cols" and "unat rows * unat cols \<le> MAX_MAP_CELLS"
  shows "unat (make_cell_index row col cols) = unat row * unat cols + unat col"
proof -
  have "unat row * unat cols + unat col < unat rows * unat cols"
    using assms(1,2) by (intro cell_offset_less) (simp_all add: word_less_nat_alt)
  also have "\<dots> \<le> MAX_MAP_CELLS" by (fact assms(3))
  finally have "unat row * unat cols + unat col < 65536" by simp
  then show ?thesis
    by (simp add: make_cell_index_def unat_word_ariths)
qed

lemma make_cell_index_less:
  assumes "row < rows" and "col < cols" and "unat rows * unat cols \<le> MAX_MAP_CELLS"
  shows "unat (make_cell_index row col cols) < unat rows * unat cols"
  using assms by (simp add: unat_make_cell_index cell_offset_less word_less_nat_alt)

lemma make_cell_index_inj:
  assumes "row < rows" "col < cols" "row' < rows" "col' < cols"
    and "unat rows * unat cols \<le> MAX_MAP_CELLS"
    and "make_cell_index row col cols = make_cell_index row' col' cols"
  shows "row = row' \<and> col = col'"
proof -
  have "unat row * unat cols + unat col = unat row' * unat cols + unat col'"
    using assms by (metis unat_make_cell_index)
  then have "unat row = unat row' \<and> unat col = unat col'"
    using assms(2,4) by (intro cell_offset_inj) (simp_all add: word_less_nat_alt)
  then show ?thesis by (simp add: word_unat_eq_iff)
qed

lemma split_make_cell_index:
  assumes "row < rows" and "col < cols" and "unat rows * unat cols \<le> MAX_MAP_CELLS"
  shows "split_cell_index (make_cell_index row col cols) cols = Some (row, col)"
proof -
  have cols: "0 < unat cols" "unat col < unat cols"
    using assms(2) by (auto simp: word_less_nat_alt)
  have "unat (make_cell_index row col cols div cols) = unat row"
    and "unat (make_cell_index row col cols mod cols) = unat col"
    using cols by (simp_all add: unat_div unat_mod unat_make_cell_index [OF assms])
  with cols show ?thesis
    by (auto simp: split_cell_index_def word_unat_eq_iff)
qed

lemma split_cell_index_bounds:
  assumes "split_cell_index index cols = Some (row, col)"
    and "unat index < unat rows * unat cols"
  shows "row < rows \<and> col < cols \<and> make_cell_index row col cols = index"
proof -
  from assms(1) have cols: "cols \<noteq> 0" and rc: "row = index div cols" "col = index mod cols"
    by (auto simp: split_cell_index_def split: if_splits)
  then have pos: "0 < unat cols" by (simp add: unat_gt_0)
  have "unat row = unat index div unat cols" and "unat col = unat index mod unat cols"
    by (simp_all add: rc unat_div unat_mod)
  moreover have "unat index div unat cols < unat rows"
    using assms(2) by (simp add: less_mult_imp_div_less)
  moreover have "make_cell_index row col cols = index"
    unfolding make_cell_index_def rc by (simp add: word_mod_div_equality)
  ultimately show ?thesis
    using pos by (simp add: word_less_nat_alt)
qed

end
