(* ===== verification/Protocol.thy ===== *)
theory Protocol
  imports Config
begin

text \<open>
  \<open>common/include/protocol.h\<close> and \<open>common/src/protocol.c\<close>: the message structs, one record
  each, and the three tables over the message type.  A \<open>char\<close> array field holds
  \<open>MAX_\<dots>_LEN + 1\<close> bytes, the arrays of players hold \<open>MAX_PLAYERS\<close> entries of which the first
  \<open>player_count\<close> are in use.
\<close>

section \<open>Message structs\<close>

record msg_header_t =
  h_msg_type :: u8
  h_sender_id :: u8
  h_target_id :: u8

record msg_hello_t =
  hello_client_id :: "u8 list"
  hello_player_name :: "u8 list"

record msg_player_summary_t =
  ps_id :: u8
  ps_ready :: bool
  ps_name :: "u8 list"

record msg_welcome_t =
  welcome_server_id :: "u8 list"
  welcome_game_status :: u8
  welcome_player_count :: u8
  welcome_players :: "msg_player_summary_t list"

record msg_set_status_t =
  set_status_status :: u8

record msg_move_attempt_t =
  move_direction :: u8

record msg_moved_t =
  moved_player_id :: u8
  moved_cell_index :: u16

record msg_bomb_attempt_t =
  bomb_attempt_cell_index :: u16

record msg_bomb_t =
  bomb_player_id :: u8
  bomb_cell_index :: u16

record msg_explosion_start_t =
  es_radius :: u8
  es_cell_index :: u16

record msg_explosion_end_t =
  ee_cell_index :: u16

record msg_death_t =
  death_player_id :: u8

record msg_bonus_available_t =
  ba_bonus_type :: u8
  ba_cell_index :: u16

record msg_bonus_retrieved_t =
  br_player_id :: u8
  br_cell_index :: u16

record msg_block_destroyed_t =
  bd_cell_index :: u16

record msg_winner_t =
  winner_winner_id :: u8

record msg_error_t =
  err_len :: u16
  err_text :: "u8 list"

record msg_map_t =
  mm_rows :: u8
  mm_cols :: u8
  mm_cell_count :: u16
  mm_cells :: "u8 list"

record msg_sync_player_t =
  sp_id :: u8
  sp_lives :: u8
  sp_cell_index :: u16
  sp_alive :: bool
  sp_ready :: bool
  sp_bomb_count :: u8
  sp_bomb_radius :: u8
  sp_bomb_timer_ticks :: u16
  sp_speed :: u16

record msg_sync_board_t =
  sync_status :: u8
  sync_player_count :: u8
  sync_players :: "msg_sync_player_t list"

section \<open>Tables over the message type\<close>

definition SIZE_MAX :: nat where
  "SIZE_MAX = 2 ^ 64 - 1"

definition msg_type_name :: "u8 \<Rightarrow> string" where
  "msg_type_name msg_type = (case msg_type_of msg_type of
     Some MSG_HELLO \<Rightarrow> ''HELLO''
   | Some MSG_WELCOME \<Rightarrow> ''WELCOME''
   | Some MSG_DISCONNECT \<Rightarrow> ''DISCONNECT''
   | Some MSG_PING \<Rightarrow> ''PING''
   | Some MSG_PONG \<Rightarrow> ''PONG''
   | Some MSG_LEAVE \<Rightarrow> ''LEAVE''
   | Some MSG_ERROR \<Rightarrow> ''ERROR''
   | Some MSG_MAP \<Rightarrow> ''MAP''
   | Some MSG_SYNC_BOARD \<Rightarrow> ''SYNC_BOARD''
   | Some MSG_SET_READY \<Rightarrow> ''SET_READY''
   | Some MSG_SET_STATUS \<Rightarrow> ''SET_STATUS''
   | Some MSG_WINNER \<Rightarrow> ''WINNER''
   | Some MSG_MOVE_ATTEMPT \<Rightarrow> ''MOVE_ATTEMPT''
   | Some MSG_BOMB_ATTEMPT \<Rightarrow> ''BOMB_ATTEMPT''
   | Some MSG_MOVED \<Rightarrow> ''MOVED''
   | Some MSG_BOMB \<Rightarrow> ''BOMB''
   | Some MSG_EXPLOSION_START \<Rightarrow> ''EXPLOSION_START''
   | Some MSG_EXPLOSION_END \<Rightarrow> ''EXPLOSION_END''
   | Some MSG_DEATH \<Rightarrow> ''DEATH''
   | Some MSG_BONUS_AVAILABLE \<Rightarrow> ''BONUS_AVAILABLE''
   | Some MSG_BONUS_RETRIEVED \<Rightarrow> ''BONUS_RETRIEVED''
   | Some MSG_BLOCK_DESTROYED \<Rightarrow> ''BLOCK_DESTROYED''
   | Some MSG_SYNC_REQUEST \<Rightarrow> ''SYNC_REQUEST''
   | None \<Rightarrow> ''UNKNOWN'')"

definition msg_type_variable_payload :: "u8 \<Rightarrow> bool" where
  "msg_type_variable_payload msg_type = (case msg_type_of msg_type of
     Some MSG_WELCOME \<Rightarrow> True
   | Some MSG_ERROR \<Rightarrow> True
   | Some MSG_MAP \<Rightarrow> True
   | Some MSG_SYNC_BOARD \<Rightarrow> True
   | _ \<Rightarrow> False)"

definition msg_type_fixed_payload_size :: "u8 \<Rightarrow> nat" where
  "msg_type_fixed_payload_size msg_type = (case msg_type_of msg_type of
     Some MSG_HELLO \<Rightarrow> MAX_ID_LEN + MAX_NAME_LEN
   | Some MSG_DISCONNECT \<Rightarrow> 0
   | Some MSG_PING \<Rightarrow> 0
   | Some MSG_PONG \<Rightarrow> 0
   | Some MSG_LEAVE \<Rightarrow> 0
   | Some MSG_SET_READY \<Rightarrow> 0
   | Some MSG_SET_STATUS \<Rightarrow> 1
   | Some MSG_MOVE_ATTEMPT \<Rightarrow> 1
   | Some MSG_BOMB_ATTEMPT \<Rightarrow> 2
   | Some MSG_MOVED \<Rightarrow> 3
   | Some MSG_BOMB \<Rightarrow> 3
   | Some MSG_EXPLOSION_START \<Rightarrow> 3
   | Some MSG_EXPLOSION_END \<Rightarrow> 2
   | Some MSG_DEATH \<Rightarrow> 1
   | Some MSG_BONUS_AVAILABLE \<Rightarrow> 3
   | Some MSG_BONUS_RETRIEVED \<Rightarrow> 3
   | Some MSG_BLOCK_DESTROYED \<Rightarrow> 2
   | Some MSG_WINNER \<Rightarrow> 1
   | Some MSG_SYNC_REQUEST \<Rightarrow> 0
   | _ \<Rightarrow> SIZE_MAX)"

lemma variable_payload_code [simp]:
  "msg_type_variable_payload (msg_code m) \<longleftrightarrow> m \<in> {MSG_WELCOME, MSG_ERROR, MSG_MAP, MSG_SYNC_BOARD}"
  by (cases m) (simp_all add: msg_type_variable_payload_def del: msg_code.simps)

text \<open>
  The two payload tables agree: a type has a fixed size (at most 35 bytes) exactly when it is
  known and its payload is not variable.
\<close>

lemma payload_tables_agree:
  "msg_type_fixed_payload_size b = SIZE_MAX \<longleftrightarrow>
     msg_type_variable_payload b \<or> msg_type_of b = None"
  by (auto simp: msg_type_fixed_payload_size_def msg_type_variable_payload_def SIZE_MAX_def
           split: option.splits msg_type_t.splits)

lemma fixed_payload_size_le:
  "msg_type_fixed_payload_size b \<noteq> SIZE_MAX \<Longrightarrow> msg_type_fixed_payload_size b \<le> 35"
  by (auto simp: msg_type_fixed_payload_size_def split: option.splits msg_type_t.splits)

lemma msg_type_names_distinct:
  "distinct (''UNKNOWN'' # map (\<lambda>m. msg_type_name (msg_code m)) all_msg_types)"
  by (simp add: msg_type_name_def all_msg_types_def del: msg_code.simps)

lemma msg_type_name_inj:
  assumes "msg_type_of a \<noteq> None" and "msg_type_name a = msg_type_name b"
  shows "a = b"
proof -
  obtain m where m: "a = msg_code m"
    using assms(1) msg_type_of_SomeD by blast
  have "msg_type_name a \<noteq> ''UNKNOWN''"
    using msg_type_names_distinct all_msg_types_complete [of m] m
    by (metis (no_types, lifting) distinct.simps(2) image_eqI list.set_map)
  moreover have "msg_type_of b = None \<Longrightarrow> msg_type_name b = ''UNKNOWN''"
    by (simp add: msg_type_name_def)
  ultimately have "msg_type_of b \<noteq> None"
    using assms(2) by auto
  then obtain n where n: "b = msg_code n"
    using msg_type_of_SomeD by blast
  have "inj_on (\<lambda>m. msg_type_name (msg_code m)) (set all_msg_types)"
    using msg_type_names_distinct by (simp add: distinct_map)
  then show ?thesis
    using assms(2) m n by (metis inj_onD all_msg_types_complete)
qed

end
