(* ===== verification/Byte_Buffer.thy ===== *)
theory Byte_Buffer
  imports Prelude
begin

text \<open>
  The bounds-checked byte access at the head of \<open>common/src/serialization.c\<close>.  A buffer and the
  length passed with it are one list; every call of the program passes the length of the buffer
  it passes.  A writer takes and returns the buffer and the offset; the result \<open>-1\<close> is \<open>None\<close>
  (no caller looks at the buffer of a failed call).  A reader returns the value and the new
  offset.
\<close>

section \<open>Primitives\<close>

text \<open>\<open>ensure_capacity\<close> holds where the code returns \<open>0\<close>.\<close>

definition ensure_capacity :: "nat \<Rightarrow> nat \<Rightarrow> nat \<Rightarrow> bool" where
  "ensure_capacity offset need capacity \<longleftrightarrow> \<not> (offset > capacity \<or> need > capacity - offset)"

type_synonym wstate = "u8 list \<times> nat"

definition write_u8 :: "u8 \<Rightarrow> wstate \<Rightarrow> wstate option" where
  "write_u8 value st = (case st of (buffer, offset) \<Rightarrow>
     if \<not> ensure_capacity offset 1 (length buffer) then None
     else Some (buffer[offset := value], offset + 1))"

definition write_u16_be :: "u16 \<Rightarrow> wstate \<Rightarrow> wstate option" where
  "write_u16_be value st = (case st of (buffer, offset) \<Rightarrow>
     if \<not> ensure_capacity offset 2 (length buffer) then None
     else Some (buffer[offset := ucast (drop_bit 8 value AND 0xFF),
                       offset + 1 := ucast (value AND 0xFF)], offset + 2))"

definition read_u8 :: "u8 list \<Rightarrow> nat \<Rightarrow> (u8 \<times> nat) option" where
  "read_u8 buffer offset =
     (if \<not> ensure_capacity offset 1 (length buffer) then None
      else Some (buffer ! offset, offset + 1))"

definition read_u16_be :: "u8 list \<Rightarrow> nat \<Rightarrow> (u16 \<times> nat) option" where
  "read_u16_be buffer offset =
     (if \<not> ensure_capacity offset 2 (length buffer) then None
      else Some (push_bit 8 (ucast (buffer ! offset)) OR ucast (buffer ! (offset + 1)), offset + 2))"

definition write_fixed_string :: "u8 list \<Rightarrow> nat \<Rightarrow> wstate \<Rightarrow> wstate option" where
  "write_fixed_string input field_len st = (case st of (buffer, offset) \<Rightarrow>
     if \<not> ensure_capacity offset field_len (length buffer) then None
     else let copy_len = strnlen input field_len;
              buffer = blit offset (take copy_len input) buffer;
              buffer = (if field_len > copy_len
                        then blit (offset + copy_len) (replicate (field_len - copy_len) 0) buffer
                        else buffer)
          in Some (buffer, offset + field_len))"

text \<open>
  The trailing loop of \<open>read_fixed_string\<close> walks back over NUL bytes and writes NUL over each,
  which leaves the array as it was; it is modelled as written.
\<close>

fun trim_nuls :: "nat \<Rightarrow> u8 list \<Rightarrow> u8 list" where
  "trim_nuls 0 output = output"
| "trim_nuls (Suc copy_len) output =
     (if output ! copy_len = 0 then trim_nuls copy_len (output[copy_len := 0]) else output)"

definition read_fixed_string :: "u8 list \<Rightarrow> u8 list \<Rightarrow> nat \<Rightarrow> nat \<Rightarrow> (u8 list \<times> nat) option" where
  "read_fixed_string output buffer offset field_len =
     (let output_capacity = length output in
      if output_capacity = 0 then None
      else if \<not> ensure_capacity offset field_len (length buffer) then None
      else let copy_len = (if field_len > output_capacity - 1 then output_capacity - 1 else field_len);
               output = blit 0 (take copy_len (drop offset buffer)) output;
               output = output[copy_len := 0];
               output = trim_nuls copy_len output
           in Some (output, offset + field_len))"

section \<open>Writing at the end of what was written\<close>

text \<open>\<open>written w buf\<close>: the bytes \<open>w\<close> have been written at the start of \<open>buf\<close>.\<close>

definition written :: "u8 list \<Rightarrow> u8 list \<Rightarrow> wstate" where
  "written w buf = (w @ drop (length w) buf, length w)"

lemma written_Nil: "(buf, 0) = written [] buf"
  by (simp add: written_def)

lemma ensure_capacity_iff: "ensure_capacity offset need capacity \<longleftrightarrow> offset + need \<le> capacity"
  by (auto simp: ensure_capacity_def)

lemma length_written [simp]: "length w \<le> length buf \<Longrightarrow> length (fst (written w buf)) = length buf"
  by (simp add: written_def)

lemma write_u8_written [wire_simps]:
  assumes "length w \<le> length buf"
  shows "write_u8 v (written w buf) =
     (if length w + 1 \<le> length buf then Some (written (w @ [v]) buf) else None)"
proof (cases "length w < length buf")
  case True
  then have "drop (length w) buf = buf ! length w # drop (Suc (length w)) buf"
    by (simp add: Cons_nth_drop_Suc)
  with True show ?thesis
    by (simp add: write_u8_def written_def ensure_capacity_iff list_update_append)
qed (auto simp: write_u8_def written_def ensure_capacity_iff)

definition u16_bytes :: "u16 \<Rightarrow> u8 list" where
  "u16_bytes v = [ucast (drop_bit 8 v), ucast v]"

lemma length_u16_bytes [simp]: "length (u16_bytes v) = 2"
  by (simp add: u16_bytes_def)

lemma ucast_and_255: "(ucast (v AND 0xFF) :: u8) = ucast (v :: u16)"
proof -
  have "v AND 0xFF = take_bit 8 v" by (simp add: take_bit_eq_mask mask_eq_exp_minus_1)
  then show ?thesis by (auto intro!: bit_eqI simp: bit_simps)
qed

lemma write_u16_written [wire_simps]:
  assumes "length w \<le> length buf"
  shows "write_u16_be v (written w buf) =
     (if length w + 2 \<le> length buf then Some (written (w @ u16_bytes v) buf) else None)"
proof (cases "length w + 2 \<le> length buf")
  case True
  then have "drop (length w) buf = buf ! length w # buf ! Suc (length w) # drop (Suc (Suc (length w))) buf"
    by (simp add: Cons_nth_drop_Suc)
  then show ?thesis
    using True by (simp add: write_u16_be_def written_def ensure_capacity_iff list_update_append
        u16_bytes_def ucast_and_255)
qed (auto simp: write_u16_be_def written_def ensure_capacity_iff)

lemma blit_written:
  "blit (length w) bs (w @ drop (length w) buf) = (w @ bs) @ drop (length (w @ bs)) buf"
  by (simp add: blit_def add.commute)

lemma blit_pad_to:
  assumes "length s \<le> n" and "off + n \<le> length b"
  shows "(if length s < n then blit (off + length s) (replicate (n - length s) 0) (blit off s b)
          else blit off s b) = blit off (pad_to n s) b"
proof (cases "length s < n")
  case True
  obtain k where k: "n = length s + k" using assms(1) le_iff_add by blast
  have "take (off + length s) (blit off s b) = take off b @ s"
    using assms k by (simp add: blit_def)
  moreover have "drop (off + length s + k) (blit off s b) = drop (off + length s + k) b"
    using assms k by (simp add: blit_def add.commute add.left_commute)
  ultimately show ?thesis
    using k True by (simp add: blit_def [of "off + length s"] blit_def [of off "s @ replicate k 0"] pad_to_def
        add.assoc)
next
  case False
  with assms(1) show ?thesis by (simp add: pad_to_def)
qed

lemma write_fixed_string_written [wire_simps]:
  assumes "length w \<le> length buf"
  shows "write_fixed_string input n (written w buf) =
     (if length w + n \<le> length buf then Some (written (w @ pad_to n (c_strn n input)) buf) else None)"
proof (cases "length w + n \<le> length buf")
  case True
  let ?b = "w @ drop (length w) buf" and ?s = "c_strn n input"
  have "write_fixed_string input n (written w buf) =
      Some (if length ?s < n then blit (length w + length ?s) (replicate (n - length ?s) 0) (blit (length w) ?s ?b)
            else blit (length w) ?s ?b, length w + n)"
    using True by (simp add: write_fixed_string_def written_def ensure_capacity_iff take_strnlen)
      (simp add: strnlen_def Let_def)
  also have "\<dots> = Some (blit (length w) (pad_to n ?s) ?b, length w + n)"
    using True by (subst blit_pad_to) auto
  also have "\<dots> = Some (written (w @ pad_to n ?s) buf)"
    by (simp only: blit_written) (simp add: written_def)
  finally show ?thesis using True by simp
next
  case False
  with assms show ?thesis
    by (simp add: write_fixed_string_def written_def ensure_capacity_iff)
qed

section \<open>Reading what remains\<close>

lemma read_u8_drop: "read_u8 buffer offset =
    (case drop offset buffer of [] \<Rightarrow> None | x # _ \<Rightarrow> Some (x, offset + 1))"
  by (cases "offset < length buffer")
    (simp_all add: read_u8_def ensure_capacity_iff Cons_nth_drop_Suc [symmetric])

lemma read_u16_drop: "read_u16_be buffer offset =
    (case drop offset buffer of x # y # _ \<Rightarrow> Some (push_bit 8 (ucast x) OR ucast y, offset + 2)
     | _ \<Rightarrow> None)"
proof (cases "offset + 2 \<le> length buffer")
  case True
  then have "drop offset buffer = buffer ! offset # buffer ! Suc offset # drop (offset + 2) buffer"
    by (simp add: Cons_nth_drop_Suc)
  with True show ?thesis by (simp add: read_u16_be_def ensure_capacity_iff)
next
  case False
  then have "length (drop offset buffer) < 2" by auto
  then have "drop offset buffer = [] \<or> (\<exists>x. drop offset buffer = [x])"
    by (metis Suc_1 length_0_conv length_Suc_conv less_2_cases)
  with False show ?thesis
    by (auto simp: read_u16_be_def ensure_capacity_iff)
qed

lemma drop_next: "drop n xs = y # ys \<Longrightarrow> drop (Suc n) xs = ys"
  by (metis drop_Suc drop_tl list.sel(3))

lemma read_u8_step:
  assumes "drop n buf = x # r"
  shows "read_u8 buf n = Some (x, n + 1)" and "drop (n + 1) buf = r"
  using assms by (simp_all add: read_u8_drop drop_next)

lemma trim_nuls_id: "trim_nuls n out = out"
proof (induction n)
  case (Suc n)
  have "out ! n = 0 \<Longrightarrow> out[n := 0] = out" by (metis list_update_id)
  with Suc show ?case by simp
qed simp

lemma read_fixed_string_step:
  assumes "drop off buf = s @ r" and "length s = n" and "length out = Suc n" and "0 < n"
  shows "read_fixed_string out buf off n = Some (s @ [0], off + n)" and "drop (off + n) buf = r"
proof -
  have "off + n \<le> length buf"
    using assms(1,2,4) by (metis add.commute length_append length_drop le_add1 le_diff_conv2
        less_diff_conv add_gr_0 nat_less_le order.strict_implies_order zero_less_diff)
  moreover obtain x where "drop n out = [x]"
    using assms(3) by (metis length_drop length_0_conv length_Suc_conv diff_Suc_1' Suc_diff_le
        diff_self_eq_0 le_refl)
  ultimately show "read_fixed_string out buf off n = Some (s @ [0], off + n)"
    using assms by (simp add: read_fixed_string_def ensure_capacity_iff trim_nuls_id blit_def
        list_update_append Let_def)
  have "drop (off + n) buf = drop n (drop off buf)" by (simp add: add.commute)
  then show "drop (off + n) buf = r" using assms(1,2) by simp
qed

lemma u16_bytes_join: "push_bit 8 (ucast (ucast (drop_bit 8 v) :: u8)) OR ucast (ucast v :: u8) = (v :: u16)"
  by (rule bit_eqI) (auto simp: bit_simps not_le not_less)

lemma u16_join_bytes:
  "u16_bytes (push_bit 8 (ucast (a :: u8)) OR ucast (b :: u8)) = [a, b]"
proof -
  have "\<not> bit b (8 + n)" for n
    using bit_imp_le_length [of b "8 + n"] by auto
  then show ?thesis
    unfolding u16_bytes_def by (auto intro!: bit_eqI simp: bit_simps)
qed

end
