(* ===== verification/Serialization.thy ===== *)
theory Serialization
  imports Protocol Byte_Buffer
begin

text \<open>
  \<open>common/src/serialization.c\<close>: the encoder and the decoder of every message.  An encoder takes the
  message and the buffer and returns the buffer and the number of bytes written, \<open>None\<close> for
  \<open>-1\<close>.  A decoder takes what the target struct held before the call and the received bytes, and
  returns the struct, \<open>None\<close> for \<open>-1\<close>.  Pointers are values here, so the NULL checks have no
  counterpart.

  The contract of such a pair is the locale \<open>codec\<close>; every message of the protocol is an
  interpretation of it.
\<close>

section \<open>Header\<close>

abbreviation (input) HEADER_SIZE :: nat where "HEADER_SIZE \<equiv> 3"

definition proto_write_header :: "msg_header_t \<Rightarrow> u8 list \<Rightarrow> u8 list option" where
  "proto_write_header header buffer =
     (if length buffer < HEADER_SIZE then None
      else do {
        st \<leftarrow> write_u8 (h_msg_type header) (buffer, 0);
        st \<leftarrow> write_u8 (h_sender_id header) st;
        st \<leftarrow> write_u8 (h_target_id header) st;
        Some (fst st)
      })"

definition proto_read_header :: "msg_header_t \<Rightarrow> u8 list \<Rightarrow> msg_header_t option" where
  "proto_read_header header buffer =
     (if length buffer < HEADER_SIZE then None
      else do {
        (v, offset) \<leftarrow> read_u8 buffer 0;
        let header = header\<lparr>h_msg_type := v\<rparr>;
        (v, offset) \<leftarrow> read_u8 buffer offset;
        let header = header\<lparr>h_sender_id := v\<rparr>;
        (v, offset) \<leftarrow> read_u8 buffer offset;
        Some (header\<lparr>h_target_id := v\<rparr>)
      })"

section \<open>Payload sizes\<close>

definition proto_welcome_payload_size :: "msg_welcome_t \<Rightarrow> nat" where
  "proto_welcome_payload_size msg =
     (if unat (welcome_player_count msg) > MAX_PLAYERS then 0
      else MAX_ID_LEN + 1 + 1 + unat (welcome_player_count msg) * (1 + 1 + MAX_NAME_LEN))"

definition map_expected_count :: "msg_map_t \<Rightarrow> u16" where
  "map_expected_count msg = ucast (mm_rows msg) * ucast (mm_cols msg)"

definition proto_map_payload_size :: "msg_map_t \<Rightarrow> nat" where
  "proto_map_payload_size msg =
     (let expected_count = map_expected_count msg in
      if expected_count = 0 \<or> unat expected_count > MAX_MAP_CELLS then 0
      else 2 + unat expected_count)"

definition proto_sync_board_payload_size :: "msg_sync_board_t \<Rightarrow> nat" where
  "proto_sync_board_payload_size msg =
     (if unat (sync_player_count msg) > MAX_PLAYERS then 0
      else 2 + unat (sync_player_count msg) * 12)"

section \<open>Hello and welcome\<close>

definition proto_encode_hello_payload :: "msg_hello_t \<Rightarrow> u8 list \<Rightarrow> wstate option" where
  "proto_encode_hello_payload msg buffer = do {
     st \<leftarrow> write_fixed_string (hello_client_id msg) MAX_ID_LEN (buffer, 0);
     write_fixed_string (hello_player_name msg) MAX_NAME_LEN st
   }"

definition proto_decode_hello_payload :: "msg_hello_t \<Rightarrow> u8 list \<Rightarrow> msg_hello_t option" where
  "proto_decode_hello_payload msg buffer =
     (if length buffer \<noteq> MAX_ID_LEN + MAX_NAME_LEN then None
      else do {
        (v, offset) \<leftarrow> read_fixed_string (hello_client_id msg) buffer 0 MAX_ID_LEN;
        let msg = msg\<lparr>hello_client_id := v\<rparr>;
        (v, offset) \<leftarrow> read_fixed_string (hello_player_name msg) buffer offset MAX_NAME_LEN;
        Some (msg\<lparr>hello_player_name := v\<rparr>)
      })"

definition encode_player_summary :: "msg_player_summary_t \<Rightarrow> wstate \<Rightarrow> wstate option" where
  "encode_player_summary p st = do {
     st \<leftarrow> write_u8 (ps_id p) st;
     st \<leftarrow> write_u8 (if ps_ready p then 1 else 0) st;
     write_fixed_string (ps_name p) MAX_NAME_LEN st
   }"

definition proto_encode_welcome_payload :: "msg_welcome_t \<Rightarrow> u8 list \<Rightarrow> wstate option" where
  "proto_encode_welcome_payload msg buffer =
     (if unat (welcome_player_count msg) > MAX_PLAYERS then None
      else do {
        st \<leftarrow> write_fixed_string (welcome_server_id msg) MAX_ID_LEN (buffer, 0);
        st \<leftarrow> write_u8 (welcome_game_status msg) st;
        st \<leftarrow> write_u8 (welcome_player_count msg) st;
        for_opt [0..<unat (welcome_player_count msg)]
          (\<lambda>index st. encode_player_summary (welcome_players msg ! index) st) st
      })"

definition decode_player_summary ::
  "u8 list \<Rightarrow> msg_player_summary_t \<Rightarrow> nat \<Rightarrow> (msg_player_summary_t \<times> nat) option" where
  "decode_player_summary buffer p offset = do {
     (v, offset) \<leftarrow> read_u8 buffer offset;
     let p = p\<lparr>ps_id := v\<rparr>;
     (ready_byte, offset) \<leftarrow> read_u8 buffer offset;
     (v, offset) \<leftarrow> read_fixed_string (ps_name p) buffer offset MAX_NAME_LEN;
     let p = p\<lparr>ps_name := v\<rparr>;
     Some (p\<lparr>ps_ready := (ready_byte \<noteq> 0)\<rparr>, offset)
   }"

text \<open>The loop over the first \<open>n\<close> array entries, each read into its place.\<close>

definition decode_array ::
  "('p \<Rightarrow> nat \<Rightarrow> ('p \<times> nat) option) \<Rightarrow> nat \<Rightarrow> 'p list \<Rightarrow> nat \<Rightarrow> ('p list \<times> nat) option" where
  "decode_array dec n players offset =
     for_opt [0..<n] (\<lambda>index (players, offset). do {
         (p, offset) \<leftarrow> dec (players ! index) offset;
         Some (players[index := p], offset)
       }) (players, offset)"

definition proto_decode_welcome_payload :: "msg_welcome_t \<Rightarrow> u8 list \<Rightarrow> msg_welcome_t option" where
  "proto_decode_welcome_payload msg buffer =
     (if length buffer < MAX_ID_LEN + 2 then None
      else do {
        (v, offset) \<leftarrow> read_fixed_string (welcome_server_id msg) buffer 0 MAX_ID_LEN;
        let msg = msg\<lparr>welcome_server_id := v\<rparr>;
        (v, offset) \<leftarrow> read_u8 buffer offset;
        let msg = msg\<lparr>welcome_game_status := v\<rparr>;
        (v, offset) \<leftarrow> read_u8 buffer offset;
        let msg = msg\<lparr>welcome_player_count := v\<rparr>;
        if unat (welcome_player_count msg) > MAX_PLAYERS then None
        else if length buffer \<noteq>
            MAX_ID_LEN + 1 + 1 + unat (welcome_player_count msg) * (1 + 1 + MAX_NAME_LEN) then None
        else do {
          (ps, offset) \<leftarrow> decode_array (decode_player_summary buffer)
             (unat (welcome_player_count msg)) (welcome_players msg) offset;
          Some (msg\<lparr>welcome_players := ps\<rparr>)
        }
      })"

section \<open>Fixed-size messages\<close>

definition proto_encode_set_status_payload :: "msg_set_status_t \<Rightarrow> u8 list \<Rightarrow> wstate option" where
  "proto_encode_set_status_payload msg buffer = write_u8 (set_status_status msg) (buffer, 0)"

definition proto_decode_set_status_payload :: "msg_set_status_t \<Rightarrow> u8 list \<Rightarrow> msg_set_status_t option" where
  "proto_decode_set_status_payload msg buffer =
     (if length buffer \<noteq> 1 then None
      else do {
        (v, offset) \<leftarrow> read_u8 buffer 0;
        Some (msg\<lparr>set_status_status := v\<rparr>)
      })"

definition proto_encode_move_attempt_payload :: "msg_move_attempt_t \<Rightarrow> u8 list \<Rightarrow> wstate option" where
  "proto_encode_move_attempt_payload msg buffer = write_u8 (move_direction msg) (buffer, 0)"

definition proto_decode_move_attempt_payload :: "msg_move_attempt_t \<Rightarrow> u8 list \<Rightarrow> msg_move_attempt_t option" where
  "proto_decode_move_attempt_payload msg buffer =
     (if length buffer \<noteq> 1 then None
      else do {
        (v, offset) \<leftarrow> read_u8 buffer 0;
        Some (msg\<lparr>move_direction := v\<rparr>)
      })"

definition proto_encode_moved_payload :: "msg_moved_t \<Rightarrow> u8 list \<Rightarrow> wstate option" where
  "proto_encode_moved_payload msg buffer = do {
     st \<leftarrow> write_u8 (moved_player_id msg) (buffer, 0);
     write_u16_be (moved_cell_index msg) st
   }"

definition proto_decode_moved_payload :: "msg_moved_t \<Rightarrow> u8 list \<Rightarrow> msg_moved_t option" where
  "proto_decode_moved_payload msg buffer =
     (if length buffer \<noteq> 3 then None
      else do {
        (v, offset) \<leftarrow> read_u8 buffer 0;
        let msg = msg\<lparr>moved_player_id := v\<rparr>;
        (v, offset) \<leftarrow> read_u16_be buffer offset;
        Some (msg\<lparr>moved_cell_index := v\<rparr>)
      })"

definition proto_encode_bomb_attempt_payload :: "msg_bomb_attempt_t \<Rightarrow> u8 list \<Rightarrow> wstate option" where
  "proto_encode_bomb_attempt_payload msg buffer = write_u16_be (bomb_attempt_cell_index msg) (buffer, 0)"

definition proto_decode_bomb_attempt_payload :: "msg_bomb_attempt_t \<Rightarrow> u8 list \<Rightarrow> msg_bomb_attempt_t option" where
  "proto_decode_bomb_attempt_payload msg buffer =
     (if length buffer \<noteq> 2 then None
      else do {
        (v, offset) \<leftarrow> read_u16_be buffer 0;
        Some (msg\<lparr>bomb_attempt_cell_index := v\<rparr>)
      })"

definition proto_encode_bomb_payload :: "msg_bomb_t \<Rightarrow> u8 list \<Rightarrow> wstate option" where
  "proto_encode_bomb_payload msg buffer = do {
     st \<leftarrow> write_u8 (bomb_player_id msg) (buffer, 0);
     write_u16_be (bomb_cell_index msg) st
   }"

definition proto_decode_bomb_payload :: "msg_bomb_t \<Rightarrow> u8 list \<Rightarrow> msg_bomb_t option" where
  "proto_decode_bomb_payload msg buffer =
     (if length buffer \<noteq> 3 then None
      else do {
        (v, offset) \<leftarrow> read_u8 buffer 0;
        let msg = msg\<lparr>bomb_player_id := v\<rparr>;
        (v, offset) \<leftarrow> read_u16_be buffer offset;
        Some (msg\<lparr>bomb_cell_index := v\<rparr>)
      })"

definition proto_encode_explosion_start_payload :: "msg_explosion_start_t \<Rightarrow> u8 list \<Rightarrow> wstate option" where
  "proto_encode_explosion_start_payload msg buffer = do {
     st \<leftarrow> write_u8 (es_radius msg) (buffer, 0);
     write_u16_be (es_cell_index msg) st
   }"

definition proto_decode_explosion_start_payload :: "msg_explosion_start_t \<Rightarrow> u8 list \<Rightarrow> msg_explosion_start_t option" where
  "proto_decode_explosion_start_payload msg buffer =
     (if length buffer \<noteq> 3 then None
      else do {
        (v, offset) \<leftarrow> read_u8 buffer 0;
        let msg = msg\<lparr>es_radius := v\<rparr>;
        (v, offset) \<leftarrow> read_u16_be buffer offset;
        Some (msg\<lparr>es_cell_index := v\<rparr>)
      })"

definition proto_encode_explosion_end_payload :: "msg_explosion_end_t \<Rightarrow> u8 list \<Rightarrow> wstate option" where
  "proto_encode_explosion_end_payload msg buffer = write_u16_be (ee_cell_index msg) (buffer, 0)"

definition proto_decode_explosion_end_payload :: "msg_explosion_end_t \<Rightarrow> u8 list \<Rightarrow> msg_explosion_end_t option" where
  "proto_decode_explosion_end_payload msg buffer =
     (if length buffer \<noteq> 2 then None
      else do {
        (v, offset) \<leftarrow> read_u16_be buffer 0;
        Some (msg\<lparr>ee_cell_index := v\<rparr>)
      })"

definition proto_encode_death_payload :: "msg_death_t \<Rightarrow> u8 list \<Rightarrow> wstate option" where
  "proto_encode_death_payload msg buffer = write_u8 (death_player_id msg) (buffer, 0)"

definition proto_decode_death_payload :: "msg_death_t \<Rightarrow> u8 list \<Rightarrow> msg_death_t option" where
  "proto_decode_death_payload msg buffer =
     (if length buffer \<noteq> 1 then None
      else do {
        (v, offset) \<leftarrow> read_u8 buffer 0;
        Some (msg\<lparr>death_player_id := v\<rparr>)
      })"

definition proto_encode_bonus_available_payload :: "msg_bonus_available_t \<Rightarrow> u8 list \<Rightarrow> wstate option" where
  "proto_encode_bonus_available_payload msg buffer = do {
     st \<leftarrow> write_u8 (ba_bonus_type msg) (buffer, 0);
     write_u16_be (ba_cell_index msg) st
   }"

definition proto_decode_bonus_available_payload :: "msg_bonus_available_t \<Rightarrow> u8 list \<Rightarrow> msg_bonus_available_t option" where
  "proto_decode_bonus_available_payload msg buffer =
     (if length buffer \<noteq> 3 then None
      else do {
        (v, offset) \<leftarrow> read_u8 buffer 0;
        let msg = msg\<lparr>ba_bonus_type := v\<rparr>;
        (v, offset) \<leftarrow> read_u16_be buffer offset;
        Some (msg\<lparr>ba_cell_index := v\<rparr>)
      })"

definition proto_encode_bonus_retrieved_payload :: "msg_bonus_retrieved_t \<Rightarrow> u8 list \<Rightarrow> wstate option" where
  "proto_encode_bonus_retrieved_payload msg buffer = do {
     st \<leftarrow> write_u8 (br_player_id msg) (buffer, 0);
     write_u16_be (br_cell_index msg) st
   }"

definition proto_decode_bonus_retrieved_payload :: "msg_bonus_retrieved_t \<Rightarrow> u8 list \<Rightarrow> msg_bonus_retrieved_t option" where
  "proto_decode_bonus_retrieved_payload msg buffer =
     (if length buffer \<noteq> 3 then None
      else do {
        (v, offset) \<leftarrow> read_u8 buffer 0;
        let msg = msg\<lparr>br_player_id := v\<rparr>;
        (v, offset) \<leftarrow> read_u16_be buffer offset;
        Some (msg\<lparr>br_cell_index := v\<rparr>)
      })"

definition proto_encode_block_destroyed_payload :: "msg_block_destroyed_t \<Rightarrow> u8 list \<Rightarrow> wstate option" where
  "proto_encode_block_destroyed_payload msg buffer = write_u16_be (bd_cell_index msg) (buffer, 0)"

definition proto_decode_block_destroyed_payload :: "msg_block_destroyed_t \<Rightarrow> u8 list \<Rightarrow> msg_block_destroyed_t option" where
  "proto_decode_block_destroyed_payload msg buffer =
     (if length buffer \<noteq> 2 then None
      else do {
        (v, offset) \<leftarrow> read_u16_be buffer 0;
        Some (msg\<lparr>bd_cell_index := v\<rparr>)
      })"

definition proto_encode_winner_payload :: "msg_winner_t \<Rightarrow> u8 list \<Rightarrow> wstate option" where
  "proto_encode_winner_payload msg buffer = write_u8 (winner_winner_id msg) (buffer, 0)"

definition proto_decode_winner_payload :: "msg_winner_t \<Rightarrow> u8 list \<Rightarrow> msg_winner_t option" where
  "proto_decode_winner_payload msg buffer =
     (if length buffer \<noteq> 1 then None
      else do {
        (v, offset) \<leftarrow> read_u8 buffer 0;
        Some (msg\<lparr>winner_winner_id := v\<rparr>)
      })"

section \<open>Error, map and board\<close>

definition proto_encode_error_payload :: "msg_error_t \<Rightarrow> u8 list \<Rightarrow> wstate option" where
  "proto_encode_error_payload msg buffer =
     (let message_len = err_len msg;
          message_len = (if message_len = 0 then of_nat (strnlen (err_text msg) MAX_ERROR_LEN)
                         else message_len) in
      if unat message_len > MAX_ERROR_LEN then None
      else do {
        (buffer, offset) \<leftarrow> write_u16_be message_len (buffer, 0);
        if \<not> ensure_capacity offset (unat message_len) (length buffer) then None
        else Some (blit offset (take (unat message_len) (err_text msg)) buffer,
                   offset + unat message_len)
      })"

definition proto_decode_error_payload :: "msg_error_t \<Rightarrow> u8 list \<Rightarrow> msg_error_t option" where
  "proto_decode_error_payload msg buffer =
     (if length buffer < 2 then None
      else do {
        (v, offset) \<leftarrow> read_u16_be buffer 0;
        let msg = msg\<lparr>err_len := v\<rparr>;
        if unat (err_len msg) > MAX_ERROR_LEN \<or> length buffer \<noteq> 2 + unat (err_len msg) then None
        else Some (msg\<lparr>err_text :=
          (blit 0 (take (unat (err_len msg)) (drop offset buffer)) (err_text msg))
            [unat (err_len msg) := 0]\<rparr>)
      })"

definition proto_encode_map_payload :: "msg_map_t \<Rightarrow> u8 list \<Rightarrow> wstate option" where
  "proto_encode_map_payload msg buffer =
     (let expected_count = map_expected_count msg in
      if expected_count = 0 \<or> unat expected_count > MAX_MAP_CELLS then None
      else do {
        st \<leftarrow> write_u8 (mm_rows msg) (buffer, 0);
        (buffer, offset) \<leftarrow> write_u8 (mm_cols msg) st;
        if \<not> ensure_capacity offset (unat expected_count) (length buffer) then None
        else Some (blit offset (take (unat expected_count) (mm_cells msg)) buffer,
                   offset + unat expected_count)
      })"

definition proto_decode_map_payload :: "msg_map_t \<Rightarrow> u8 list \<Rightarrow> msg_map_t option" where
  "proto_decode_map_payload msg buffer =
     (if length buffer < 2 then None
      else do {
        (v, offset) \<leftarrow> read_u8 buffer 0;
        let msg = msg\<lparr>mm_rows := v\<rparr>;
        (v, offset) \<leftarrow> read_u8 buffer offset;
        let msg = msg\<lparr>mm_cols := v\<rparr>;
        let expected_count = map_expected_count msg;
        if expected_count = 0 \<or> unat expected_count > MAX_MAP_CELLS \<or>
            length buffer \<noteq> 2 + unat expected_count then None
        else Some (msg\<lparr>mm_cell_count := expected_count,
          mm_cells := blit 0 (take (unat expected_count) (drop offset buffer)) (mm_cells msg)\<rparr>)
      })"

definition encode_sync_player :: "msg_sync_player_t \<Rightarrow> wstate \<Rightarrow> wstate option" where
  "encode_sync_player p st = do {
     st \<leftarrow> write_u8 (sp_id p) st;
     st \<leftarrow> write_u8 (sp_lives p) st;
     st \<leftarrow> write_u16_be (sp_cell_index p) st;
     st \<leftarrow> write_u8 (if sp_alive p then 1 else 0) st;
     st \<leftarrow> write_u8 (if sp_ready p then 1 else 0) st;
     st \<leftarrow> write_u8 (sp_bomb_count p) st;
     st \<leftarrow> write_u8 (sp_bomb_radius p) st;
     st \<leftarrow> write_u16_be (sp_bomb_timer_ticks p) st;
     write_u16_be (sp_speed p) st
   }"

definition proto_encode_sync_board_payload :: "msg_sync_board_t \<Rightarrow> u8 list \<Rightarrow> wstate option" where
  "proto_encode_sync_board_payload msg buffer =
     (if unat (sync_player_count msg) > MAX_PLAYERS then None
      else do {
        st \<leftarrow> write_u8 (sync_status msg) (buffer, 0);
        st \<leftarrow> write_u8 (sync_player_count msg) st;
        for_opt [0..<unat (sync_player_count msg)]
          (\<lambda>index st. encode_sync_player (sync_players msg ! index) st) st
      })"

definition decode_sync_player ::
  "u8 list \<Rightarrow> msg_sync_player_t \<Rightarrow> nat \<Rightarrow> (msg_sync_player_t \<times> nat) option" where
  "decode_sync_player buffer p offset = do {
     (v, offset) \<leftarrow> read_u8 buffer offset;
     let p = p\<lparr>sp_id := v\<rparr>;
     (v, offset) \<leftarrow> read_u8 buffer offset;
     let p = p\<lparr>sp_lives := v\<rparr>;
     (v, offset) \<leftarrow> read_u16_be buffer offset;
     let p = p\<lparr>sp_cell_index := v\<rparr>;
     (alive_byte, offset) \<leftarrow> read_u8 buffer offset;
     (ready_byte, offset) \<leftarrow> read_u8 buffer offset;
     (v, offset) \<leftarrow> read_u8 buffer offset;
     let p = p\<lparr>sp_bomb_count := v\<rparr>;
     (v, offset) \<leftarrow> read_u8 buffer offset;
     let p = p\<lparr>sp_bomb_radius := v\<rparr>;
     (v, offset) \<leftarrow> read_u16_be buffer offset;
     let p = p\<lparr>sp_bomb_timer_ticks := v\<rparr>;
     (v, offset) \<leftarrow> read_u16_be buffer offset;
     let p = p\<lparr>sp_speed := v\<rparr>;
     Some (p\<lparr>sp_alive := (alive_byte \<noteq> 0), sp_ready := (ready_byte \<noteq> 0)\<rparr>, offset)
   }"

definition proto_decode_sync_board_payload :: "msg_sync_board_t \<Rightarrow> u8 list \<Rightarrow> msg_sync_board_t option" where
  "proto_decode_sync_board_payload msg buffer =
     (if length buffer < 2 then None
      else do {
        (v, offset) \<leftarrow> read_u8 buffer 0;
        let msg = msg\<lparr>sync_status := v\<rparr>;
        (v, offset) \<leftarrow> read_u8 buffer offset;
        let msg = msg\<lparr>sync_player_count := v\<rparr>;
        if unat (sync_player_count msg) > MAX_PLAYERS then None
        else if length buffer \<noteq> 2 + unat (sync_player_count msg) * 12 then None
        else do {
          (ps, offset) \<leftarrow> decode_array (decode_sync_player buffer)
             (unat (sync_player_count msg)) (sync_players msg) offset;
          Some (msg\<lparr>sync_players := ps\<rparr>)
        }
      })"

end
