(* ===== verification/Codec.thy ===== *)
theory Codec
  imports Serialization
begin

text \<open>
  The contract of a message's encoder and decoder, as a locale, and its proof for every message of
  the protocol.  \<open>wire m\<close> is the abstract specification: the byte sequence that stands for \<open>m\<close>.
\<close>

section \<open>The contract\<close>

text \<open>
  What a caller does with an encoder: encode into a local array of \<open>cap\<close> bytes and send the first
  \<open>written\<close> bytes if the encoder returned \<open>0\<close>.
\<close>

definition payload_of :: "('m \<Rightarrow> u8 list \<Rightarrow> wstate option) \<Rightarrow> nat \<Rightarrow> 'm \<Rightarrow> u8 list option" where
  "payload_of enc cap m = map_option (\<lambda>(buffer, n). take n buffer) (enc m (replicate cap 0))"

text \<open>
  \<open>shaped\<close>: the arrays of the struct have their declared lengths (true of every C object).
  \<open>valid\<close>: what the encoder needs of the message besides.  \<open>received m0 m\<close>: what the decoder makes
  of a struct that held \<open>m0\<close> when it reads the bytes of \<open>m\<close>.
\<close>

locale codec =
  fixes enc :: "'m \<Rightarrow> u8 list \<Rightarrow> wstate option"
    and dec :: "'m \<Rightarrow> u8 list \<Rightarrow> 'm option"
    and wire :: "'m \<Rightarrow> u8 list"
    and shaped :: "'m \<Rightarrow> bool"
    and valid :: "'m \<Rightarrow> bool"
    and received :: "'m \<Rightarrow> 'm \<Rightarrow> 'm"
  assumes enc_wire: "shaped m \<Longrightarrow> valid m \<Longrightarrow> enc m buffer =
      (if length (wire m) \<le> length buffer then Some (written (wire m) buffer) else None)"
    and dec_wire: "shaped m0 \<Longrightarrow> shaped m \<Longrightarrow> valid m \<Longrightarrow> dec m0 (wire m) = Some (received m0 m)"
begin

lemma enc_fits_iff:
  "shaped m \<Longrightarrow> valid m \<Longrightarrow> (\<exists>st. enc m buffer = Some st) \<longleftrightarrow> length (wire m) \<le> length buffer"
  by (simp add: enc_wire)

lemma enc_in_bounds:
  assumes "shaped m" "valid m" "enc m buffer = Some (buffer', n)"
  shows "n = length (wire m) \<and> n \<le> length buffer \<and> length buffer' = length buffer \<and>
         take n buffer' = wire m \<and> drop n buffer' = drop n buffer"
  using assms by (auto simp: enc_wire written_def split: if_splits)

lemma roundtrip:
  assumes "shaped m" "valid m" "shaped m0" "enc m buffer = Some (buffer', n)"
  shows "dec m0 (take n buffer') = Some (received m0 m)"
  using enc_in_bounds [OF assms(1,2,4)] dec_wire [OF assms(3,1,2)] by metis

lemma payload_eq:
  "shaped m \<Longrightarrow> valid m \<Longrightarrow> length (wire m) \<le> cap \<Longrightarrow> payload_of enc cap m = Some (wire m)"
  by (simp add: payload_of_def enc_wire written_def)

end

text \<open>
  An exact codec loses nothing: the decoder accepts only byte sequences an encoder can produce,
  and the struct it returns determines them.
\<close>

locale exact_codec = codec +
  assumes dec_exact: "dec m0 bs = Some m \<Longrightarrow> shaped m \<and> valid m \<and> wire m = bs"
    and received_exact: "received m0 m = m"
begin

lemma dec_iff:
  "shaped m0 \<Longrightarrow> shaped m \<Longrightarrow> valid m \<Longrightarrow> dec m0 bs = Some m \<longleftrightarrow> bs = wire m"
  using dec_exact dec_wire received_exact by metis

lemma wire_inj:
  assumes "shaped m" "valid m" "shaped m'" "valid m'" "wire m = wire m'"
  shows "m = m'"
  using assms dec_wire received_exact by (metis option.inject)

lemma reencode:
  assumes "dec m0 bs = Some m" "length bs \<le> cap"
  shows "payload_of enc cap m = Some bs"
  using dec_exact [OF assms(1)] assms(2) payload_eq by blast

lemma dec_iff_payload:
  assumes "shaped m0" "shaped m" "valid m" "length (wire m) \<le> cap"
  shows "dec m0 bs = Some m \<longleftrightarrow> payload_of enc cap m = Some bs"
  using dec_iff [OF assms(1-3)] payload_eq [OF assms(2-4)] by auto

end

section \<open>Fixed-size messages\<close>

abbreviation (input) any :: "'m \<Rightarrow> bool" where "any \<equiv> \<lambda>_. True"
abbreviation (input) latest :: "'m \<Rightarrow> 'm \<Rightarrow> 'm" where "latest \<equiv> \<lambda>_ m. m"

lemma length_1_conv: "length xs = Suc 0 \<longleftrightarrow> (\<exists>a. xs = [a])"
  by (simp add: length_Suc_conv)

lemma length_2_conv: "length xs = 2 \<longleftrightarrow> (\<exists>a b. xs = [a, b])"
  by (auto simp: length_Suc_conv numeral_2_eq_2)

lemma length_3_conv: "length xs = 3 \<longleftrightarrow> (\<exists>a b c. xs = [a, b, c])"
  by (auto simp: length_Suc_conv numeral_3_eq_3)

lemmas codec_simps = wire_simps written_Nil read_u8_drop read_u16_drop u16_bytes_join
  length_1_conv length_2_conv length_3_conv

definition set_status_wire :: "msg_set_status_t \<Rightarrow> u8 list" where
  "set_status_wire m = [set_status_status m]"

definition move_attempt_wire :: "msg_move_attempt_t \<Rightarrow> u8 list" where
  "move_attempt_wire m = [move_direction m]"

definition moved_wire :: "msg_moved_t \<Rightarrow> u8 list" where
  "moved_wire m = moved_player_id m # u16_bytes (moved_cell_index m)"

definition bomb_attempt_wire :: "msg_bomb_attempt_t \<Rightarrow> u8 list" where
  "bomb_attempt_wire m = u16_bytes (bomb_attempt_cell_index m)"

definition bomb_wire :: "msg_bomb_t \<Rightarrow> u8 list" where
  "bomb_wire m = bomb_player_id m # u16_bytes (bomb_cell_index m)"

definition explosion_start_wire :: "msg_explosion_start_t \<Rightarrow> u8 list" where
  "explosion_start_wire m = es_radius m # u16_bytes (es_cell_index m)"

definition explosion_end_wire :: "msg_explosion_end_t \<Rightarrow> u8 list" where
  "explosion_end_wire m = u16_bytes (ee_cell_index m)"

definition death_wire :: "msg_death_t \<Rightarrow> u8 list" where
  "death_wire m = [death_player_id m]"

definition bonus_available_wire :: "msg_bonus_available_t \<Rightarrow> u8 list" where
  "bonus_available_wire m = ba_bonus_type m # u16_bytes (ba_cell_index m)"

definition bonus_retrieved_wire :: "msg_bonus_retrieved_t \<Rightarrow> u8 list" where
  "bonus_retrieved_wire m = br_player_id m # u16_bytes (br_cell_index m)"

definition block_destroyed_wire :: "msg_block_destroyed_t \<Rightarrow> u8 list" where
  "block_destroyed_wire m = u16_bytes (bd_cell_index m)"

definition winner_wire :: "msg_winner_t \<Rightarrow> u8 list" where
  "winner_wire m = [winner_winner_id m]"

lemmas fixed_wires = set_status_wire_def move_attempt_wire_def bomb_attempt_wire_def moved_wire_def
  bomb_wire_def explosion_start_wire_def explosion_end_wire_def death_wire_def
  bonus_available_wire_def bonus_retrieved_wire_def block_destroyed_wire_def winner_wire_def

lemma case_u16_bytes:
  "(case u16_bytes v of [] \<Rightarrow> a | x # r \<Rightarrow> g x r) = g (ucast (drop_bit 8 v)) [ucast v]"
  by (simp add: u16_bytes_def)

lemmas fixed_codec = case_u16_bytes codec_simps fixed_wires u16_join_bytes

interpretation set_status: exact_codec proto_encode_set_status_payload proto_decode_set_status_payload set_status_wire any any latest
  by unfold_locales (auto simp: proto_encode_set_status_payload_def proto_decode_set_status_payload_def fixed_codec split: if_splits)

interpretation move_attempt: exact_codec proto_encode_move_attempt_payload proto_decode_move_attempt_payload move_attempt_wire any any latest
  by unfold_locales (auto simp: proto_encode_move_attempt_payload_def proto_decode_move_attempt_payload_def fixed_codec split: if_splits)

interpretation moved: exact_codec proto_encode_moved_payload proto_decode_moved_payload moved_wire any any latest
  by unfold_locales (auto simp: proto_encode_moved_payload_def proto_decode_moved_payload_def fixed_codec split: if_splits)

interpretation bomb_attempt: exact_codec proto_encode_bomb_attempt_payload proto_decode_bomb_attempt_payload bomb_attempt_wire any any latest
  by unfold_locales (auto simp: proto_encode_bomb_attempt_payload_def proto_decode_bomb_attempt_payload_def fixed_codec split: if_splits)

interpretation bomb: exact_codec proto_encode_bomb_payload proto_decode_bomb_payload bomb_wire any any latest
  by unfold_locales (auto simp: proto_encode_bomb_payload_def proto_decode_bomb_payload_def fixed_codec split: if_splits)

interpretation explosion_start: exact_codec proto_encode_explosion_start_payload proto_decode_explosion_start_payload explosion_start_wire any any latest
  by unfold_locales (auto simp: proto_encode_explosion_start_payload_def proto_decode_explosion_start_payload_def fixed_codec split: if_splits)

interpretation explosion_end: exact_codec proto_encode_explosion_end_payload proto_decode_explosion_end_payload explosion_end_wire any any latest
  by unfold_locales (auto simp: proto_encode_explosion_end_payload_def proto_decode_explosion_end_payload_def fixed_codec split: if_splits)

interpretation death: exact_codec proto_encode_death_payload proto_decode_death_payload death_wire any any latest
  by unfold_locales (auto simp: proto_encode_death_payload_def proto_decode_death_payload_def fixed_codec split: if_splits)

interpretation bonus_available: exact_codec proto_encode_bonus_available_payload proto_decode_bonus_available_payload bonus_available_wire any any latest
  by unfold_locales (auto simp: proto_encode_bonus_available_payload_def proto_decode_bonus_available_payload_def fixed_codec split: if_splits)

interpretation bonus_retrieved: exact_codec proto_encode_bonus_retrieved_payload proto_decode_bonus_retrieved_payload bonus_retrieved_wire any any latest
  by unfold_locales (auto simp: proto_encode_bonus_retrieved_payload_def proto_decode_bonus_retrieved_payload_def fixed_codec split: if_splits)

interpretation block_destroyed: exact_codec proto_encode_block_destroyed_payload proto_decode_block_destroyed_payload block_destroyed_wire any any latest
  by unfold_locales (auto simp: proto_encode_block_destroyed_payload_def proto_decode_block_destroyed_payload_def fixed_codec split: if_splits)

interpretation winner: exact_codec proto_encode_winner_payload proto_decode_winner_payload winner_wire any any latest
  by unfold_locales (auto simp: proto_encode_winner_payload_def proto_decode_winner_payload_def fixed_codec split: if_splits)

section \<open>Header and hello\<close>

text \<open>A string field on the wire, and the array a decoder makes of it.\<close>

definition string_field :: "nat \<Rightarrow> u8 list \<Rightarrow> u8 list" where
  "string_field n s = pad_to n (c_strn n s)"

lemma length_string_field [simp]: "length (string_field n s) = n"
  by (simp add: string_field_def)

lemma c_strn_string_field [simp]: "c_strn n (string_field n s @ rest) = c_strn n s"
  by (simp add: string_field_def c_strn_pad)

lemma read_string_field:
  assumes "drop off buf = string_field n s @ r" and "length out = Suc n" and "0 < n"
  shows "read_fixed_string out buf off n = Some (string_field n s @ [0], off + n)"
  using assms by (intro read_fixed_string_step(1)) auto

definition header_wire :: "msg_header_t \<Rightarrow> u8 list" where
  "header_wire h = [h_msg_type h, h_sender_id h, h_target_id h]"

lemma proto_write_header_wire:
  "HEADER_SIZE \<le> length buffer \<Longrightarrow>
     proto_write_header h buffer = Some (header_wire h @ drop HEADER_SIZE buffer)"
  by (simp add: proto_write_header_def wire_simps written_Nil header_wire_def)
    (simp add: written_def numeral_3_eq_3)

lemma proto_read_header_wire: "proto_read_header h0 (header_wire h @ rest) = Some h"
  by (simp add: proto_read_header_def header_wire_def read_u8_drop)

definition hello_wire :: "msg_hello_t \<Rightarrow> u8 list" where
  "hello_wire m = string_field MAX_ID_LEN (hello_client_id m) @
                  string_field MAX_NAME_LEN (hello_player_name m)"

lemma length_hello_wire [simp]: "length (hello_wire m) = MAX_ID_LEN + MAX_NAME_LEN"
  by (simp add: hello_wire_def)

definition hello_shaped :: "msg_hello_t \<Rightarrow> bool" where
  "hello_shaped m \<longleftrightarrow> length (hello_client_id m) = MAX_ID_LEN + 1 \<and>
                    length (hello_player_name m) = MAX_NAME_LEN + 1"

definition hello_received :: "msg_hello_t \<Rightarrow> msg_hello_t \<Rightarrow> msg_hello_t" where
  "hello_received m0 m = \<lparr>hello_client_id = string_field MAX_ID_LEN (hello_client_id m) @ [0],
     hello_player_name = string_field MAX_NAME_LEN (hello_player_name m) @ [0]\<rparr>"

interpretation hello: codec proto_encode_hello_payload proto_decode_hello_payload hello_wire
  hello_shaped any hello_received
proof unfold_locales
  show "proto_encode_hello_payload m buffer = (if length (hello_wire m) \<le> length buffer
      then Some (written (hello_wire m) buffer) else None)" for m buffer
    by (simp add: proto_encode_hello_payload_def hello_wire_def codec_simps string_field_def)
  show "proto_decode_hello_payload m0 (hello_wire m) = Some (hello_received m0 m)"
    if "hello_shaped m0" for m0 m
    using that by (simp add: proto_decode_hello_payload_def hello_wire_def hello_shaped_def
        hello_received_def read_string_field [where r = "string_field 15 (hello_player_name m)"]
        read_string_field [where r = "[]"])
qed

section \<open>Arrays of players\<close>

text \<open>
  An element coder of fixed width \<open>k\<close>, and the two loops over the first \<open>n\<close> elements.
\<close>

locale elem_codec =
  fixes encp :: "'p \<Rightarrow> wstate \<Rightarrow> wstate option"
    and decp :: "u8 list \<Rightarrow> 'p \<Rightarrow> nat \<Rightarrow> ('p \<times> nat) option"
    and wirep :: "'p \<Rightarrow> u8 list"
    and shapedp :: "'p \<Rightarrow> bool"
    and normp :: "'p \<Rightarrow> 'p"
    and k :: nat
  assumes wirep_length: "length (wirep p) = k"
    and encp_written: "length w \<le> length buf \<Longrightarrow> encp p (written w buf) =
      (if length w + k \<le> length buf then Some (written (w @ wirep p) buf) else None)"
    and decp_wirep: "shapedp p0 \<Longrightarrow> drop off buf = wirep p @ r \<Longrightarrow>
      decp buf p0 off = Some (normp p, off + k)"
begin

lemma length_wires: "n \<le> length xs \<Longrightarrow> length (concat (map wirep (take n xs))) = n * k"
  by (simp add: length_concat o_def wirep_length sum_list_triv)

lemma take_Suc_wires:
  "n < length xs \<Longrightarrow> concat (map wirep (take (Suc n) xs)) = concat (map wirep (take n xs)) @ wirep (xs ! n)"
  by (simp add: take_Suc_conv_app_nth)

lemma encode_array:
  assumes "n \<le> length xs" and "length w \<le> length buf"
  shows "for_opt [0..<n] (\<lambda>i st. encp (xs ! i) st) (written w buf) =
    (if length w + n * k \<le> length buf then Some (written (w @ concat (map wirep (take n xs))) buf)
     else None)"
  using assms(1)
proof (induction n)
  case 0
  then show ?case using assms(2) by simp
next
  case (Suc n)
  then show ?case
    by (auto simp: for_opt_append take_Suc_wires length_wires encp_written)
qed

lemma decode_array_wires:
  assumes "n \<le> length xs" and "n \<le> length ps" and "\<And>p. p \<in> set ps \<Longrightarrow> shapedp p"
    and "drop off buf = concat (map wirep (take n xs)) @ r"
  shows "decode_array (decp buf) n ps off = Some (map normp (take n xs) @ drop n ps, off + n * k)"
  using assms(1,2,4)
proof (induction n arbitrary: r)
  case 0
  then show ?case by (simp add: decode_array_def)
next
  case (Suc n)
  let ?done = "map normp (take n xs) @ drop n ps"
  have IH: "decode_array (decp buf) n ps off = Some (?done, off + n * k)"
    using Suc.prems by (intro Suc.IH [where r = "wirep (xs ! n) @ r"]) (simp_all add: take_Suc_wires)
  have elem: "?done ! n = ps ! n" using Suc.prems by (simp add: nth_append)
  have "drop (off + n * k) buf = drop (n * k) (drop off buf)" by (simp add: add.commute)
  also have "\<dots> = wirep (xs ! n) @ r"
    using Suc.prems by (simp add: take_Suc_wires length_wires)
  finally have "decp buf (ps ! n) (off + n * k) = Some (normp (xs ! n), off + n * k + k)"
    using Suc.prems assms(3) by (intro decp_wirep) auto
  moreover have "?done[n := normp (xs ! n)] = map normp (take (Suc n) xs) @ drop (Suc n) ps"
    using Suc.prems by (simp add: list_update_append take_Suc_conv_app_nth Cons_nth_drop_Suc [symmetric])
  ultimately show ?case
    using IH elem by (simp add: decode_array_def for_opt_append)
qed

end

definition summary_wire :: "msg_player_summary_t \<Rightarrow> u8 list" where
  "summary_wire p = [ps_id p, if ps_ready p then 1 else 0] @ string_field MAX_NAME_LEN (ps_name p)"

definition summary_shaped :: "msg_player_summary_t \<Rightarrow> bool" where
  "summary_shaped p \<longleftrightarrow> length (ps_name p) = MAX_NAME_LEN + 1"

definition summary_norm :: "msg_player_summary_t \<Rightarrow> msg_player_summary_t" where
  "summary_norm p = p\<lparr>ps_name := string_field MAX_NAME_LEN (ps_name p) @ [0]\<rparr>"

interpretation summary: elem_codec encode_player_summary decode_player_summary summary_wire
  summary_shaped summary_norm 17
proof unfold_locales
  show "length (summary_wire p) = 17" for p by (simp add: summary_wire_def)
  show "encode_player_summary p (written w buf) = (if length w + 17 \<le> length buf
      then Some (written (w @ summary_wire p) buf) else None)"
    if "length w \<le> length buf" for w buf p
    using that by (auto simp: encode_player_summary_def summary_wire_def wire_simps string_field_def)
  show "decode_player_summary buf p0 off = Some (summary_norm p, off + 17)"
    if "summary_shaped p0" "drop off buf = summary_wire p @ r" for p0 off buf p r
  proof -
    note d0 = that(2) [unfolded summary_wire_def append.simps append_assoc]
    note r1 = read_u8_step [OF d0] note r2 = read_u8_step [OF r1(2)]
    have "read_fixed_string (ps_name p0) buf (off + 1 + 1) 15 =
        Some (string_field 15 (ps_name p) @ [0], off + 1 + 1 + 15)"
      using that(1) by (intro read_string_field [OF r2(2)]) (simp_all add: summary_shaped_def)
    then show ?thesis
      by (simp only: decode_player_summary_def Let_def r1(1) r2(1) bind.bind_lunit prod.case
          msg_player_summary_t.simps summary_norm_def) (cases p; cases p0; simp)
  qed
qed

definition sync_player_wire :: "msg_sync_player_t \<Rightarrow> u8 list" where
  "sync_player_wire p = [sp_id p, sp_lives p] @ u16_bytes (sp_cell_index p) @
     [if sp_alive p then 1 else 0, if sp_ready p then 1 else 0, sp_bomb_count p, sp_bomb_radius p] @
     u16_bytes (sp_bomb_timer_ticks p) @ u16_bytes (sp_speed p)"

lemma read_u16_step:
  assumes "drop n buf = u16_bytes v @ r"
  shows "read_u16_be buf n = Some (v, n + 2)" and "drop (n + 2) buf = r"
proof -
  show "read_u16_be buf n = Some (v, n + 2)"
    using assms by (simp add: read_u16_drop u16_bytes_def u16_bytes_join)
  have "drop (n + 2) buf = drop 2 (drop n buf)" by (simp add: add.commute)
  then show "drop (n + 2) buf = r" by (simp add: assms)
qed

interpretation sync_player: elem_codec encode_sync_player decode_sync_player sync_player_wire
  any id 12
proof unfold_locales
  show "length (sync_player_wire p) = 12" for p by (simp add: sync_player_wire_def)
  show "encode_sync_player p (written w buf) = (if length w + 12 \<le> length buf
      then Some (written (w @ sync_player_wire p) buf) else None)"
    if "length w \<le> length buf" for w buf p
    using that by (auto simp: encode_sync_player_def sync_player_wire_def wire_simps)
  show "decode_sync_player buf p0 off = Some (id p, off + 12)"
    if "drop off buf = sync_player_wire p @ r" for p0 off buf p r
  proof -
    note d0 = that [unfolded sync_player_wire_def append.simps append_assoc]
    note r1 = read_u8_step [OF d0] note r2 = read_u8_step [OF r1(2)]
    note r3 = read_u16_step [OF r2(2)]
    note r4 = read_u8_step [OF r3(2)] note r5 = read_u8_step [OF r4(2)]
    note r6 = read_u8_step [OF r5(2)] note r7 = read_u8_step [OF r6(2)]
    note r8 = read_u16_step [OF r7(2)] note r9 = read_u16_step [OF r8(2)]
    show ?thesis
      by (simp only: decode_sync_player_def Let_def r1(1) r2(1) r3(1) r4(1) r5(1) r6(1) r7(1) r8(1)
          r9(1) bind.bind_lunit prod.case) (cases p; cases p0; simp)
  qed
qed

section \<open>Welcome and board\<close>

definition welcome_wire :: "msg_welcome_t \<Rightarrow> u8 list" where
  "welcome_wire m = string_field MAX_ID_LEN (welcome_server_id m) @
     [welcome_game_status m, welcome_player_count m] @
     concat (map summary_wire (take (unat (welcome_player_count m)) (welcome_players m)))"

definition welcome_shaped :: "msg_welcome_t \<Rightarrow> bool" where
  "welcome_shaped m \<longleftrightarrow> length (welcome_server_id m) = MAX_ID_LEN + 1 \<and>
     length (welcome_players m) = MAX_PLAYERS \<and> (\<forall>p \<in> set (welcome_players m). summary_shaped p)"

definition welcome_valid :: "msg_welcome_t \<Rightarrow> bool" where
  "welcome_valid m \<longleftrightarrow> unat (welcome_player_count m) \<le> MAX_PLAYERS"

definition welcome_received :: "msg_welcome_t \<Rightarrow> msg_welcome_t \<Rightarrow> msg_welcome_t" where
  "welcome_received m0 m = m\<lparr>welcome_server_id := string_field MAX_ID_LEN (welcome_server_id m) @ [0],
     welcome_players :=
       map summary_norm (take (unat (welcome_player_count m)) (welcome_players m)) @
       drop (unat (welcome_player_count m)) (welcome_players m0)\<rparr>"

lemma length_welcome_wire:
  "welcome_shaped m \<Longrightarrow> welcome_valid m \<Longrightarrow>
     length (welcome_wire m) = MAX_ID_LEN + 2 + unat (welcome_player_count m) * 17"
  by (simp add: welcome_wire_def summary.length_wires welcome_shaped_def welcome_valid_def)

definition sync_board_wire :: "msg_sync_board_t \<Rightarrow> u8 list" where
  "sync_board_wire m = [sync_status m, sync_player_count m] @
     concat (map sync_player_wire (take (unat (sync_player_count m)) (sync_players m)))"

definition sync_shaped :: "msg_sync_board_t \<Rightarrow> bool" where
  "sync_shaped m \<longleftrightarrow> length (sync_players m) = MAX_PLAYERS"

definition sync_valid :: "msg_sync_board_t \<Rightarrow> bool" where
  "sync_valid m \<longleftrightarrow> unat (sync_player_count m) \<le> MAX_PLAYERS"

definition sync_received :: "msg_sync_board_t \<Rightarrow> msg_sync_board_t \<Rightarrow> msg_sync_board_t" where
  "sync_received m0 m = m\<lparr>sync_players := take (unat (sync_player_count m)) (sync_players m) @
       drop (unat (sync_player_count m)) (sync_players m0)\<rparr>"

lemma length_sync_board_wire:
  "sync_shaped m \<Longrightarrow> sync_valid m \<Longrightarrow>
     length (sync_board_wire m) = 2 + unat (sync_player_count m) * 12"
  by (simp add: sync_board_wire_def sync_player.length_wires sync_shaped_def sync_valid_def)

interpretation sync_board: codec proto_encode_sync_board_payload proto_decode_sync_board_payload
  sync_board_wire sync_shaped sync_valid sync_received
proof unfold_locales
  fix m buffer assume m: "sync_shaped m" "sync_valid m"
  let ?n = "unat (sync_player_count m)"
  have n: "?n \<le> length (sync_players m)" "?n \<le> 8"
    using m by (simp_all add: sync_shaped_def sync_valid_def)
  show "proto_encode_sync_board_payload m buffer = (if length (sync_board_wire m) \<le> length buffer
      then Some (written (sync_board_wire m) buffer) else None)"
    using n by (simp add: proto_encode_sync_board_payload_def wire_simps written_Nil
        sync_player.encode_array sync_board_wire_def sync_player.length_wires)
next
  fix m0 m assume m: "sync_shaped m0" "sync_shaped m" "sync_valid m"
  let ?n = "unat (sync_player_count m)"
  have "decode_array (decode_sync_player (sync_board_wire m)) ?n (sync_players m0) (Suc (Suc 0)) =
      Some (map id (take ?n (sync_players m)) @ drop ?n (sync_players m0), Suc (Suc 0) + ?n * 12)"
    using m by (intro sync_player.decode_array_wires [where r = "[]"])
      (simp_all add: sync_shaped_def sync_valid_def sync_board_wire_def)
  then show "proto_decode_sync_board_payload m0 (sync_board_wire m) = Some (sync_received m0 m)"
    using m length_sync_board_wire [OF m(2,3)]
    by (simp add: proto_decode_sync_board_payload_def read_u8_drop sync_valid_def sync_received_def)
      (simp add: sync_board_wire_def)
qed

interpretation welcome_msg: codec proto_encode_welcome_payload proto_decode_welcome_payload
  welcome_wire welcome_shaped welcome_valid welcome_received
proof unfold_locales
  fix m buffer assume m: "welcome_shaped m" "welcome_valid m"
  let ?n = "unat (welcome_player_count m)"
  have n: "?n \<le> length (welcome_players m)" "?n \<le> 8"
    using m by (simp_all add: welcome_shaped_def welcome_valid_def)
  show "proto_encode_welcome_payload m buffer = (if length (welcome_wire m) \<le> length buffer
      then Some (written (welcome_wire m) buffer) else None)"
    using n by (simp add: proto_encode_welcome_payload_def wire_simps written_Nil
        summary.encode_array welcome_wire_def summary.length_wires string_field_def)
next
  fix m0 m assume m: "welcome_shaped m0" "welcome_shaped m" "welcome_valid m"
  let ?n = "unat (welcome_player_count m)" and ?w = "welcome_wire m"
  let ?tail = "concat (map summary_wire (take ?n (welcome_players m)))"
  have d0: "drop 0 ?w = string_field 20 (welcome_server_id m) @
      welcome_game_status m # welcome_player_count m # ?tail"
    by (simp add: welcome_wire_def)
  have r0: "read_fixed_string (welcome_server_id m0) ?w 0 20 =
      Some (string_field 20 (welcome_server_id m) @ [0], 0 + 20)"
    using m(1) by (intro read_string_field [OF d0]) (simp_all add: welcome_shaped_def)
  have d1: "drop (0 + 20) ?w = welcome_game_status m # welcome_player_count m # ?tail"
    by (simp add: welcome_wire_def)
  note r1 = read_u8_step [OF d1] note r2 = read_u8_step [OF r1(2)]
  have arr: "decode_array (decode_player_summary ?w) ?n (welcome_players m0) (0 + 20 + 1 + 1) =
      Some (map summary_norm (take ?n (welcome_players m)) @ drop ?n (welcome_players m0),
        0 + 20 + 1 + 1 + ?n * 17)"
    using m r2(2) by (intro summary.decode_array_wires [where r = "[]"])
      (simp_all add: welcome_shaped_def welcome_valid_def)
  have len: "length ?w = 20 + 1 + 1 + ?n * (1 + 1 + 15)" and n: "?n \<le> 8"
    using length_welcome_wire [OF m(2,3)] m(3) by (simp_all add: welcome_valid_def)
  show "proto_decode_welcome_payload m0 ?w = Some (welcome_received m0 m)"
    using n len arr by (simp add: proto_decode_welcome_payload_def r0 r1(1) [simplified]
        r2(1) [simplified] welcome_received_def)
qed

section \<open>Error and map\<close>

definition error_length :: "msg_error_t \<Rightarrow> nat" where
  "error_length m = (if err_len m = 0 then strnlen (err_text m) MAX_ERROR_LEN else unat (err_len m))"

definition error_wire :: "msg_error_t \<Rightarrow> u8 list" where
  "error_wire m = u16_bytes (of_nat (error_length m)) @ take (error_length m) (err_text m)"

definition error_shaped :: "msg_error_t \<Rightarrow> bool" where
  "error_shaped m \<longleftrightarrow> length (err_text m) = MAX_ERROR_LEN + 1"

definition error_valid :: "msg_error_t \<Rightarrow> bool" where
  "error_valid m \<longleftrightarrow> error_length m \<le> MAX_ERROR_LEN"

definition error_received :: "msg_error_t \<Rightarrow> msg_error_t \<Rightarrow> msg_error_t" where
  "error_received m0 m = \<lparr>err_len = of_nat (error_length m),
     err_text = take (error_length m) (err_text m) @ 0 # drop (Suc (error_length m)) (err_text m0)\<rparr>"

interpretation error: codec proto_encode_error_payload proto_decode_error_payload error_wire
  error_shaped error_valid error_received
proof unfold_locales
  fix m buffer assume m: "error_shaped m" "error_valid m"
  let ?n = "error_length m"
  have n: "?n \<le> 255" "?n \<le> length (err_text m)" "unat (of_nat ?n :: u16) = ?n"
    using m by (simp_all add: error_shaped_def error_valid_def unat_of_nat_u16)
  have len: "(if err_len m = 0 then of_nat (strnlen (err_text m) 255) else err_len m) = of_nat ?n"
    by (simp add: error_length_def)
  show "proto_encode_error_payload m buffer = (if length (error_wire m) \<le> length buffer
      then Some (written (error_wire m) buffer) else None)"
    unfolding proto_encode_error_payload_def Let_def len
    using n by (simp add: wire_simps written_Nil error_wire_def)
      (auto simp: written_def ensure_capacity_iff blit_def min_absorb2)
next
  fix m0 m assume m: "error_shaped m0" "error_shaped m" "error_valid m"
  let ?n = "error_length m"
  have n: "?n \<le> 255" "?n \<le> length (err_text m)" "unat (of_nat ?n :: u16) = ?n"
    using m by (simp_all add: error_shaped_def error_valid_def unat_of_nat_u16)
  have "drop ?n (err_text m0) = err_text m0 ! ?n # drop (Suc ?n) (err_text m0)"
    using m(1) n(1) by (simp add: error_shaped_def Cons_nth_drop_Suc)
  then show "proto_decode_error_payload m0 (error_wire m) = Some (error_received m0 m)"
    using n by (simp add: proto_decode_error_payload_def error_wire_def read_u16_drop u16_bytes_def
        u16_bytes_join error_received_def blit_def list_update_append min_absorb2)
qed

definition map_count :: "msg_map_t \<Rightarrow> nat" where
  "map_count m = unat (mm_rows m) * unat (mm_cols m)"

definition map_wire :: "msg_map_t \<Rightarrow> u8 list" where
  "map_wire m = [mm_rows m, mm_cols m] @ take (map_count m) (mm_cells m)"

definition map_shaped :: "msg_map_t \<Rightarrow> bool" where
  "map_shaped m \<longleftrightarrow> length (mm_cells m) = MAX_MAP_CELLS"

definition map_valid :: "msg_map_t \<Rightarrow> bool" where
  "map_valid m \<longleftrightarrow> mm_rows m \<noteq> 0 \<and> mm_cols m \<noteq> 0"

definition map_received :: "msg_map_t \<Rightarrow> msg_map_t \<Rightarrow> msg_map_t" where
  "map_received m0 m = m\<lparr>mm_cell_count := of_nat (map_count m),
     mm_cells := take (map_count m) (mm_cells m) @ drop (map_count m) (mm_cells m0)\<rparr>"

text \<open>The 16-bit product of two bytes does not wrap and never exceeds \<open>MAX_MAP_CELLS\<close>.\<close>

lemma map_count_le: "map_count m \<le> MAX_MAP_CELLS"
proof -
  have "unat (mm_rows m) * unat (mm_cols m) \<le> 255 * 255"
    by (intro mult_le_mono) simp_all
  then show ?thesis by (simp add: map_count_def)
qed

lemma unat_map_expected_count: "unat (map_expected_count m) = map_count m"
proof -
  have "unat (mm_rows m) * unat (mm_cols m) < 65536"
    using map_count_le [of m] by (simp add: map_count_def)
  then show ?thesis by (simp add: map_expected_count_def map_count_def unat_word_ariths)
qed

lemma map_expected_count_0: "map_expected_count m = 0 \<longleftrightarrow> \<not> map_valid m"
proof -
  have "map_expected_count m = 0 \<longleftrightarrow> map_count m = 0"
    by (metis unat_map_expected_count unat_eq_zero)
  then show ?thesis by (auto simp: map_count_def map_valid_def unat_eq_zero)
qed

interpretation map_msg: codec proto_encode_map_payload proto_decode_map_payload map_wire
  map_shaped map_valid map_received
proof unfold_locales
  fix m buffer assume m: "map_shaped m" "map_valid m"
  let ?n = "map_count m"
  have n: "?n \<le> length (mm_cells m)" "?n \<le> 65025" "map_expected_count m \<noteq> 0"
    using m map_count_le [of m] by (simp_all add: map_shaped_def map_expected_count_0)
  show "proto_encode_map_payload m buffer = (if length (map_wire m) \<le> length buffer
      then Some (written (map_wire m) buffer) else None)"
    using n by (simp add: proto_encode_map_payload_def Let_def unat_map_expected_count wire_simps
        written_Nil map_wire_def)
      (auto simp: written_def ensure_capacity_iff blit_def min_absorb2 unat_map_expected_count)
next
  fix m0 m assume m: "map_shaped m0" "map_shaped m" "map_valid m"
  let ?n = "map_count m" and ?m1 = "m0\<lparr>mm_rows := mm_rows m, mm_cols := mm_cols m\<rparr>"
  have n: "?n \<le> length (mm_cells m)" "?n \<le> 65025" "map_expected_count m \<noteq> 0"
    using m map_count_le [of m] by (simp_all add: map_shaped_def map_expected_count_0)
  have "map_expected_count ?m1 = map_expected_count m"
    by (simp add: map_expected_count_def)
  also have "\<dots> = of_nat ?n"
    using n(2) by (simp add: word_unat_eq_iff unat_map_expected_count unat_of_nat_u16)
  finally have m1: "map_expected_count ?m1 = of_nat ?n" "of_nat ?n \<noteq> (0 :: u16)"
      "unat (of_nat ?n :: u16) = ?n"
    using n(2,3) by (simp_all add: unat_of_nat_u16 map_expected_count_def)
  show "proto_decode_map_payload m0 (map_wire m) = Some (map_received m0 m)"
    using n(1,2) m1 by (simp add: proto_decode_map_payload_def map_wire_def read_u8_drop Let_def
        blit_def map_received_def min_absorb2)
qed

section \<open>The size functions\<close>

lemma welcome_payload_size:
  "welcome_shaped m \<Longrightarrow> welcome_valid m \<Longrightarrow> proto_welcome_payload_size m = length (welcome_wire m)"
  by (simp add: proto_welcome_payload_size_def length_welcome_wire welcome_valid_def)

lemma sync_board_payload_size:
  "sync_shaped m \<Longrightarrow> sync_valid m \<Longrightarrow> proto_sync_board_payload_size m = length (sync_board_wire m)"
  by (simp add: proto_sync_board_payload_size_def length_sync_board_wire sync_valid_def)

lemma map_payload_size:
  "map_shaped m \<Longrightarrow> map_valid m \<Longrightarrow> proto_map_payload_size m = length (map_wire m)"
  using map_count_le [of m]
  by (simp add: proto_map_payload_size_def Let_def unat_map_expected_count map_expected_count_0
      map_wire_def map_shaped_def min_absorb2)

lemma size_functions_reject:
  "\<not> welcome_valid w \<Longrightarrow> proto_welcome_payload_size w = 0 \<and> proto_encode_welcome_payload w buf = None"
  "\<not> sync_valid s \<Longrightarrow> proto_sync_board_payload_size s = 0 \<and> proto_encode_sync_board_payload s buf = None"
  "\<not> map_valid m \<Longrightarrow> proto_map_payload_size m = 0 \<and> proto_encode_map_payload m buf = None"
  by (simp_all add: proto_welcome_payload_size_def proto_encode_welcome_payload_def welcome_valid_def
      proto_sync_board_payload_size_def proto_encode_sync_board_payload_def sync_valid_def
      proto_map_payload_size_def proto_encode_map_payload_def map_expected_count_0)

end
