(* ===== verification/Game_State.thy ===== *)
theory Game_State
  imports Config
begin

text \<open>
  \<open>common/include/game_state.h\<close> and \<open>common/src/game_state.c\<close>: the map, the game state and its
  operations.  The map's cell pointer is \<open>None\<close> when NULL.  An \<open>int\<close> result of \<open>0\<close> or \<open>-1\<close> that
  goes with an update of the state is \<open>Some\<close> of the new state or \<open>None\<close>; on \<open>-1\<close> the code leaves
  the state as it was.  A slot number or \<open>-1\<close> is an option too.
\<close>

record map_t =
  map_rows :: u16
  map_cols :: u16
  map_cells :: "u8 list option"

record game_state_t =
  gs_status :: game_status_t
  gs_tick :: u64
  gs_map :: map_t
  gs_players :: "player_t list"
  gs_bombs :: "bomb_t list"

section \<open>Operations\<close>

definition init_player :: "nat \<Rightarrow> player_t" where
  "init_player i = zero_player\<lparr>pl_id := of_nat (i + 1), pl_lives := 0, pl_alive := False,
     pl_ready := False, pl_bomb_count := 1, pl_bomb_radius := 1,
     pl_bomb_timer_ticks := of_nat (3 * TICKS_PER_SECOND), pl_speed := 3\<rparr>"

definition gs_init :: game_state_t where
  "gs_init = \<lparr>gs_status = GAME_LOBBY, gs_tick = 0,
     gs_map = \<lparr>map_rows = 0, map_cols = 0, map_cells = None\<rparr>,
     gs_players = map init_player [0..<MAX_PLAYERS],
     gs_bombs = replicate MAX_BOMBS zero_bomb\<rparr>"

definition gs_free :: "game_state_t \<Rightarrow> game_state_t" where
  "gs_free state = state\<lparr>gs_map := \<lparr>map_rows = 0, map_cols = 0, map_cells = None\<rparr>\<rparr>"

text \<open>\<open>calloc_ok\<close> says whether the allocation succeeds.\<close>

definition gs_resize_map :: "bool \<Rightarrow> game_state_t \<Rightarrow> u16 \<Rightarrow> u16 \<Rightarrow> game_state_t option" where
  "gs_resize_map calloc_ok state rows cols =
     (if rows = 0 \<or> cols = 0 then None
      else let count = unat rows * unat cols in
        if count > MAX_MAP_CELLS then None
        else if \<not> calloc_ok then None
        else Some (state\<lparr>gs_map := \<lparr>map_rows = rows, map_cols = cols,
                     map_cells = Some (replicate count CELL_EMPTY)\<rparr>\<rparr>))"

definition gs_in_bounds :: "game_state_t \<Rightarrow> u16 \<Rightarrow> u16 \<Rightarrow> bool" where
  "gs_in_bounds state row col \<longleftrightarrow>
     map_cells (gs_map state) \<noteq> None \<and> row < map_rows (gs_map state) \<and> col < map_cols (gs_map state)"

definition gs_cell_get :: "game_state_t \<Rightarrow> u16 \<Rightarrow> u16 \<Rightarrow> u8" where
  "gs_cell_get state row col =
     (if \<not> gs_in_bounds state row col then CELL_HARD
      else the (map_cells (gs_map state)) ! unat (make_cell_index row col (map_cols (gs_map state))))"

definition gs_cell_set :: "game_state_t \<Rightarrow> u16 \<Rightarrow> u16 \<Rightarrow> u8 \<Rightarrow> game_state_t option" where
  "gs_cell_set state row col value =
     (if \<not> gs_in_bounds state row col then None
      else Some (state\<lparr>gs_map := (gs_map state)\<lparr>map_cells :=
        Some ((the (map_cells (gs_map state)))
          [unat (make_cell_index row col (map_cols (gs_map state))) := value])\<rparr>\<rparr>))"

definition is_bonus_cell :: "u8 \<Rightarrow> bool" where
  "is_bonus_cell cell \<longleftrightarrow>
     cell = CELL_BONUS_SPEED \<or> cell = CELL_BONUS_RADIUS \<or> cell = CELL_BONUS_TIMER"

definition gs_cell_is_walkable :: "game_state_t \<Rightarrow> u16 \<Rightarrow> u16 \<Rightarrow> bool" where
  "gs_cell_is_walkable state row col =
     (let cell = gs_cell_get state row col in cell = CELL_EMPTY \<or> is_bonus_cell cell)"

definition gs_find_player_slot_by_id :: "game_state_t \<Rightarrow> u8 \<Rightarrow> nat option" where
  "gs_find_player_slot_by_id state player_id =
     first_index MAX_PLAYERS (\<lambda>i. pl_id (gs_players state ! i) = player_id)"

definition gs_count_alive_players :: "game_state_t \<Rightarrow> nat" where
  "gs_count_alive_players state =
     for_range MAX_PLAYERS (\<lambda>i alive. if pl_alive (gs_players state ! i) then alive + 1 else alive) 0"

definition gs_has_alive_player_at :: "game_state_t \<Rightarrow> u16 \<Rightarrow> u16 \<Rightarrow> bool" where
  "gs_has_alive_player_at state row col \<longleftrightarrow>
     first_index MAX_PLAYERS (\<lambda>i. let p = gs_players state ! i in
       pl_alive p \<and> pl_row p = row \<and> pl_col p = col) \<noteq> None"

definition gs_add_bomb :: "game_state_t \<Rightarrow> bomb_t \<Rightarrow> (nat \<times> game_state_t) option" where
  "gs_add_bomb state bomb =
     (case first_index MAX_BOMBS (\<lambda>i. bm_owner_id (gs_bombs state ! i) = 0) of
        Some i \<Rightarrow> Some (i, state\<lparr>gs_bombs := (gs_bombs state)[i := bomb]\<rparr>)
      | None \<Rightarrow> None)"

definition gs_clear_bomb :: "game_state_t \<Rightarrow> nat \<Rightarrow> game_state_t" where
  "gs_clear_bomb state bomb_index =
     (if bomb_index \<ge> MAX_BOMBS then state
      else state\<lparr>gs_bombs := (gs_bombs state)[bomb_index := zero_bomb]\<rparr>)"

section \<open>Well-formed maps\<close>

text \<open>
  \<open>wf_map\<close> is what \<open>gs_resize_map\<close> establishes and every later operation relies on: the cell
  array holds exactly \<open>rows * cols\<close> cells, of which there are at most \<open>MAX_MAP_CELLS\<close>.
\<close>

definition wf_map :: "map_t \<Rightarrow> bool" where
  "wf_map m \<longleftrightarrow> (\<exists>cs. map_cells m = Some cs \<and> length cs = unat (map_rows m) * unat (map_cols m)) \<and>
     0 < map_rows m \<and> 0 < map_cols m \<and> unat (map_rows m) * unat (map_cols m) \<le> MAX_MAP_CELLS"

text \<open>The same shape and the same cells except where \<open>P\<close> holds: how updates are framed.\<close>

definition same_dims :: "map_t \<Rightarrow> map_t \<Rightarrow> bool" where
  "same_dims m m' \<longleftrightarrow> map_rows m' = map_rows m \<and> map_cols m' = map_cols m"

lemma gs_resize_map_wf:
  assumes "gs_resize_map ok st rows cols = Some st'"
  shows "wf_map (gs_map st')" and "map_rows (gs_map st') = rows" and "map_cols (gs_map st') = cols"
    and "gs_players st' = gs_players st" and "gs_bombs st' = gs_bombs st"
    and "gs_status st' = gs_status st"
  using assms by (auto simp: gs_resize_map_def wf_map_def Let_def word_neq_0_conv split: if_splits)

lemma in_bounds_index:
  assumes "wf_map (gs_map st)" and "gs_in_bounds st row col"
  shows "unat (make_cell_index row col (map_cols (gs_map st))) < length (the (map_cells (gs_map st)))"
  using assms make_cell_index_less [of row "map_rows (gs_map st)" col "map_cols (gs_map st)"]
  by (auto simp: wf_map_def gs_in_bounds_def)

lemma wf_in_bounds:
  "wf_map (gs_map st) \<Longrightarrow>
     gs_in_bounds st row col \<longleftrightarrow> row < map_rows (gs_map st) \<and> col < map_cols (gs_map st)"
  by (auto simp: gs_in_bounds_def wf_map_def)

lemma gs_cell_set_Some:
  "gs_in_bounds st row col \<Longrightarrow> \<exists>st'. gs_cell_set st row col v = Some st'"
  by (simp add: gs_cell_set_def)

lemma gs_cell_set_frame:
  assumes "gs_cell_set st row col v = Some st'"
  shows "gs_players st' = gs_players st" and "gs_bombs st' = gs_bombs st"
    and "gs_status st' = gs_status st" and "gs_tick st' = gs_tick st"
    and "map_rows (gs_map st') = map_rows (gs_map st)"
    and "map_cols (gs_map st') = map_cols (gs_map st)"
    and "gs_in_bounds st' r c = gs_in_bounds st r c"
  using assms by (auto simp: gs_cell_set_def gs_in_bounds_def split: if_splits)

lemma gs_cell_set_wf:
  assumes "wf_map (gs_map st)" and "gs_cell_set st row col v = Some st'"
  shows "wf_map (gs_map st')"
  using assms by (auto simp: gs_cell_set_def wf_map_def split: if_splits)

lemma gs_cell_get_set:
  assumes wf: "wf_map (gs_map st)" and set: "gs_cell_set st row col v = Some st'"
  shows "gs_cell_get st' r c = (if r = row \<and> c = col then v else gs_cell_get st r c)"
proof -
  have inb: "gs_in_bounds st row col"
    using set by (auto simp: gs_cell_set_def split: if_splits)
  show ?thesis
  proof (cases "gs_in_bounds st r c")
    case False
    then have "\<not> gs_in_bounds st' r c" by (simp add: gs_cell_set_frame(7) [OF set])
    with False inb show ?thesis by (auto simp: gs_cell_get_def)
  next
    case True
    let ?cols = "map_cols (gs_map st)" and ?cs = "the (map_cells (gs_map st))"
    have "make_cell_index r c ?cols = make_cell_index row col ?cols \<longleftrightarrow> r = row \<and> c = col"
      using True inb wf by (metis gs_in_bounds_def make_cell_index_inj wf_map_def)
    then have same: "unat (make_cell_index row col ?cols) = unat (make_cell_index r c ?cols)
        \<longleftrightarrow> r = row \<and> c = col"
      by (metis word_unat_eq_iff)
    have "gs_cell_get st' r c =
        ?cs[unat (make_cell_index row col ?cols) := v] ! unat (make_cell_index r c ?cols)"
      using set inb True gs_cell_set_frame(7) [OF set, of r c]
      by (simp add: gs_cell_get_def gs_cell_set_def) (metis (no_types, lifting)
          game_state_t.select_convs(3) game_state_t.surjective game_state_t.update_convs(3)
          map_t.select_convs(2,3) map_t.surjective map_t.update_convs(3) option.sel)
    also have "\<dots> = (if r = row \<and> c = col then v else gs_cell_get st r c)"
      using same True
      by (auto simp: gs_cell_get_def nth_update_cases [OF in_bounds_index [OF wf True]])
    finally show ?thesis .
  qed
qed

end
