(* ===== verification/Server_State.thy ===== *)
theory Server_State
  imports Codec Game_State
begin

text \<open>
  \<open>server/server.h\<close>, the operations of \<open>server/server.c\<close> that are not about sockets, and the two
  broadcast routines of \<open>server/client_handler.c\<close> that other parts call.

  A server system is the context of \<open>server.h\<close> and its environment.  The environment records every
  message handed to \<open>sock_send_message\<close>, with the descriptor it goes to; no caller in the server
  looks at the result of a send.  It also holds the values that \<open>rand\<close> and the success of
  \<open>malloc\<close> will take, each consumed in order.  A pointer to a client or a player is its index in
  the table.  Output to \<open>stdout\<close> and \<open>stderr\<close> is left out.
\<close>

section \<open>State\<close>

record server_client_t =
  cl_fd :: int
  cl_active :: bool
  cl_id :: u8
  cl_client_id :: "u8 list"
  cl_name :: "u8 list"
  cl_last_seen_tick :: u64

record explosion_t =
  ex_active :: bool
  ex_cell_index :: u16
  ex_remaining_ticks :: u16

record server_ctx_t =
  listen_fd :: int
  port :: u16
  running :: bool
  state :: game_state_t
  clients :: "server_client_t list"
  default_speed :: u16
  default_bomb_radius :: u8
  default_bomb_timer_ticks :: u16
  explosion_duration_ticks :: u16
  spawn_defined :: "bool list"
  spawn_rows :: "u16 list"
  spawn_cols :: "u16 list"
  explosions :: "explosion_t list"
  initial_cells :: "u8 list"
  initial_cell_count :: u16
  server_id :: "u8 list"

record packet =
  pk_fd :: int
  pk_type :: u8
  pk_sender :: u8
  pk_target :: u8
  pk_payload :: "u8 list"

record environment =
  env_sent :: "packet list"
  env_rand :: "nat \<Rightarrow> nat"
  env_rand_pos :: nat
  env_malloc :: "nat \<Rightarrow> bool"
  env_malloc_pos :: nat

record server_sys =
  ctx :: server_ctx_t
  env :: environment

abbreviation players :: "server_ctx_t \<Rightarrow> player_t list" where
  "players c \<equiv> gs_players (state c)"

abbreviation bombs :: "server_ctx_t \<Rightarrow> bomb_t list" where
  "bombs c \<equiv> gs_bombs (state c)"

abbreviation game_map :: "server_ctx_t \<Rightarrow> map_t" where
  "game_map c \<equiv> gs_map (state c)"

text \<open>Updates of one part of the system.\<close>

definition upd_ctx :: "(server_ctx_t \<Rightarrow> server_ctx_t) \<Rightarrow> server_sys \<Rightarrow> server_sys" where
  "upd_ctx f s = s\<lparr>ctx := f (ctx s)\<rparr>"

definition upd_state :: "(game_state_t \<Rightarrow> game_state_t) \<Rightarrow> server_ctx_t \<Rightarrow> server_ctx_t" where
  "upd_state f c = c\<lparr>state := f (state c)\<rparr>"

definition upd_player :: "nat \<Rightarrow> (player_t \<Rightarrow> player_t) \<Rightarrow> server_ctx_t \<Rightarrow> server_ctx_t" where
  "upd_player i f c = upd_state (\<lambda>st. st\<lparr>gs_players := (gs_players st)[i := f (gs_players st ! i)]\<rparr>) c"

definition upd_client :: "nat \<Rightarrow> (server_client_t \<Rightarrow> server_client_t) \<Rightarrow> server_ctx_t \<Rightarrow> server_ctx_t" where
  "upd_client i f c = c\<lparr>clients := (clients c)[i := f (clients c ! i)]\<rparr>"

lemma ctx_upd_ctx [simp]: "ctx (upd_ctx f s) = f (ctx s)" "env (upd_ctx f s) = env s"
  by (simp_all add: upd_ctx_def)

section \<open>Environment\<close>

definition c_rand :: "server_sys \<Rightarrow> nat \<times> server_sys" where
  "c_rand s = (env_rand (env s) (env_rand_pos (env s)),
               s\<lparr>env := (env s)\<lparr>env_rand_pos := env_rand_pos (env s) + 1\<rparr>\<rparr>)"

definition c_malloc :: "server_sys \<Rightarrow> bool \<times> server_sys" where
  "c_malloc s = (env_malloc (env s) (env_malloc_pos (env s)),
                 s\<lparr>env := (env s)\<lparr>env_malloc_pos := env_malloc_pos (env s) + 1\<rparr>\<rparr>)"

definition sock_send :: "int \<Rightarrow> u8 \<Rightarrow> u8 \<Rightarrow> u8 \<Rightarrow> u8 list \<Rightarrow> server_sys \<Rightarrow> server_sys" where
  "sock_send fd msg_type sender_id target_id payload s =
     s\<lparr>env := (env s)\<lparr>env_sent := env_sent (env s) @
       [\<lparr>pk_fd = fd, pk_type = msg_type, pk_sender = sender_id, pk_target = target_id,
         pk_payload = payload\<rparr>]\<rparr>\<rparr>"

section \<open>Sending\<close>

definition server_send_to_client ::
  "nat \<Rightarrow> u8 \<Rightarrow> u8 \<Rightarrow> u8 \<Rightarrow> u8 list \<Rightarrow> server_sys \<Rightarrow> server_sys" where
  "server_send_to_client client msg_type sender_id target_id payload s =
     (if \<not> cl_active (clients (ctx s) ! client) then s
      else sock_send (cl_fd (clients (ctx s) ! client)) msg_type sender_id target_id payload s)"

definition server_broadcast :: "u8 \<Rightarrow> u8 \<Rightarrow> u8 list \<Rightarrow> int \<Rightarrow> server_sys \<Rightarrow> server_sys" where
  "server_broadcast msg_type sender_id payload except_fd s =
     for_range MAX_PLAYERS (\<lambda>i s.
       if \<not> cl_active (clients (ctx s) ! i) \<or> cl_fd (clients (ctx s) ! i) = except_fd then s
       else server_send_to_client i msg_type sender_id BROADCAST_ENDPOINT_ID payload s) s"

text \<open>\<open>if (encode (\<dots>) == 0) { server_broadcast (\<dots>); }\<close>\<close>

definition broadcast_encoded :: "u8 \<Rightarrow> u8 \<Rightarrow> u8 list option \<Rightarrow> int \<Rightarrow> server_sys \<Rightarrow> server_sys" where
  "broadcast_encoded msg_type sender_id payload except_fd s =
     (case payload of Some bytes \<Rightarrow> server_broadcast msg_type sender_id bytes except_fd s | None \<Rightarrow> s)"

section \<open>Queries\<close>

definition server_client_by_id :: "server_ctx_t \<Rightarrow> u8 \<Rightarrow> nat option" where
  "server_client_by_id c client_id =
     first_index MAX_PLAYERS (\<lambda>i. cl_active (clients c ! i) \<and> cl_id (clients c ! i) = client_id)"

definition server_active_client_count :: "server_ctx_t \<Rightarrow> nat" where
  "server_active_client_count c =
     for_range MAX_PLAYERS (\<lambda>i count. if cl_active (clients c ! i) then count + 1 else count) 0"

definition server_ready_client_count :: "server_ctx_t \<Rightarrow> nat" where
  "server_ready_client_count c =
     for_range MAX_PLAYERS (\<lambda>i count.
       if cl_active (clients c ! i) \<and> pl_ready (players c ! i) then count + 1 else count) 0"

definition server_cell_blocked :: "server_ctx_t \<Rightarrow> u16 \<Rightarrow> u16 \<Rightarrow> bool" where
  "server_cell_blocked c row col =
     (if \<not> gs_in_bounds (state c) row col then True
      else if \<not> gs_cell_is_walkable (state c) row col then True
      else first_index MAX_BOMBS (\<lambda>i. bm_owner_id (bombs c ! i) \<noteq> 0 \<and>
             bm_row (bombs c ! i) = row \<and> bm_col (bombs c ! i) = col) \<noteq> None)"

definition find_free_client_slot :: "server_ctx_t \<Rightarrow> nat option" where
  "find_free_client_slot c = first_index MAX_PLAYERS (\<lambda>i. \<not> cl_active (clients c ! i))"

definition map_has_player_at :: "server_ctx_t \<Rightarrow> u16 \<Rightarrow> u16 \<Rightarrow> bool" where
  "map_has_player_at c row col \<longleftrightarrow>
     first_index MAX_PLAYERS (\<lambda>i. cl_active (clients c ! i) \<and>
       pl_row (players c ! i) = row \<and> pl_col (players c ! i) = col) \<noteq> None"

definition occupied_by_other_player :: "server_ctx_t \<Rightarrow> u8 \<Rightarrow> u16 \<Rightarrow> u16 \<Rightarrow> bool" where
  "occupied_by_other_player c self_id row col \<longleftrightarrow>
     first_index MAX_PLAYERS (\<lambda>i. let p = players c ! i in
       \<not> (\<not> cl_active (clients c ! i) \<or> \<not> pl_alive p \<or> pl_id p = self_id) \<and>
       pl_row p = row \<and> pl_col p = col) \<noteq> None"

section \<open>Status and rounds\<close>

definition server_transition_status :: "game_status_t \<Rightarrow> server_sys \<Rightarrow> server_sys" where
  "server_transition_status status s =
     (if gs_status (state (ctx s)) = status then s
      else let s = upd_ctx (upd_state (\<lambda>st. st\<lparr>gs_status := status\<rparr>)) s in
        broadcast_encoded (msg_code MSG_SET_STATUS) SERVER_ENDPOINT_ID
          (payload_of proto_encode_set_status_payload 8 \<lparr>set_status_status = ucast status\<rparr>) (-1) s)"

text \<open>The part of a player that a new round and a new connection reset alike.\<close>

definition reset_player :: "server_ctx_t \<Rightarrow> player_t \<Rightarrow> player_t" where
  "reset_player c p = p\<lparr>pl_ready := False, pl_alive := False, pl_lives := 0, pl_bomb_count := 1,
     pl_bomb_radius := default_bomb_radius c, pl_bomb_timer_ticks := default_bomb_timer_ticks c,
     pl_speed := default_speed c\<rparr>"

definition zero_explosion :: explosion_t where
  "zero_explosion = \<lparr>ex_active = False, ex_cell_index = 0, ex_remaining_ticks = 0\<rparr>"

definition server_reset_round :: "server_ctx_t \<Rightarrow> server_ctx_t" where
  "server_reset_round c =
     (let c = (if unat (initial_cell_count c) > 0
               then upd_state (\<lambda>st. st\<lparr>gs_map := (gs_map st)\<lparr>map_cells := map_option
                      (blit 0 (take (unat (initial_cell_count c)) (initial_cells c)))
                      (map_cells (gs_map st))\<rparr>\<rparr>) c
               else c);
          c = upd_state (\<lambda>st. for_range MAX_BOMBS (\<lambda>i st. gs_clear_bomb st i) st) c;
          c = for_range MAX_BOMBS (\<lambda>i c. c\<lparr>explosions := (explosions c)[i := zero_explosion]\<rparr>) c
      in for_range MAX_PLAYERS (\<lambda>i c.
           let c = upd_player i (reset_player c) c in
           if spawn_defined c ! i
           then upd_player i (\<lambda>p. p\<lparr>pl_row := spawn_rows c ! i, pl_col := spawn_cols c ! i\<rparr>) c
           else c) c)"

section \<open>Connections\<close>

text \<open>\<open>(size_t)(client->id - 1)\<close>, for the ids \<open>1, 2, \<dots>\<close> that active clients have.\<close>

definition slot_of :: "server_client_t \<Rightarrow> nat" where
  "slot_of cl = unat (cl_id cl) - 1"

definition server_disconnect_client :: "nat \<Rightarrow> bool \<Rightarrow> server_sys \<Rightarrow> server_sys" where
  "server_disconnect_client client notify s =
     (let cl = clients (ctx s) ! client in
      if \<not> cl_active cl then s
      else let slot = slot_of cl;
               s = (if notify
                    then server_broadcast (msg_code MSG_LEAVE) (cl_id cl) [] (cl_fd cl) s else s);
               s = upd_ctx (upd_client client (\<lambda>cl. cl\<lparr>cl_fd := -1, cl_active := False,
                     cl_client_id := (cl_client_id cl)[0 := 0], cl_name := (cl_name cl)[0 := 0]\<rparr>)) s
           in upd_ctx (upd_player slot (\<lambda>p. p\<lparr>pl_alive := False, pl_ready := False, pl_lives := 0\<rparr>)) s)"

text \<open>
  The scan of \<open>assign_spawn\<close>, row by row: the first walkable cell without a player, \<open>(0, 0)\<close>
  if there is none.
\<close>

definition first_free_cell :: "server_ctx_t \<Rightarrow> u16 \<times> u16" where
  "first_free_cell c =
     (let rows = unat (map_rows (game_map c)); cols = unat (map_cols (game_map c)) in
      case find (\<lambda>(r, k). gs_cell_is_walkable (state c) r k \<and> \<not> map_has_player_at c r k)
             [(of_nat r, of_nat k). r \<leftarrow> [0..<rows], k \<leftarrow> [0..<cols]] of
        Some (r, k) \<Rightarrow> (r, k)
      | None \<Rightarrow> (0, 0))"

definition assign_spawn :: "nat \<Rightarrow> server_ctx_t \<Rightarrow> server_ctx_t" where
  "assign_spawn slot c =
     (if spawn_defined c ! slot
      then upd_player slot (\<lambda>p. p\<lparr>pl_row := spawn_rows c ! slot, pl_col := spawn_cols c ! slot\<rparr>) c
      else upd_player slot (\<lambda>p. p\<lparr>pl_row := fst (first_free_cell c), pl_col := snd (first_free_cell c)\<rparr>) c)"

text \<open>
  \<open>accept_connection\<close>; \<open>accepted\<close> is the descriptor that \<open>accept\<close> returned, negative on failure.
\<close>

definition zero_client :: server_client_t where
  "zero_client = \<lparr>cl_fd = 0, cl_active = False, cl_id = 0,
     cl_client_id = replicate (MAX_ID_LEN + 1) 0, cl_name = replicate (MAX_NAME_LEN + 1) 0,
     cl_last_seen_tick = 0\<rparr>"

definition accept_connection :: "int \<Rightarrow> server_sys \<Rightarrow> server_sys" where
  "accept_connection accepted s =
     (if accepted < 0 then s
      else case find_free_client_slot (ctx s) of
        None \<Rightarrow> sock_send accepted (msg_code MSG_DISCONNECT) SERVER_ENDPOINT_ID SERVER_ENDPOINT_ID [] s
      | Some slot \<Rightarrow>
          let s = upd_ctx (upd_client slot (\<lambda>_. zero_client\<lparr>cl_fd := accepted, cl_active := True,
                    cl_id := of_nat (slot + 1)\<rparr>)) s;
              s = upd_ctx (upd_player slot (\<lambda>p. (reset_player (ctx s) p)\<lparr>pl_id := of_nat (slot + 1)\<rparr>)) s
          in upd_ctx (assign_spawn slot) s)"

definition server_init_context :: "u16 \<Rightarrow> server_ctx_t" where
  "server_init_context prt =
     \<lparr>listen_fd = 0, port = prt, running = True, state = gs_init,
      clients = replicate MAX_PLAYERS zero_client, default_speed = 3, default_bomb_radius = 1,
      default_bomb_timer_ticks = of_nat (3 * TICKS_PER_SECOND), explosion_duration_ticks = 3,
      spawn_defined = replicate MAX_PLAYERS False, spawn_rows = replicate MAX_PLAYERS 0,
      spawn_cols = replicate MAX_PLAYERS 0, explosions = replicate MAX_BOMBS zero_explosion,
      initial_cells = replicate MAX_MAP_CELLS 0, initial_cell_count = 0,
      server_id = strncpy (replicate (MAX_ID_LEN + 1) 0)
        (map (of_nat \<circ> of_char) ''bomberman-server/1.0'') MAX_ID_LEN\<rparr>"

section \<open>Map and board messages\<close>

definition map_message :: "server_ctx_t \<Rightarrow> msg_map_t" where
  "map_message c =
     (let rows = ucast (map_rows (game_map c)); cols = ucast (map_cols (game_map c));
          cell_count = ucast rows * ucast cols
      in \<lparr>mm_rows = rows, mm_cols = cols, mm_cell_count = cell_count,
          mm_cells = blit 0 (take (unat cell_count) (the (map_cells (game_map c))))
                       (replicate MAX_MAP_CELLS 0)\<rparr>)"

definition server_send_map_to_client :: "nat \<Rightarrow> server_sys \<Rightarrow> server_sys" where
  "server_send_map_to_client client s =
     (let map_msg = map_message (ctx s); (ok, s) = c_malloc s in
      if \<not> ok then s
      else case payload_of proto_encode_map_payload (2 + unat (mm_cell_count map_msg)) map_msg of
        Some payload \<Rightarrow> server_send_to_client client (msg_code MSG_MAP) SERVER_ENDPOINT_ID
                          (cl_id (clients (ctx s) ! client)) payload s
      | None \<Rightarrow> s)"

definition zero_sync_player :: msg_sync_player_t where
  "zero_sync_player = \<lparr>sp_id = 0, sp_lives = 0, sp_cell_index = 0, sp_alive = False, sp_ready = False,
     sp_bomb_count = 0, sp_bomb_radius = 0, sp_bomb_timer_ticks = 0, sp_speed = 0\<rparr>"

definition sync_player_of :: "u16 \<Rightarrow> player_t \<Rightarrow> msg_sync_player_t" where
  "sync_player_of cols p = \<lparr>sp_id = pl_id p, sp_lives = pl_lives p,
     sp_cell_index = make_cell_index (pl_row p) (pl_col p) cols,
     sp_alive = pl_alive p, sp_ready = pl_ready p, sp_bomb_count = pl_bomb_count p,
     sp_bomb_radius = pl_bomb_radius p, sp_bomb_timer_ticks = pl_bomb_timer_ticks p,
     sp_speed = pl_speed p\<rparr>"

definition sync_message :: "server_ctx_t \<Rightarrow> msg_sync_board_t" where
  "sync_message c =
     for_range MAX_PLAYERS (\<lambda>i sync.
       if \<not> cl_active (clients c ! i) then sync
       else sync\<lparr>sync_players := (sync_players sync)[unat (sync_player_count sync) :=
                    sync_player_of (map_cols (game_map c)) (players c ! i)],
                 sync_player_count := sync_player_count sync + 1\<rparr>)
       \<lparr>sync_status = ucast (gs_status (state c)), sync_player_count = 0,
        sync_players = replicate MAX_PLAYERS zero_sync_player\<rparr>"

definition server_send_sync_to_all :: "server_sys \<Rightarrow> server_sys" where
  "server_send_sync_to_all s =
     (case payload_of proto_encode_sync_board_payload 128 (sync_message (ctx s)) of
        None \<Rightarrow> s
      | Some payload \<Rightarrow>
          for_range MAX_PLAYERS (\<lambda>i s.
            if \<not> cl_active (clients (ctx s) ! i) then s
            else server_send_to_client i (msg_code MSG_SYNC_BOARD) SERVER_ENDPOINT_ID
                   (cl_id (clients (ctx s) ! i)) payload s) s)"

end
