(* ===== verification/Server_Inv.thy ===== *)
theory Server_Inv
  imports Server_State
begin

text \<open>
  The contracts the server's parts share: operations that only talk to clients, the closed forms
  of the sending loops, and the invariant of the server context.
\<close>

section \<open>Operations that only touch the environment\<close>

locale quiet_op =
  fixes f :: "server_sys \<Rightarrow> server_sys"
  assumes ctx_f: "ctx (f s) = ctx s"
    and log_f: "\<exists>ps. env_sent (env (f s)) = env_sent (env s) @ ps"
begin

lemma quiet_iter: "ctx ((f ^^ n) s) = ctx s"
  by (induction n) (simp_all add: ctx_f)

lemma quiet_prop: "P (ctx (f s)) \<longleftrightarrow> P (ctx s)"
  by (simp add: ctx_f)

lemma log_grows: "length (env_sent (env s)) \<le> length (env_sent (env (f s)))"
  using log_f [of s] by auto

end

text \<open>A loop over quiet operations is quiet.\<close>

lemma for_range_quiet:
  assumes "\<And>i s. ctx (body i s) = ctx s \<and> (\<exists>ps. env_sent (env (body i s)) = env_sent (env s) @ ps)"
  shows "ctx (for_range n body s) = ctx s \<and>
         (\<exists>ps. env_sent (env (for_range n body s)) = env_sent (env s) @ ps)"
proof (induction n)
  case (Suc n)
  then show ?case using assms [of n "for_range n body s"] by auto
qed simp

lemma sock_send_quiet: "ctx (sock_send fd t sid tgt p s) = ctx s"
  "env_sent (env (sock_send fd t sid tgt p s)) = env_sent (env s) @
     [\<lparr>pk_fd = fd, pk_type = t, pk_sender = sid, pk_target = tgt, pk_payload = p\<rparr>]"
  by (simp_all add: sock_send_def)

interpretation send_to_client: quiet_op "server_send_to_client i t sid tgt p" for i t sid tgt p
  by unfold_locales (simp_all add: server_send_to_client_def sock_send_quiet)

interpretation broadcast: quiet_op "server_broadcast t sid p except" for t sid p except
proof unfold_locales
  fix s
  have "ctx (server_broadcast t sid p except s) = ctx s \<and>
      (\<exists>ps. env_sent (env (server_broadcast t sid p except s)) = env_sent (env s) @ ps)"
    unfolding server_broadcast_def
    by (rule for_range_quiet) (simp add: send_to_client.ctx_f send_to_client.log_f)
  then show "ctx (server_broadcast t sid p except s) = ctx s"
    and "\<exists>ps. env_sent (env (server_broadcast t sid p except s)) = env_sent (env s) @ ps"
    by auto
qed

interpretation broadcast_enc: quiet_op "broadcast_encoded t sid p except" for t sid p except
  by unfold_locales (simp_all add: broadcast_encoded_def broadcast.ctx_f broadcast.log_f split: option.split)

interpretation send_map: quiet_op "server_send_map_to_client i" for i
  by unfold_locales (simp_all add: server_send_map_to_client_def c_malloc_def Let_def
      send_to_client.ctx_f server_send_to_client_def sock_send_def split: option.split)

interpretation send_sync: quiet_op server_send_sync_to_all
proof unfold_locales
  fix s
  have "ctx (for_range 8 (\<lambda>i s. if \<not> cl_active (clients (ctx s) ! i) then s
        else server_send_to_client i t a (cl_id (clients (ctx s) ! i)) p s) s) = ctx s \<and>
      (\<exists>ps. env_sent (env (for_range 8 (\<lambda>i s. if \<not> cl_active (clients (ctx s) ! i) then s
        else server_send_to_client i t a (cl_id (clients (ctx s) ! i)) p s) s)) = env_sent (env s) @ ps)"
    for t a p
    by (rule for_range_quiet) (simp add: send_to_client.ctx_f send_to_client.log_f)
  then show "ctx (server_send_sync_to_all s) = ctx s"
    and "\<exists>ps. env_sent (env (server_send_sync_to_all s)) = env_sent (env s) @ ps"
    by (auto simp: server_send_sync_to_all_def split: option.split)
qed

lemmas quiet_ctx [env_simps, simp] = sock_send_quiet(1) send_to_client.ctx_f broadcast.ctx_f
  broadcast_enc.ctx_f send_map.ctx_f send_sync.ctx_f

lemma c_rand_ctx [simp]: "ctx (snd (c_rand s)) = ctx s" and c_malloc_ctx [simp]: "ctx (snd (c_malloc s)) = ctx s"
  by (simp_all add: c_rand_def c_malloc_def)

section \<open>What the sending loops put on the wire\<close>

definition packet_to :: "server_client_t \<Rightarrow> u8 \<Rightarrow> u8 \<Rightarrow> u8 \<Rightarrow> u8 list \<Rightarrow> packet" where
  "packet_to cl t sid tgt p = \<lparr>pk_fd = cl_fd cl, pk_type = t, pk_sender = sid, pk_target = tgt, pk_payload = p\<rparr>"

text \<open>\<open>emit ps\<close> appends to the log and does nothing else.\<close>

definition emit :: "packet list \<Rightarrow> server_sys \<Rightarrow> server_sys" where
  "emit ps s = s\<lparr>env := (env s)\<lparr>env_sent := env_sent (env s) @ ps\<rparr>\<rparr>"

lemma emit_Nil [simp]: "emit [] s = s"
  by (simp add: emit_def)

lemma emit_emit [simp]: "emit qs (emit ps s) = emit (ps @ qs) s"
  by (simp add: emit_def)

lemma ctx_emit [simp]: "ctx (emit ps s) = ctx s"
  by (simp add: emit_def)

lemma sent_emit [simp]: "env_sent (env (emit ps s)) = env_sent (env s) @ ps"
  by (simp add: emit_def)

lemma send_to_client_emit: "server_send_to_client i t sid tgt p s =
    (if cl_active (clients (ctx s) ! i) then emit [packet_to (clients (ctx s) ! i) t sid tgt p] s else s)"
  by (simp add: server_send_to_client_def sock_send_def emit_def packet_to_def)

lemma for_range_emit:
  assumes "\<And>i s. ctx s = c \<Longrightarrow> body i s = emit (ps i) s" and "ctx s = c"
  shows "for_range n body s = emit (concat (map ps [0..<n])) s"
  by (induction n) (simp_all add: assms)

lemma concat_map_if:
  "concat (map (\<lambda>i. if P i then [f i] else []) xs) = map f (filter P xs)"
  by (induction xs) simp_all

definition active_slots :: "server_ctx_t \<Rightarrow> nat list" where
  "active_slots c = filter (\<lambda>i. cl_active (clients c ! i)) [0..<MAX_PLAYERS]"

lemma server_broadcast_emit:
  "server_broadcast t sid p except s =
     emit (map (\<lambda>i. packet_to (clients (ctx s) ! i) t sid BROADCAST_ENDPOINT_ID p)
       (filter (\<lambda>i. cl_fd (clients (ctx s) ! i) \<noteq> except) (active_slots (ctx s)))) s"
proof -
  let ?cl = "\<lambda>i. clients (ctx s) ! i"
  have "server_broadcast t sid p except s = emit (concat (map (\<lambda>i.
      if cl_active (?cl i) \<and> cl_fd (?cl i) \<noteq> except then [packet_to (?cl i) t sid 254 p] else []) [0..<8])) s"
    unfolding server_broadcast_def
    by (rule for_range_emit [where c = "ctx s"]) (auto simp: send_to_client_emit)
  then show ?thesis
    by (simp add: concat_map_if active_slots_def filter_filter conj_commute)
qed

section \<open>The invariant of the server context\<close>

definition in_map :: "server_ctx_t \<Rightarrow> u16 \<Rightarrow> u16 \<Rightarrow> bool" where
  "in_map c row col \<longleftrightarrow> row < map_rows (game_map c) \<and> col < map_cols (game_map c)"

text \<open>Every array has its declared length.\<close>

definition arrays_ok :: "server_ctx_t \<Rightarrow> bool" where
  "arrays_ok c \<longleftrightarrow> length (players c) = MAX_PLAYERS \<and> length (bombs c) = MAX_BOMBS \<and>
     length (clients c) = MAX_PLAYERS \<and> length (explosions c) = MAX_BOMBS \<and>
     length (spawn_defined c) = MAX_PLAYERS \<and> length (spawn_rows c) = MAX_PLAYERS \<and>
     length (spawn_cols c) = MAX_PLAYERS \<and> length (initial_cells c) = MAX_MAP_CELLS \<and>
     (\<forall>cl \<in> set (clients c). length (cl_client_id cl) = MAX_ID_LEN + 1 \<and>
        length (cl_name cl) = MAX_NAME_LEN + 1)"

text \<open>The map is well formed, at most 255 cells wide and high, and its initial cells are kept.\<close>

definition board_ok :: "server_ctx_t \<Rightarrow> bool" where
  "board_ok c \<longleftrightarrow> wf_map (game_map c) \<and> unat (map_rows (game_map c)) \<le> MAX_MAP_SIDE \<and>
     unat (map_cols (game_map c)) \<le> MAX_MAP_SIDE \<and>
     unat (initial_cell_count c) = unat (map_rows (game_map c)) * unat (map_cols (game_map c))"

definition ids_ok :: "server_ctx_t \<Rightarrow> bool" where
  "ids_ok c \<longleftrightarrow> (\<forall>i < MAX_PLAYERS. pl_id (players c ! i) = of_nat (Suc i) \<and>
     (cl_active (clients c ! i) \<longrightarrow> cl_id (clients c ! i) = of_nat (Suc i)))"

definition places_ok :: "server_ctx_t \<Rightarrow> bool" where
  "places_ok c \<longleftrightarrow> (\<forall>i < MAX_PLAYERS. in_map c (pl_row (players c ! i)) (pl_col (players c ! i)) \<and>
     (spawn_defined c ! i \<longrightarrow> in_map c (spawn_rows c ! i) (spawn_cols c ! i)))"

text \<open>Only players with a connection are alive; a player has one life or none.\<close>

definition life_ok :: "server_ctx_t \<Rightarrow> bool" where
  "life_ok c \<longleftrightarrow> (\<forall>i < MAX_PLAYERS. (pl_alive (players c ! i) \<longrightarrow> cl_active (clients c ! i)) \<and>
     pl_lives (players c ! i) = (if pl_alive (players c ! i) then 1 else 0))"

text \<open>Every bomb lies on a bomb cell of the map, no two on the same cell, and has an owner.\<close>

definition bombs_ok :: "server_ctx_t \<Rightarrow> bool" where
  "bombs_ok c \<longleftrightarrow> (\<forall>i < MAX_BOMBS. bm_owner_id (bombs c ! i) \<noteq> 0 \<longrightarrow>
       unat (bm_owner_id (bombs c ! i)) \<le> MAX_PLAYERS \<and>
       in_map c (bm_row (bombs c ! i)) (bm_col (bombs c ! i)) \<and>
       gs_cell_get (state c) (bm_row (bombs c ! i)) (bm_col (bombs c ! i)) = CELL_BOMB) \<and>
     (\<forall>i < MAX_BOMBS. \<forall>j < MAX_BOMBS. bm_owner_id (bombs c ! i) \<noteq> 0 \<longrightarrow> bm_owner_id (bombs c ! j) \<noteq> 0 \<longrightarrow>
       bm_row (bombs c ! i) = bm_row (bombs c ! j) \<longrightarrow> bm_col (bombs c ! i) = bm_col (bombs c ! j) \<longrightarrow> i = j)"

definition own_bombs :: "server_ctx_t \<Rightarrow> u8 \<Rightarrow> nat" where
  "own_bombs c oid = length (filter (\<lambda>b. bm_owner_id b = oid) (bombs c))"

text \<open>An alive player has one bomb, in hand or on the board; nobody has more on the board.\<close>

definition stock_ok :: "server_ctx_t \<Rightarrow> bool" where
  "stock_ok c \<longleftrightarrow> (\<forall>oid. oid \<noteq> 0 \<longrightarrow> own_bombs c oid \<le> 1) \<and>
     (\<forall>i < MAX_PLAYERS. pl_alive (players c ! i) \<longrightarrow>
        unat (pl_bomb_count (players c ! i)) + own_bombs c (of_nat (Suc i)) = 1)"

text \<open>In the lobby the board is clean.\<close>

definition lobby_ok :: "server_ctx_t \<Rightarrow> bool" where
  "lobby_ok c \<longleftrightarrow> gs_status (state c) \<in> {GAME_LOBBY, GAME_RUNNING, GAME_END} \<and>
     (gs_status (state c) = GAME_LOBBY \<longrightarrow>
        (\<forall>i < MAX_BOMBS. bm_owner_id (bombs c ! i) = 0 \<and> \<not> ex_active (explosions c ! i)) \<and>
        (\<forall>i < MAX_PLAYERS. \<not> pl_alive (players c ! i) \<and> pl_bomb_count (players c ! i) = 1))"

text \<open>An explosion is shown on a cell of the map, and that cell is empty or holds another bomb.\<close>

definition explosions_ok :: "server_ctx_t \<Rightarrow> bool" where
  "explosions_ok c \<longleftrightarrow> (\<forall>i < MAX_BOMBS. ex_active (explosions c ! i) \<longrightarrow>
     unat (ex_cell_index (explosions c ! i)) < unat (map_rows (game_map c)) * unat (map_cols (game_map c)) \<and>
     (\<forall>r k. in_map c r k \<longrightarrow> make_cell_index r k (map_cols (game_map c)) = ex_cell_index (explosions c ! i) \<longrightarrow>
        gs_cell_get (state c) r k \<in> {CELL_EMPTY, CELL_BOMB}))"

lemma explosions_ok_mono:
  assumes "explosions_ok c" "map_rows (game_map c') = map_rows (game_map c)" "map_cols (game_map c') = map_cols (game_map c)"
    and "\<And>i. i < MAX_BOMBS \<Longrightarrow> ex_active (explosions c' ! i) \<Longrightarrow>
      ex_active (explosions c ! i) \<and> ex_cell_index (explosions c' ! i) = ex_cell_index (explosions c ! i)"
    and "\<And>r k. gs_cell_get (state c) r k \<in> {CELL_EMPTY, CELL_BOMB} \<Longrightarrow> gs_cell_get (state c') r k \<in> {CELL_EMPTY, CELL_BOMB}"
  shows "explosions_ok c'"
proof -
  have "in_map c' = in_map c" by (simp add: in_map_def fun_eq_iff assms(2,3))
  then show ?thesis using assms(1,4,5) unfolding explosions_ok_def assms(2,3) by metis
qed

text \<open>Connected players that have said their name have different names.\<close>

definition names_ok :: "server_ctx_t \<Rightarrow> bool" where
  "names_ok c \<longleftrightarrow> (\<forall>i < MAX_PLAYERS. \<forall>j < MAX_PLAYERS. i \<noteq> j \<longrightarrow>
     cl_active (clients c ! i) \<longrightarrow> cl_active (clients c ! j) \<longrightarrow>
     strncmp_eq (cl_name (clients c ! i)) (cl_name (clients c ! j)) MAX_NAME_LEN \<longrightarrow>
     c_strn MAX_NAME_LEN (cl_name (clients c ! i)) = [])"

definition fds_ok :: "server_ctx_t \<Rightarrow> bool" where
  "fds_ok c \<longleftrightarrow> (\<forall>i < MAX_PLAYERS. cl_active (clients c ! i) \<longrightarrow> 0 \<le> cl_fd (clients c ! i)) \<and>
     (\<forall>i < MAX_PLAYERS. \<forall>j < MAX_PLAYERS. cl_active (clients c ! i) \<longrightarrow> cl_active (clients c ! j) \<longrightarrow>
        cl_fd (clients c ! i) = cl_fd (clients c ! j) \<longrightarrow> i = j)"

definition server_inv :: "server_ctx_t \<Rightarrow> bool" where
  "server_inv c \<longleftrightarrow> arrays_ok c \<and> board_ok c \<and> ids_ok c \<and> places_ok c \<and> life_ok c \<and> bombs_ok c \<and>
     stock_ok c \<and> lobby_ok c \<and> explosions_ok c \<and> names_ok c \<and> fds_ok c"

lemmas inv_defs = arrays_ok_def board_ok_def ids_ok_def places_ok_def life_ok_def bombs_ok_def
  stock_ok_def lobby_ok_def explosions_ok_def names_ok_def fds_ok_def

lemma server_invD:
  assumes "server_inv c"
  shows "arrays_ok c" "board_ok c" "ids_ok c" "places_ok c" "life_ok c" "bombs_ok c" "stock_ok c"
    "lobby_ok c" "explosions_ok c" "names_ok c" "fds_ok c"
  using assms by (simp_all add: server_inv_def)

lemma server_invI:
  assumes "arrays_ok c" "board_ok c" "ids_ok c" "places_ok c" "life_ok c" "bombs_ok c" "stock_ok c"
    "lobby_ok c" "explosions_ok c" "names_ok c" "fds_ok c"
  shows "server_inv c"
  using assms by (simp add: server_inv_def)

lemma in_map_in_bounds: "board_ok c \<Longrightarrow> gs_in_bounds (state c) r k \<longleftrightarrow> in_map c r k"
  by (simp add: in_map_def board_ok_def wf_in_bounds)

lemma own_bombs_0_iff: "own_bombs c oid = 0 \<longleftrightarrow> (\<forall>b \<in> set (bombs c). bm_owner_id b \<noteq> oid)"
  by (simp add: own_bombs_def filter_empty_conv)

end
