(* ===== verification/Bomb_Logic.thy ===== *)
theory Bomb_Logic
  imports Server_Inv
begin

text \<open>
  \<open>server/bomb_logic.c\<close>: what an explosion does to the board, the players and the other bombs.

  The loop along one direction counts with a \<open>uint8_t\<close> and compares it with a \<open>uint8_t\<close> radius, so
  for a radius of 255 the comparison alone never stops it.  It is a \<open>partial_function\<close> whose result
  \<open>None\<close> is a loop that does not return; that it returns on every map the server can load is a
  theorem.
\<close>

section \<open>Messages\<close>

definition broadcast_death :: "u8 \<Rightarrow> server_sys \<Rightarrow> server_sys" where
  "broadcast_death player_id s =
     broadcast_encoded (msg_code MSG_DEATH) SERVER_ENDPOINT_ID
       (payload_of proto_encode_death_payload 16 \<lparr>death_player_id = player_id\<rparr>) (-1) s"

definition broadcast_block_destroyed :: "u16 \<Rightarrow> u16 \<Rightarrow> server_sys \<Rightarrow> server_sys" where
  "broadcast_block_destroyed row col s =
     broadcast_encoded (msg_code MSG_BLOCK_DESTROYED) SERVER_ENDPOINT_ID
       (payload_of proto_encode_block_destroyed_payload 16
          \<lparr>bd_cell_index = make_cell_index row col (map_cols (game_map (ctx s)))\<rparr>) (-1) s"

definition broadcast_explosion_end :: "u16 \<Rightarrow> server_sys \<Rightarrow> server_sys" where
  "broadcast_explosion_end cell_index s =
     broadcast_encoded (msg_code MSG_EXPLOSION_END) SERVER_ENDPOINT_ID
       (payload_of proto_encode_explosion_end_payload 16 \<lparr>ee_cell_index = cell_index\<rparr>) (-1) s"

section \<open>The explosion table\<close>

definition schedule_explosion_end :: "u16 \<Rightarrow> server_sys \<Rightarrow> server_sys" where
  "schedule_explosion_end cell_index s =
     (let duration = explosion_duration_ticks (ctx s) in
      if duration = 0 then broadcast_explosion_end cell_index s
      else case first_index MAX_BOMBS (\<lambda>i. \<not> ex_active (explosions (ctx s) ! i)) of
        Some i \<Rightarrow> upd_ctx (\<lambda>c. c\<lparr>explosions := (explosions c)[i :=
            \<lparr>ex_active = True, ex_cell_index = cell_index, ex_remaining_ticks = duration\<rparr>]\<rparr>) s
      | None \<Rightarrow> broadcast_explosion_end cell_index s)"

section \<open>One cell\<close>

text \<open>The result of \<open>gs_cell_set\<close> is ignored: out of bounds, the state stays as it is.\<close>

definition cell_set :: "u16 \<Rightarrow> u16 \<Rightarrow> u8 \<Rightarrow> server_sys \<Rightarrow> server_sys" where
  "cell_set row col value s =
     (case gs_cell_set (state (ctx s)) row col value of
        Some st \<Rightarrow> upd_ctx (upd_state (\<lambda>_. st)) s
      | None \<Rightarrow> s)"

definition maybe_spawn_bonus :: "u16 \<Rightarrow> u16 \<Rightarrow> server_sys \<Rightarrow> server_sys" where
  "maybe_spawn_bonus row col s =
     (let (r, s) = c_rand s; roll = r mod 100 in
      if roll < 25 then
        let (r, s) = c_rand s;
            pick = r mod 3 + 1;
            cell = (if pick = BONUS_RADIUS then CELL_BONUS_RADIUS
                    else if pick = BONUS_TIMER then CELL_BONUS_TIMER else CELL_BONUS_SPEED);
            s = cell_set row col cell s
        in broadcast_encoded (msg_code MSG_BONUS_AVAILABLE) SERVER_ENDPOINT_ID
             (payload_of proto_encode_bonus_available_payload 16
                \<lparr>ba_bonus_type = of_nat pick,
                 ba_cell_index = make_cell_index row col (map_cols (game_map (ctx s)))\<rparr>) (-1) s
      else s)"

definition mark_players_dead_on_cell :: "u16 \<Rightarrow> u16 \<Rightarrow> server_sys \<Rightarrow> server_sys" where
  "mark_players_dead_on_cell row col s =
     for_range MAX_PLAYERS (\<lambda>i s.
       let client = clients (ctx s) ! i; player = players (ctx s) ! i in
       if \<not> cl_active client \<or> \<not> pl_alive player then s
       else if pl_row player = row \<and> pl_col player = col then
         broadcast_death (pl_id player)
           (upd_ctx (upd_player i (\<lambda>p. p\<lparr>pl_alive := False, pl_lives := 0\<rparr>)) s)
       else s) s"

definition chain_bombs_on_cell :: "u16 \<Rightarrow> u16 \<Rightarrow> nat \<Rightarrow> server_sys \<Rightarrow> server_sys" where
  "chain_bombs_on_cell row col except_index s =
     for_range MAX_BOMBS (\<lambda>i s.
       let bomb = bombs (ctx s) ! i in
       if bm_owner_id bomb = 0 \<or> i = except_index then s
       else if bm_row bomb = row \<and> bm_col bomb = col \<and> bm_timer_ticks bomb > 0 then
         upd_ctx (upd_state (\<lambda>st. st\<lparr>gs_bombs := (gs_bombs st)[i := bomb\<lparr>bm_timer_ticks := 0\<rparr>]\<rparr>)) s
       else s) s"

text \<open>The flag \<open>stop_here\<close> is the first component of the result.\<close>

definition apply_explosion_cell :: "u16 \<Rightarrow> u16 \<Rightarrow> nat \<Rightarrow> bool \<Rightarrow> server_sys \<Rightarrow> bool \<times> server_sys" where
  "apply_explosion_cell row col bomb_index stop_here s =
     (let cell = gs_cell_get (state (ctx s)) row col;
          s = chain_bombs_on_cell row col bomb_index s;
          s = mark_players_dead_on_cell row col s in
      if cell = CELL_SOFT then
        let s = cell_set row col CELL_EMPTY s;
            s = broadcast_block_destroyed row col s;
            s = maybe_spawn_bonus row col s
        in (True, s)
      else (stop_here, s))"

section \<open>One bomb\<close>

definition explosion_dr :: "int list" where "explosion_dr = [-1, 1, 0, 0]"
definition explosion_dc :: "int list" where "explosion_dc = [0, 0, -1, 1]"

partial_function (option) explode_dir ::
  "int \<Rightarrow> int \<Rightarrow> bomb_t \<Rightarrow> nat \<Rightarrow> u8 \<Rightarrow> server_sys \<Rightarrow> server_sys option" where
  "explode_dir dr dc bomb bomb_index step s =
     (if \<not> step \<le> bm_radius bomb then Some s
      else
        let next_row = int (unat (bm_row bomb)) + dr * int (unat step);
            next_col = int (unat (bm_col bomb)) + dc * int (unat step) in
        if next_row < 0 \<or> next_col < 0 \<or> next_row \<ge> int (unat (map_rows (game_map (ctx s)))) \<or>
           next_col \<ge> int (unat (map_cols (game_map (ctx s)))) then Some s
        else if gs_cell_get (state (ctx s)) (of_int next_row) (of_int next_col) = CELL_HARD then Some s
        else
          let r = apply_explosion_cell (of_int next_row) (of_int next_col) bomb_index False s in
          if fst r then Some (snd r)
          else explode_dir dr dc bomb bomb_index (step + 1) (snd r))"

text \<open>The block that gives the bomb back to its owner, and what follows the four rays.\<close>

definition refund_owner :: "u8 \<Rightarrow> server_sys \<Rightarrow> server_sys" where
  "refund_owner oid s = (case gs_find_player_slot_by_id (state (ctx s)) oid of
       Some owner_slot \<Rightarrow>
         if unat (pl_bomb_count (players (ctx s) ! owner_slot)) < 200
         then upd_ctx (upd_player owner_slot (\<lambda>p. p\<lparr>pl_bomb_count := pl_bomb_count p + 1\<rparr>)) s
         else s
     | None \<Rightarrow> s)"

definition finish_explosion :: "bomb_t \<Rightarrow> nat \<Rightarrow> server_sys \<Rightarrow> server_sys" where
  "finish_explosion bomb x s =
     (let s = cell_set (bm_row bomb) (bm_col bomb) CELL_EMPTY s;
          s = upd_ctx (upd_state (\<lambda>st. gs_clear_bomb st x)) s;
          s = refund_owner (bm_owner_id bomb) s;
          s = schedule_explosion_end
                (make_cell_index (bm_row bomb) (bm_col bomb) (map_cols (game_map (ctx s)))) s
      in server_send_sync_to_all s)"

definition server_process_bomb_explosion :: "nat \<Rightarrow> server_sys \<Rightarrow> server_sys option" where
  "server_process_bomb_explosion bomb_index s =
     (if bomb_index \<ge> MAX_BOMBS \<or> bm_owner_id (bombs (ctx s) ! bomb_index) = 0 then Some s
      else
        let bomb = bombs (ctx s) ! bomb_index;
            s = broadcast_encoded (msg_code MSG_EXPLOSION_START) SERVER_ENDPOINT_ID
                  (payload_of proto_encode_explosion_start_payload 16
                     \<lparr>es_radius = bm_radius bomb,
                      es_cell_index = make_cell_index (bm_row bomb) (bm_col bomb)
                                        (map_cols (game_map (ctx s)))\<rparr>) (-1) s;
            s = snd (apply_explosion_cell (bm_row bomb) (bm_col bomb) bomb_index False s)
        in case for_opt [0..<4]
             (\<lambda>dir s. explode_dir (explosion_dr ! dir) (explosion_dc ! dir) bomb bomb_index 1 s) s of
          None \<Rightarrow> None
        | Some s \<Rightarrow> Some (finish_explosion bomb bomb_index s))"

end
