(* ===== verification/Game_Loop.thy ===== *)
theory Game_Loop
  imports Bomb_Logic
begin

text \<open>
  \<open>server/game_loop.c\<close>: one tick of the server: the explosion timers, the bomb timers, the
  explosions with their chain reactions, and the end of the round.
\<close>

text \<open>The body of the loop over the explosions.\<close>

definition tick_explosion :: "nat \<Rightarrow> server_sys \<Rightarrow> server_sys" where
  "tick_explosion i s =
     (if \<not> ex_active (explosions (ctx s) ! i) then s
      else
        let s = (if ex_remaining_ticks (explosions (ctx s) ! i) > 0
                 then upd_ctx (\<lambda>c. c\<lparr>explosions := (explosions c)[i := (explosions c ! i)
                        \<lparr>ex_remaining_ticks := ex_remaining_ticks (explosions c ! i) - 1\<rparr>]\<rparr>) s
                 else s) in
        if ex_remaining_ticks (explosions (ctx s) ! i) = 0 then
          let s = broadcast_encoded (msg_code MSG_EXPLOSION_END) SERVER_ENDPOINT_ID
                    (payload_of proto_encode_explosion_end_payload 16
                       \<lparr>ee_cell_index = ex_cell_index (explosions (ctx s) ! i)\<rparr>) (-1) s
          in upd_ctx (\<lambda>c. c\<lparr>explosions := (explosions c)[i := (explosions c ! i)\<lparr>ex_active := False\<rparr>]\<rparr>) s
        else s)"

definition process_explosion_timers :: "server_sys \<Rightarrow> server_sys" where
  "process_explosion_timers s = for_range MAX_BOMBS tick_explosion s"

text \<open>The slots the loop of \<open>maybe_finish_round\<close> counts; the last one is the winner's.\<close>

definition alive_slots :: "server_ctx_t \<Rightarrow> nat list" where
  "alive_slots c =
     for_range MAX_PLAYERS (\<lambda>i found.
       if cl_active (clients c ! i) \<and> pl_alive (players c ! i) then found @ [i] else found) []"

definition maybe_finish_round :: "server_sys \<Rightarrow> server_sys" where
  "maybe_finish_round s =
     (if gs_status (state (ctx s)) \<noteq> GAME_RUNNING then s
      else
        let found = alive_slots (ctx s);
            alive_count = length found;
            winner_id = (if found = [] then 0 else pl_id (players (ctx s) ! last found)) in
        if alive_count \<le> 1 \<and> server_active_client_count (ctx s) \<ge> 2 then
          let s = server_transition_status GAME_END s in
          if alive_count = 1 then
            broadcast_encoded (msg_code MSG_WINNER) SERVER_ENDPOINT_ID
              (payload_of proto_encode_winner_payload 16 \<lparr>winner_winner_id = winner_id\<rparr>) (-1) s
          else s
        else s)"

text \<open>The countdown of the bomb timers.\<close>

definition tick_bomb_timers :: "server_ctx_t \<Rightarrow> server_ctx_t" where
  "tick_bomb_timers c =
     for_range MAX_BOMBS (\<lambda>i c.
       if bm_owner_id (bombs c ! i) \<noteq> 0 \<and> bm_timer_ticks (bombs c ! i) > 0
       then upd_state (\<lambda>st. st\<lparr>gs_bombs := (gs_bombs st)[i := (gs_bombs st ! i)
              \<lparr>bm_timer_ticks := bm_timer_ticks (gs_bombs st ! i) - 1\<rparr>]\<rparr>) c
       else c) c"

definition bomb_due :: "server_ctx_t \<Rightarrow> nat \<Rightarrow> bool" where
  "bomb_due c i \<longleftrightarrow> bm_owner_id (bombs c ! i) \<noteq> 0 \<and> bm_timer_ticks (bombs c ! i) = 0"

text \<open>The body of the \<open>do\<close> loop: one pass over the bombs; the flag is \<open>exploded\<close>.\<close>

definition explode_pass :: "server_sys \<Rightarrow> (bool \<times> server_sys) option" where
  "explode_pass s =
     for_opt [0..<MAX_BOMBS] (\<lambda>i (exploded, s).
       if bomb_due (ctx s) i
       then map_option (\<lambda>s. (True, s)) (server_process_bomb_explosion i s)
       else Some (exploded, s)) (False, s)"

partial_function (option) explode_all :: "server_sys \<Rightarrow> server_sys option" where
  "explode_all s =
     (case explode_pass s of
        None \<Rightarrow> None
      | Some r \<Rightarrow> if fst r then explode_all (snd r) else Some (snd r))"

definition server_tick :: "server_sys \<Rightarrow> server_sys option" where
  "server_tick s =
     (let s = upd_ctx (upd_state (\<lambda>st. st\<lparr>gs_tick := gs_tick st + 1\<rparr>)) s;
          s = process_explosion_timers s in
      if gs_status (state (ctx s)) \<noteq> GAME_RUNNING then Some s
      else map_option maybe_finish_round (explode_all (upd_ctx tick_bomb_timers s)))"

end
