(* ===== verification/Blast.thy ===== *)
theory Blast
  imports Game_Loop
begin

text \<open>
  What the steps of an explosion do to the server context: closed forms of the two loops over a
  cell, and the relation \<open>blast_rel\<close> between the context before and after, which every step obeys
  and which carries the invariant.
\<close>

section \<open>Closed forms\<close>

interpretation death_sent: quiet_op "broadcast_death p" for p
  by unfold_locales (simp_all add: broadcast_death_def broadcast_enc.log_f)

interpretation block_sent: quiet_op "broadcast_block_destroyed r k" for r k
  by unfold_locales (simp_all add: broadcast_block_destroyed_def broadcast_enc.log_f)

interpretation end_sent: quiet_op "broadcast_explosion_end i" for i
  by unfold_locales (simp_all add: broadcast_explosion_end_def broadcast_enc.log_f)

lemmas blast_quiet_ctx [env_simps, simp] = death_sent.ctx_f block_sent.ctx_f end_sent.ctx_f

definition chained :: "u16 \<Rightarrow> u16 \<Rightarrow> nat \<Rightarrow> nat \<Rightarrow> bomb_t \<Rightarrow> bomb_t" where
  "chained row col except_index i b =
     (if bm_owner_id b \<noteq> 0 \<and> i \<noteq> except_index \<and> bm_row b = row \<and> bm_col b = col
      then b\<lparr>bm_timer_ticks := 0\<rparr> else b)"

definition killed :: "server_client_t list \<Rightarrow> u16 \<Rightarrow> u16 \<Rightarrow> nat \<Rightarrow> player_t \<Rightarrow> player_t" where
  "killed cls row col i p =
     (if cl_active (cls ! i) \<and> pl_alive p \<and> pl_row p = row \<and> pl_col p = col
      then p\<lparr>pl_alive := False, pl_lives := 0\<rparr> else p)"

definition upd_bombs :: "(bomb_t list \<Rightarrow> bomb_t list) \<Rightarrow> server_sys \<Rightarrow> server_sys" where
  "upd_bombs f = upd_ctx (upd_state (\<lambda>st. st\<lparr>gs_bombs := f (gs_bombs st)\<rparr>))"

lemma chain_bombs_closed [loop_simps]:
  assumes "length (bombs (ctx s)) = MAX_BOMBS"
  shows "chain_bombs_on_cell row col ex s = upd_bombs (imap (chained row col ex)) s"
proof -
  have timer0: "b\<lparr>bm_timer_ticks := 0\<rparr> = b" if "\<not> 0 < bm_timer_ticks b" for b
    using that by (cases b) (simp add: word_neq_0_conv [symmetric])
  have "chain_bombs_on_cell row col ex s =
      upd_bombs (for_range 64 (\<lambda>i bs. bs[i := chained row col ex i (bs ! i)])) s"
    unfolding chain_bombs_on_cell_def
  proof (rule for_range_lift)
    show "(let bomb = bombs (ctx t) ! i in
        if bm_owner_id bomb = 0 \<or> i = ex then t
        else if bm_row bomb = row \<and> bm_col bomb = col \<and> 0 < bm_timer_ticks bomb
          then upd_ctx (upd_state (\<lambda>st. st\<lparr>gs_bombs := (gs_bombs st)[i := bomb\<lparr>bm_timer_ticks := 0\<rparr>]\<rparr>)) t
        else t) = upd_bombs (\<lambda>bs. bs[i := chained row col ex i (bs ! i)]) t" for i t
      by (auto simp: Let_def upd_bombs_def upd_ctx_def upd_state_def chained_def timer0)
  qed (simp_all add: upd_bombs_def upd_ctx_def upd_state_def)
  also have "\<dots> = upd_bombs (imap (chained row col ex)) s"
    using for_range_update [of 64 "bombs (ctx s)" "chained row col ex"] assms
    by (simp add: upd_bombs_def upd_ctx_def upd_state_def imap_def cong: map_cong)
  finally show ?thesis .
qed

definition upd_players :: "(player_t list \<Rightarrow> player_t list) \<Rightarrow> server_ctx_t \<Rightarrow> server_ctx_t" where
  "upd_players f = upd_state (\<lambda>st. st\<lparr>gs_players := f (gs_players st)\<rparr>)"

text \<open>The deaths on a cell are announced in slot order.\<close>

lemma mark_dead_closed [loop_simps]:
  assumes "length (players (ctx s)) = MAX_PLAYERS"
  shows "ctx (mark_players_dead_on_cell row col s) =
    upd_players (imap (killed (clients (ctx s)) row col)) (ctx s)"
proof -
  let ?g = "killed (clients (ctx s)) row col"
  let ?P = "\<lambda>n t. ctx t = upd_players (for_range n (\<lambda>i ps. ps[i := ?g i (ps ! i)])) (ctx s)"
  have "?P 8 (mark_players_dead_on_cell row col s)"
    unfolding mark_players_dead_on_cell_def
  proof (rule for_range_inv)
    show "?P 0 s" by (simp add: upd_players_def upd_state_def)
    fix i and t :: server_sys assume t: "?P i t"
    show "?P (Suc i) (let client = clients (ctx t) ! i; player = players (ctx t) ! i in
       if \<not> cl_active client \<or> \<not> pl_alive player then t
       else if pl_row player = row \<and> pl_col player = col then
         broadcast_death (pl_id player)
           (upd_ctx (upd_player i (\<lambda>p. p\<lparr>pl_alive := False, pl_lives := 0\<rparr>)) t)
       else t)"
      using t by (simp add: Let_def upd_players_def upd_player_def upd_state_def killed_def)
  qed
  also have "upd_players (for_range 8 (\<lambda>i ps. ps[i := ?g i (ps ! i)])) (ctx s) =
      upd_players (imap ?g) (ctx s)"
    using for_range_update [of 8 "players (ctx s)" ?g] assms
    by (simp add: upd_players_def upd_state_def imap_def cong: map_cong)
  finally show ?thesis .
qed

lemma cell_set_ctx: "ctx (cell_set row col v s) =
    (case gs_cell_set (state (ctx s)) row col v of
       Some st \<Rightarrow> (ctx s)\<lparr>state := st\<rparr> | None \<Rightarrow> ctx s)"
  by (simp add: cell_set_def upd_state_def split: option.split)

definition bonus_of :: "nat \<Rightarrow> u8" where
  "bonus_of r = (if r mod 3 + 1 = BONUS_RADIUS then CELL_BONUS_RADIUS
     else if r mod 3 + 1 = BONUS_TIMER then CELL_BONUS_TIMER else CELL_BONUS_SPEED)"

lemma bonus_of_bonus [simp]: "is_bonus_cell (bonus_of r)"
  by (simp add: bonus_of_def is_bonus_cell_def)

lemma cell_set_ctx_cong: "ctx t = ctx s \<Longrightarrow> ctx (cell_set row col v t) = ctx (cell_set row col v s)"
  by (simp add: cell_set_ctx split: option.split)

lemma maybe_spawn_bonus_ctx:
  "ctx (maybe_spawn_bonus row col s) =
     (if fst (c_rand s) mod 100 < 25
      then ctx (cell_set row col (bonus_of (fst (c_rand (snd (c_rand s))))) s) else ctx s)"
proof -
  have "ctx (cell_set row col v (snd (c_rand (snd (c_rand s))))) = ctx (cell_set row col v s)" for v
    by (rule cell_set_ctx_cong) simp
  then show ?thesis
    by (simp add: maybe_spawn_bonus_def Let_def case_prod_beta bonus_of_def)
qed

text \<open>Clearing a cell and then dropping a bonus there leaves one of the two.\<close>

lemma gs_cell_set_twice:
  "gs_cell_set st row col u = Some st' \<Longrightarrow> gs_cell_set st' row col v = gs_cell_set st row col v"
  by (auto simp: gs_cell_set_def gs_in_bounds_def split: if_splits)

lemma cell_set_twice: "ctx (cell_set row col v (cell_set row col u s)) = ctx (cell_set row col v s)"
proof (cases "gs_cell_set (state (ctx s)) row col u")
  case None
  then have "cell_set row col u s = s" by (simp add: cell_set_def)
  then show ?thesis by simp
next
  case (Some st)
  then show ?thesis
    using gs_cell_set_twice [OF Some, of v]
    by (simp add: cell_set_ctx gs_cell_set_def split: if_splits)
qed

lemma spawn_after_clear:
  assumes "ctx t = ctx (cell_set row col CELL_EMPTY s)"
  shows "\<exists>v. (v = CELL_EMPTY \<or> is_bonus_cell v) \<and>
    ctx (maybe_spawn_bonus row col t) = ctx (cell_set row col v s)"
proof -
  have "ctx (cell_set row col v t) = ctx (cell_set row col v s)" for v
    using cell_set_ctx_cong [OF assms, of row col v] by (simp add: cell_set_twice)
  then show ?thesis
    unfolding maybe_spawn_bonus_ctx using assms bonus_of_bonus by (metis (full_types))
qed

section \<open>What a set of blast cells does\<close>

text \<open>
  Cells are pairs of integers here, so that the neighbours of a cell need no wrap-around.
  \<open>blasted B x c c'\<close>: the context \<open>c'\<close> is \<open>c\<close> after the explosion of bomb \<open>x\<close> has reached
  exactly the cells of \<open>B\<close>.
\<close>

type_synonym cell_pos = "int \<times> int"

definition pos_of :: "u16 \<Rightarrow> u16 \<Rightarrow> cell_pos" where
  "pos_of row col = (uint row, uint col)"

definition cell_at :: "server_ctx_t \<Rightarrow> cell_pos \<Rightarrow> u8" where
  "cell_at c p = gs_cell_get (state c) (of_int (fst p)) (of_int (snd p))"

lemma pos_of_inj: "pos_of r k = pos_of r' k' \<longleftrightarrow> r = r' \<and> k = k'"
  by (simp add: pos_of_def word_uint_eq_iff)

lemma cell_at_pos_of: "cell_at c (pos_of r k) = gs_cell_get (state c) r k"
  by (simp add: cell_at_def pos_of_def)

definition killed_in :: "server_client_t list \<Rightarrow> cell_pos set \<Rightarrow> nat \<Rightarrow> player_t \<Rightarrow> player_t" where
  "killed_in cls B i p =
     (if cl_active (cls ! i) \<and> pl_alive p \<and> pos_of (pl_row p) (pl_col p) \<in> B
      then p\<lparr>pl_alive := False, pl_lives := 0\<rparr> else p)"

definition chained_in :: "cell_pos set \<Rightarrow> nat \<Rightarrow> nat \<Rightarrow> bomb_t \<Rightarrow> bomb_t" where
  "chained_in B x i b =
     (if bm_owner_id b \<noteq> 0 \<and> i \<noteq> x \<and> pos_of (bm_row b) (bm_col b) \<in> B
      then b\<lparr>bm_timer_ticks := 0\<rparr> else b)"

definition cell_blast :: "bool \<Rightarrow> u8 \<Rightarrow> u8 \<Rightarrow> bool" where
  "cell_blast reached v v' \<longleftrightarrow>
     (if reached \<and> v = CELL_SOFT then v' = CELL_EMPTY \<or> is_bonus_cell v' else v' = v)"

text \<open>The context without the map, the players and the bombs: an explosion leaves it alone.\<close>

definition rest :: "server_ctx_t \<Rightarrow> server_ctx_t" where
  "rest c = c\<lparr>state := (state c)\<lparr>gs_map := \<lparr>map_rows = 0, map_cols = 0, map_cells = None\<rparr>,
     gs_players := [], gs_bombs := []\<rparr>\<rparr>"

lemma rest_fields:
  assumes "rest c' = rest c"
  shows "clients c' = clients c" "gs_status (state c') = gs_status (state c)"
    "gs_tick (state c') = gs_tick (state c)" "explosions c' = explosions c"
    "spawn_defined c' = spawn_defined c" "spawn_rows c' = spawn_rows c" "spawn_cols c' = spawn_cols c"
    "initial_cells c' = initial_cells c" "initial_cell_count c' = initial_cell_count c"
    "default_speed c' = default_speed c" "default_bomb_radius c' = default_bomb_radius c"
    "default_bomb_timer_ticks c' = default_bomb_timer_ticks c"
    "explosion_duration_ticks c' = explosion_duration_ticks c" "server_id c' = server_id c"
  using arg_cong [OF assms, of "clients"]
    arg_cong [OF assms, of "gs_status \<circ> state"]
    arg_cong [OF assms, of "gs_tick \<circ> state"]
    arg_cong [OF assms, of "explosions"]
    arg_cong [OF assms, of "spawn_defined"]
    arg_cong [OF assms, of "spawn_rows"]
    arg_cong [OF assms, of "spawn_cols"]
    arg_cong [OF assms, of "initial_cells"]
    arg_cong [OF assms, of "initial_cell_count"]
    arg_cong [OF assms, of "default_speed"]
    arg_cong [OF assms, of "default_bomb_radius"]
    arg_cong [OF assms, of "default_bomb_timer_ticks"]
    arg_cong [OF assms, of "explosion_duration_ticks"]
    arg_cong [OF assms, of "server_id"]
  by (simp_all add: rest_def)

definition blasted :: "cell_pos set \<Rightarrow> nat \<Rightarrow> server_ctx_t \<Rightarrow> server_ctx_t \<Rightarrow> bool" where
  "blasted B x c c' \<longleftrightarrow>
     rest c' = rest c \<and>
     players c' = imap (killed_in (clients c) B) (players c) \<and>
     bombs c' = imap (chained_in B x) (bombs c) \<and>
     map_rows (game_map c') = map_rows (game_map c) \<and> map_cols (game_map c') = map_cols (game_map c) \<and>
     wf_map (game_map c') \<and>
     (\<forall>r k. cell_blast (pos_of r k \<in> B) (gs_cell_get (state c) r k) (gs_cell_get (state c') r k))"

lemma killed_in_twice: "killed_in cls B2 i (killed_in cls B1 i p) = killed_in cls (B1 \<union> B2) i p"
  by (auto simp: killed_in_def)

lemma chained_in_twice: "chained_in B2 x i (chained_in B1 x i b) = chained_in (B1 \<union> B2) x i b"
  by (auto simp: chained_in_def)

lemma cell_blast_twice:
  "cell_blast b1 v v1 \<Longrightarrow> cell_blast b2 v1 v2 \<Longrightarrow> cell_blast (b1 \<or> b2) v v2"
  by (auto simp: cell_blast_def is_bonus_cell_def split: if_splits)

lemma blastedD:
  assumes "blasted B x c c'"
  shows "rest c' = rest c" "players c' = imap (killed_in (clients c) B) (players c)"
    "bombs c' = imap (chained_in B x) (bombs c)"
    "map_rows (game_map c') = map_rows (game_map c)" "map_cols (game_map c') = map_cols (game_map c)"
    "wf_map (game_map c')"
    "cell_blast (pos_of r k \<in> B) (gs_cell_get (state c) r k) (gs_cell_get (state c') r k)"
  using assms unfolding blasted_def by blast+

lemma blasted_refl:
  assumes "wf_map (game_map c)"
  shows "blasted {} x c c"
proof -
  have "killed_in (clients c) {} = (\<lambda>i p. p)" "chained_in {} x = (\<lambda>i b. b)"
    by (intro ext; simp add: killed_in_def chained_in_def)+
  then show ?thesis
    using assms by (simp add: blasted_def imap_ident cell_blast_def)
qed

lemma blasted_trans:
  assumes "blasted B1 x c c1" and "blasted B2 x c1 c2"
  shows "blasted (B1 \<union> B2) x c c2"
proof -
  note d1 = blastedD [OF assms(1)] and d2 = blastedD [OF assms(2)]
  have cl: "clients c1 = clients c" by (rule rest_fields(1) [OF d1(1)])
  have "players c2 = imap (killed_in (clients c) (B1 \<union> B2)) (players c)"
    by (simp only: d2(2) d1(2) imap_imap killed_in_twice cl)
  moreover have "bombs c2 = imap (chained_in (B1 \<union> B2) x) (bombs c)"
    by (simp only: d2(3) d1(3) imap_imap chained_in_twice)
  moreover have "cell_blast (pos_of r k \<in> B1 \<union> B2) (gs_cell_get (state c) r k) (gs_cell_get (state c2) r k)"
    for r k
    unfolding Un_iff by (rule cell_blast_twice [OF d1(7) d2(7)])
  ultimately show ?thesis
    unfolding blasted_def using d1(1,4,5) d2(1,4,5,6) by simp
qed

lemma killed_one: "killed cls row col = killed_in cls {pos_of row col}"
  by (intro ext) (simp add: killed_def killed_in_def pos_of_inj)

lemma chained_one: "chained row col x = chained_in {pos_of row col} x"
  by (intro ext) (simp add: chained_def chained_in_def pos_of_inj)

text \<open>The two loops, then the cell itself: one cell of the blast.\<close>

lemma blasted_cell_set:
  assumes "wf_map (game_map c)" and "gs_cell_get (state c) row col = CELL_SOFT"
    and "v = CELL_EMPTY \<or> is_bonus_cell v" and "ctx s = c"
  shows "rest (ctx (cell_set row col v s)) = rest c" "players (ctx (cell_set row col v s)) = players c"
    "bombs (ctx (cell_set row col v s)) = bombs c"
    "map_rows (game_map (ctx (cell_set row col v s))) = map_rows (game_map c)"
    "map_cols (game_map (ctx (cell_set row col v s))) = map_cols (game_map c)"
    "wf_map (game_map (ctx (cell_set row col v s)))"
    "gs_cell_get (state (ctx (cell_set row col v s))) r k =
       (if r = row \<and> k = col then v else gs_cell_get (state c) r k)"
proof -
  have "gs_in_bounds (state c) row col"
    using assms(2) by (auto simp: gs_cell_get_def split: if_splits)
  then obtain st where st: "gs_cell_set (state c) row col v = Some st"
    using gs_cell_set_Some by blast
  then have ctx: "ctx (cell_set row col v s) = c\<lparr>state := st\<rparr>"
    by (simp add: cell_set_ctx assms(4))
  note fr = gs_cell_set_frame [OF st] gs_cell_set_wf [OF assms(1) st] gs_cell_get_set [OF assms(1) st]
  then show "players (ctx (cell_set row col v s)) = players c"
    "bombs (ctx (cell_set row col v s)) = bombs c"
    "map_rows (game_map (ctx (cell_set row col v s))) = map_rows (game_map c)"
    "map_cols (game_map (ctx (cell_set row col v s))) = map_cols (game_map c)"
    "wf_map (game_map (ctx (cell_set row col v s)))"
    "gs_cell_get (state (ctx (cell_set row col v s))) r k =
       (if r = row \<and> k = col then v else gs_cell_get (state c) r k)"
    by (simp_all add: ctx)
  show "rest (ctx (cell_set row col v s)) = rest c"
    using fr(3,4) by (simp add: ctx rest_def)
qed

lemma blasted_cell:
  assumes wf: "wf_map (game_map (ctx s))" and len: "length (players (ctx s)) = MAX_PLAYERS"
    "length (bombs (ctx s)) = MAX_BOMBS"
  shows "blasted {pos_of row col} x (ctx s) (ctx (snd (apply_explosion_cell row col x stop s)))"
    and "fst (apply_explosion_cell row col x stop s) \<longleftrightarrow> stop \<or> gs_cell_get (state (ctx s)) row col = CELL_SOFT"
proof -
  let ?s2 = "mark_players_dead_on_cell row col (chain_bombs_on_cell row col x s)"
  let ?c = "ctx s" and ?c2 = "ctx ?s2" and ?P = "{pos_of row col}"
  have c2: "?c2 = upd_players (imap (killed_in (clients ?c) ?P))
      (upd_state (\<lambda>st. st\<lparr>gs_bombs := imap (chained_in ?P x) (gs_bombs st)\<rparr>) ?c)"
    using len by (simp add: chain_bombs_closed mark_dead_closed upd_bombs_def upd_state_def
        chained_one killed_one)
  then have s2: "rest ?c2 = rest ?c" "players ?c2 = imap (killed_in (clients ?c) ?P) (players ?c)"
      "bombs ?c2 = imap (chained_in ?P x) (bombs ?c)" "game_map ?c2 = game_map ?c"
      "gs_cell_get (state ?c2) r k = gs_cell_get (state ?c) r k" for r k
    by (simp_all add: upd_players_def upd_state_def rest_def gs_cell_get_def gs_in_bounds_def)
  show "fst (apply_explosion_cell row col x stop s) \<longleftrightarrow>
      stop \<or> gs_cell_get (state ?c) row col = CELL_SOFT"
    by (simp add: apply_explosion_cell_def Let_def)
  show "blasted ?P x ?c (ctx (snd (apply_explosion_cell row col x stop s)))"
  proof (cases "gs_cell_get (state ?c) row col = CELL_SOFT")
    case False
    then show ?thesis
      using s2 wf by (auto simp: apply_explosion_cell_def Let_def blasted_def cell_blast_def pos_of_inj)
  next
    case True
    let ?s3 = "cell_set row col CELL_EMPTY ?s2"
    let ?s4 = "broadcast_block_destroyed row col ?s3"
    have c4: "ctx ?s4 = ctx ?s3" by simp
    have soft: "gs_cell_get (state ?c2) row col = CELL_SOFT" and wf2: "wf_map (game_map ?c2)"
      using True s2 wf by simp_all
    have "\<exists>v. (v = CELL_EMPTY \<or> is_bonus_cell v) \<and>
        ctx (maybe_spawn_bonus row col ?s4) = ctx (cell_set row col v ?s2)"
      by (rule spawn_after_clear [OF c4])
    then obtain v where v: "v = CELL_EMPTY \<or> is_bonus_cell v"
      and last: "ctx (maybe_spawn_bonus row col ?s4) = ctx (cell_set row col v ?s2)" by blast
    note cs = blasted_cell_set [OF wf2 soft v refl]
    have "snd (apply_explosion_cell row col x stop s) = maybe_spawn_bonus row col ?s4"
      using True by (simp add: apply_explosion_cell_def Let_def)
    then show ?thesis
      unfolding blasted_def
      using True v by (simp add: last cs s2 cell_blast_def pos_of_inj)
  qed
qed

end
