(* ===== verification/Explosion.thy ===== *)
theory Explosion
  imports Blast
begin

text \<open>
  The area of an explosion as a specification over the map before it, and the proof that the four
  loops of \<open>server_process_bomb_explosion\<close> return and reach exactly that area.
\<close>

section \<open>Rays\<close>

definition on_board :: "server_ctx_t \<Rightarrow> cell_pos \<Rightarrow> bool" where
  "on_board c p \<longleftrightarrow> 0 \<le> fst p \<and> fst p < uint (map_rows (game_map c)) \<and>
     0 \<le> snd p \<and> snd p < uint (map_cols (game_map c))"

definition step_pos :: "bomb_t \<Rightarrow> nat \<Rightarrow> nat \<Rightarrow> cell_pos" where
  "step_pos b d j = (uint (bm_row b) + explosion_dr ! d * int j, uint (bm_col b) + explosion_dc ! d * int j)"

text \<open>A cell the fire passes through.\<close>

definition open_cell :: "server_ctx_t \<Rightarrow> cell_pos \<Rightarrow> bool" where
  "open_cell c p \<longleftrightarrow> on_board c p \<and> cell_at c p \<noteq> CELL_HARD \<and> cell_at c p \<noteq> CELL_SOFT"

text \<open>
  The fire of bomb \<open>b\<close> reaches the \<open>j\<close>-th cell in direction \<open>d\<close>: the cell is within the radius, on
  the board and no hard block, and the fire passes through every cell before it.
\<close>

definition in_ray :: "server_ctx_t \<Rightarrow> bomb_t \<Rightarrow> nat \<Rightarrow> nat \<Rightarrow> bool" where
  "in_ray c b d j \<longleftrightarrow> 1 \<le> j \<and> j \<le> unat (bm_radius b) \<and> on_board c (step_pos b d j) \<and>
     cell_at c (step_pos b d j) \<noteq> CELL_HARD \<and> (\<forall>i \<in> {1..<j}. open_cell c (step_pos b d i))"

definition ray :: "server_ctx_t \<Rightarrow> bomb_t \<Rightarrow> nat \<Rightarrow> cell_pos set" where
  "ray c b d = step_pos b d ` {j. in_ray c b d j}"

definition blast_area :: "server_ctx_t \<Rightarrow> bomb_t \<Rightarrow> cell_pos set" where
  "blast_area c b = insert (pos_of (bm_row b) (bm_col b)) (\<Union>d \<in> {0..<4}. ray c b d)"

lemma four_directions: "d < 4 \<longleftrightarrow> d = 0 \<or> d = 1 \<or> d = 2 \<or> d = (3 :: nat)"
  by linarith

lemma step_pos_apart:
  assumes "d < 4" "d' < 4" "1 \<le> j" "1 \<le> j'" and "step_pos b d j = step_pos b d' j'"
  shows "d = d' \<and> j = j'"
  using assms unfolding four_directions
  by (elim disjE) (simp_all add: step_pos_def explosion_dr_def explosion_dc_def)

lemma step_pos_centre: "d < 4 \<Longrightarrow> 1 \<le> j \<Longrightarrow> step_pos b d j \<noteq> pos_of (bm_row b) (bm_col b)"
  unfolding four_directions
  by (elim disjE) (simp_all add: step_pos_def pos_of_def explosion_dr_def explosion_dc_def)

text \<open>On a board of side at most 255 the loop counter does not wrap before the border.\<close>

lemma on_board_step_less:
  assumes "board_ok c" "d < 4" "in_map c (bm_row b) (bm_col b)" "on_board c (step_pos b d j)"
  shows "j < 255"
proof -
  have "uint (map_rows (game_map c)) \<le> 255" "uint (map_cols (game_map c)) \<le> 255"
    using assms(1) unfolding board_ok_def uint_nat by linarith+
  moreover have "uint (bm_row b) < uint (map_rows (game_map c))" "uint (bm_col b) < uint (map_cols (game_map c))"
    using assms(3) by (simp_all add: in_map_def word_less_def)
  ultimately show ?thesis
    using assms(2,4) unfolding four_directions
    by (elim disjE) (simp_all add: on_board_def step_pos_def explosion_dr_def explosion_dc_def,
      (use uint_ge_0 [of "bm_row b"] uint_ge_0 [of "bm_col b"] in linarith)+)
qed

lemma in_ray_step:
  assumes "1 \<le> k" and "k \<le> unat (bm_radius b)" and "\<And>i. 1 \<le> i \<Longrightarrow> i < k \<Longrightarrow> open_cell c (step_pos b d i)"
  shows "in_ray c b d k \<longleftrightarrow> on_board c (step_pos b d k) \<and> cell_at c (step_pos b d k) \<noteq> CELL_HARD"
  using assms by (auto simp: in_ray_def)

lemma in_ray_beyond: "in_ray c b d j \<Longrightarrow> 1 \<le> k \<Longrightarrow> k < j \<Longrightarrow> open_cell c (step_pos b d k)"
  by (auto simp: in_ray_def)

definition ray_from :: "server_ctx_t \<Rightarrow> bomb_t \<Rightarrow> nat \<Rightarrow> nat \<Rightarrow> cell_pos set" where
  "ray_from c b d k = step_pos b d ` {j. k \<le> j \<and> in_ray c b d j}"

lemma ray_from_1: "ray_from c b d 1 = ray c b d"
  by (auto simp: ray_from_def ray_def in_ray_def)

lemma ray_from_stop:
  assumes "1 \<le> k" and "\<not> in_ray c b d k" and "\<not> open_cell c (step_pos b d k)"
  shows "ray_from c b d k = {}"
  using assms in_ray_beyond [of c b d _ k] unfolding ray_from_def
  by (auto simp: le_less)

lemma ray_from_last:
  assumes "1 \<le> k" and "in_ray c b d k" and "\<not> open_cell c (step_pos b d k)"
  shows "ray_from c b d k = {step_pos b d k}"
  using assms in_ray_beyond [of c b d _ k] unfolding ray_from_def
  by (auto simp: le_less)

lemma ray_from_Suc:
  assumes "in_ray c b d k"
  shows "ray_from c b d k = insert (step_pos b d k) (ray_from c b d (Suc k))"
  using assms unfolding ray_from_def by (auto simp: Suc_le_eq le_less)


section \<open>The loop along one direction\<close>

lemma blasted_cell_at:
  assumes "blasted B x c c'" and "p \<notin> B" and "on_board c p"
  shows "cell_at c' p = cell_at c p"
proof -
  obtain r k where "p = pos_of r k"
  proof
    show "p = pos_of (of_int (fst p)) (of_int (snd p))"
      using assms(3) uint_lt2p [of "map_rows (game_map c)"] uint_lt2p [of "map_cols (game_map c)"]
      by (simp add: on_board_def pos_of_def uint_word_of_int prod_eq_iff)
  qed
  then show ?thesis
    using blastedD(7) [OF assms(1), of r k] assms(2) by (simp add: cell_at_pos_of cell_blast_def)
qed

lemma blasted_on_board: "blasted B x c c' \<Longrightarrow> on_board c' p \<longleftrightarrow> on_board c p"
  by (simp add: on_board_def blastedD(4,5))

lemma blasted_lengths:
  assumes "blasted B x c c'" and "arrays_ok c"
  shows "length (players c') = MAX_PLAYERS" "length (bombs c') = MAX_BOMBS"
  using assms by (simp_all add: blastedD(2,3) arrays_ok_def)

lemma pos_of_on_board:
  assumes "on_board c p"
  shows "pos_of (of_int (fst p)) (of_int (snd p)) = p"
  using assms uint_lt2p [of "map_rows (game_map c)"] uint_lt2p [of "map_cols (game_map c)"]
  by (simp add: on_board_def pos_of_def uint_word_of_int prod_eq_iff)

lemma explode_dir_ray:
  assumes c: "arrays_ok c" "board_ok c" "in_map c (bm_row b) (bm_col b)" and d: "d < 4"
    and "blasted B x c (ctx s)" and "1 \<le> unat step"
    and "\<And>j. unat step \<le> j \<Longrightarrow> step_pos b d j \<notin> B"
    and "\<And>i. 1 \<le> i \<Longrightarrow> i < unat step \<Longrightarrow> open_cell c (step_pos b d i)"
  shows "\<exists>t. explode_dir (explosion_dr ! d) (explosion_dc ! d) b x step s = Some t \<and>
    blasted (B \<union> ray_from c b d (unat step)) x c (ctx t)"
  using assms(5-8)
proof (induction "255 - unat step" arbitrary: B step s rule: less_induct)
  case less
  let ?k = "unat step" and ?p = "step_pos b d (unat step)"
  let ?go = "explode_dir (explosion_dr ! d) (explosion_dc ! d) b x"
  note unfold = explode_dir.simps [of "explosion_dr ! d" "explosion_dc ! d" b x step s]
  have p: "fst ?p = int (unat (bm_row b)) + explosion_dr ! d * int ?k"
    "snd ?p = int (unat (bm_col b)) + explosion_dc ! d * int ?k"
    by (simp_all add: step_pos_def)
  have dims: "map_rows (game_map (ctx s)) = map_rows (game_map c)"
    "map_cols (game_map (ctx s)) = map_cols (game_map c)"
    using blastedD(4,5) [OF less.prems(1)] .
  show ?case
  proof (cases "step \<le> bm_radius b")
    case False
    then have "?go step s = Some s" by (simp add: unfold)
    moreover have "ray_from c b d ?k = {}"
      using False by (auto simp: ray_from_def in_ray_def word_le_nat_alt)
    ultimately show ?thesis using less.prems(1) by simp
  next
    case radius: True
    then have k_le: "?k \<le> unat (bm_radius b)" by (simp add: word_le_nat_alt)
    have at: "gs_cell_get (state (ctx s)) (of_int (fst ?p)) (of_int (snd ?p)) = cell_at c ?p"
      if "on_board c ?p"
      using blasted_cell_at [OF less.prems(1) _ that] less.prems(3) by (simp add: cell_at_def)
    show ?thesis
    proof (cases "on_board c ?p \<and> cell_at c ?p \<noteq> CELL_HARD")
      case False
      then have "?go step s = Some s"
        using radius at dims unfolding unfold Let_def p [symmetric]
        by (auto simp: on_board_def)
      moreover have "ray_from c b d ?k = {}"
        using False in_ray_step [OF less.prems(2) k_le less.prems(4)] less.prems(2)
        by (intro ray_from_stop) (auto simp: open_cell_def)
      ultimately show ?thesis using less.prems(1) by simp
    next
      case True
      then have here: "in_ray c b d ?k"
        using in_ray_step [OF less.prems(2) k_le less.prems(4)] by simp
      let ?r = "of_int (fst ?p) :: u16" and ?c = "of_int (snd ?p) :: u16"
      let ?s' = "snd (apply_explosion_cell ?r ?c x False s)"
      note cell = blasted_cell [OF blastedD(6) [OF less.prems(1)] blasted_lengths [OF less.prems(1) c(1)],
          of ?r ?c x False]
      have "pos_of ?r ?c = ?p" using True by (intro pos_of_on_board [of c]) simp
      then have next_blast: "blasted (B \<union> {?p}) x c (ctx ?s')"
        using blasted_trans [OF less.prems(1) cell(1)] by metis
      have stop: "fst (apply_explosion_cell ?r ?c x False s) \<longleftrightarrow> cell_at c ?p = CELL_SOFT"
        using cell(2) at True by simp
      have run: "?go step s = (if cell_at c ?p = CELL_SOFT then Some ?s' else ?go (step + 1) ?s')"
        using radius at dims True stop unfolding unfold Let_def p [symmetric]
        by (auto simp: on_board_def)
      show ?thesis
      proof (cases "cell_at c ?p = CELL_SOFT")
        case True
        then have "ray_from c b d ?k = {?p}"
          using less.prems(2) here by (intro ray_from_last) (simp_all add: open_cell_def)
        with True run next_blast show ?thesis by simp
      next
        case False
        then have open_here: "open_cell c ?p" using True by (simp add: open_cell_def)
        have "?k < 255" using on_board_step_less [OF c(2) d c(3)] True by blast
        then have Suc: "unat (step + 1) = Suc ?k" by (rule unat_Suc_u8)
        have "\<exists>t. ?go (step + 1) ?s' = Some t \<and>
            blasted (B \<union> {?p} \<union> ray_from c b d (unat (step + 1))) x c (ctx t)"
        proof (rule less.hyps [OF _ next_blast])
          show "255 - unat (step + 1) < 255 - ?k" using \<open>?k < 255\<close> Suc by simp
          show "1 \<le> unat (step + 1)" using Suc by simp
          show "step_pos b d j \<notin> B \<union> {?p}" if "unat (step + 1) \<le> j" for j
            using that Suc less.prems(2,3) step_pos_apart [OF d d, of j ?k b] by auto
          show "open_cell c (step_pos b d i)" if "1 \<le> i" "i < unat (step + 1)" for i
            using that Suc less.prems(4) open_here by (cases "i = ?k") auto
        qed
        then show ?thesis
          using False run ray_from_Suc [OF here] Suc by simp
      qed
    qed
  qed
qed


lemma explode_rays:
  assumes c: "arrays_ok c" "board_ok c" "in_map c (bm_row b) (bm_col b)"
    and "set ds \<subseteq> {0..<4}" and "distinct ds" and "blasted B x c (ctx s)"
    and "\<And>d j. d \<in> set ds \<Longrightarrow> 1 \<le> j \<Longrightarrow> step_pos b d j \<notin> B"
  shows "\<exists>t. for_opt ds (\<lambda>dir s. explode_dir (explosion_dr ! dir) (explosion_dc ! dir) b x 1 s) s = Some t \<and>
    blasted (B \<union> (\<Union>d \<in> set ds. ray c b d)) x c (ctx t)"
  using assms(4-7)
proof (induction ds arbitrary: B s)
  case Nil
  then show ?case by simp
next
  case (Cons d ds)
  have d: "d < 4" using Cons.prems(1) by simp
  have "\<exists>t. explode_dir (explosion_dr ! d) (explosion_dc ! d) b x 1 s = Some t \<and>
      blasted (B \<union> ray_from c b d (unat (1 :: u8))) x c (ctx t)"
    using Cons.prems(4) by (intro explode_dir_ray [OF c d Cons.prems(3)]) auto
  then obtain t where t: "explode_dir (explosion_dr ! d) (explosion_dc ! d) b x 1 s = Some t"
    "blasted (B \<union> ray c b d) x c (ctx t)"
    using ray_from_1 [of c b d] by auto
  have "step_pos b d' j \<notin> B \<union> ray c b d" if "d' \<in> set ds" "1 \<le> j" for d' j
    using that Cons.prems(1,2,4) step_pos_apart [OF _ d that(2), of d' _ b]
    by (auto simp: ray_def in_ray_def)
  from Cons.IH [OF _ _ t(2) this] Cons.prems(1,2)
  obtain u where "for_opt ds (\<lambda>dir s. explode_dir (explosion_dr ! dir) (explosion_dc ! dir) b x 1 s) t = Some u"
    "blasted (B \<union> ray c b d \<union> (\<Union>d \<in> set ds. ray c b d)) x c (ctx u)" by auto
  with t(1) show ?case by (simp add: Un_assoc)
qed

text \<open>A ray is a segment that ends at the radius, at a soft block, or before a hard block or the border.\<close>

lemma in_ray_down: "in_ray c b d j \<Longrightarrow> 1 \<le> i \<Longrightarrow> i \<le> j \<Longrightarrow> in_ray c b d i"
  by (cases "i = j") (auto simp: in_ray_def open_cell_def)

lemma ray_segment:
  "\<exists>n \<le> unat (bm_radius b). ray c b d = step_pos b d ` {1..n} \<and>
    (\<forall>j \<in> {1..n}. on_board c (step_pos b d j) \<and> cell_at c (step_pos b d j) \<noteq> CELL_HARD \<and>
       (j < n \<longrightarrow> cell_at c (step_pos b d j) \<noteq> CELL_SOFT)) \<and>
    (n = unat (bm_radius b) \<or> 0 < n \<and> cell_at c (step_pos b d n) = CELL_SOFT \<or>
       \<not> on_board c (step_pos b d (Suc n)) \<or> cell_at c (step_pos b d (Suc n)) = CELL_HARD)"
proof -
  have sub: "{j. in_ray c b d j} \<subseteq> {1..unat (bm_radius b)}" by (auto simp: in_ray_def)
  obtain n where n: "{j. in_ray c b d j} = {1..n}"
  proof (cases "{j. in_ray c b d j} = {}")
    case True
    then show ?thesis using that [of 0] by simp
  next
    case False
    let ?m = "Max {j. in_ray c b d j}"
    have fin: "finite {j. in_ray c b d j}" using sub finite_subset by blast
    have "in_ray c b d ?m" using Max_in [OF fin False] by simp
    then have "{1..?m} \<subseteq> {j. in_ray c b d j}" using in_ray_down by auto
    moreover have "{j. in_ray c b d j} \<subseteq> {1..?m}" using Max_ge [OF fin] by (auto simp: in_ray_def)
    ultimately show ?thesis using that by blast
  qed
  then have iff: "in_ray c b d j \<longleftrightarrow> 1 \<le> j \<and> j \<le> n" for j by auto
  have le: "n \<le> unat (bm_radius b)" using sub unfolding n by (cases n) auto
  have cells: "on_board c (step_pos b d j) \<and> cell_at c (step_pos b d j) \<noteq> CELL_HARD \<and>
       (j < n \<longrightarrow> cell_at c (step_pos b d j) \<noteq> CELL_SOFT)" if "j \<in> {1..n}" for j
    using iff [of j] iff [of n] that unfolding in_ray_def open_cell_def by auto
  have "\<not> in_ray c b d (Suc n)" using iff [of "Suc n"] by simp
  then have "n = unat (bm_radius b) \<or> \<not> on_board c (step_pos b d (Suc n)) \<or>
      cell_at c (step_pos b d (Suc n)) = CELL_HARD \<or> (\<exists>i \<in> {1..n}. \<not> open_cell c (step_pos b d i))"
    using le unfolding in_ray_def by (auto simp: atLeastLessThanSuc_atLeastAtMost not_le)
  moreover have "0 < n \<and> cell_at c (step_pos b d n) = CELL_SOFT" if "i \<in> {1..n}" "\<not> open_cell c (step_pos b d i)" for i
    using that cells [OF that(1)] by (cases "i = n") (auto simp: open_cell_def)
  ultimately have last: "n = unat (bm_radius b) \<or> 0 < n \<and> cell_at c (step_pos b d n) = CELL_SOFT \<or>
       \<not> on_board c (step_pos b d (Suc n)) \<or> cell_at c (step_pos b d (Suc n)) = CELL_HARD"
    by blast
  have "ray c b d = step_pos b d ` {1..n}" by (simp only: ray_def n)
  then show ?thesis using le cells last by blast
qed

lemma explode_dir_segment:
  assumes c: "arrays_ok (ctx s)" "board_ok (ctx s)" "in_map (ctx s) (bm_row b) (bm_col b)" and d: "d < 4"
  shows "\<exists>t. explode_dir (explosion_dr ! d) (explosion_dc ! d) b x 1 s = Some t \<and>
    blasted (ray (ctx s) b d) x (ctx s) (ctx t)"
  using explode_dir_ray [OF c d blasted_refl, where x = x and step = 1] c(2) ray_from_1 [of "ctx s" b d]
  by (simp add: board_ok_def)
section \<open>One bomb\<close>

text \<open>The explosion table after the end of the explosion on cell \<open>idx\<close> is scheduled.\<close>

definition scheduled :: "server_ctx_t \<Rightarrow> u16 \<Rightarrow> explosion_t list" where
  "scheduled c idx =
     (if explosion_duration_ticks c = 0 then explosions c
      else case first_index MAX_BOMBS (\<lambda>i. \<not> ex_active (explosions c ! i)) of
        Some i \<Rightarrow> (explosions c)[i := \<lparr>ex_active = True, ex_cell_index = idx,
                     ex_remaining_ticks = explosion_duration_ticks c\<rparr>]
      | None \<Rightarrow> explosions c)"

lemma schedule_ctx: "ctx (schedule_explosion_end idx s) = (ctx s)\<lparr>explosions := scheduled (ctx s) idx\<rparr>"
  by (simp add: schedule_explosion_end_def scheduled_def Let_def split: option.split)

text \<open>The owner gets the bomb back.\<close>

definition refunded :: "u8 \<Rightarrow> nat \<Rightarrow> player_t \<Rightarrow> player_t" where
  "refunded oid i p = (if of_nat (Suc i) = oid \<and> unat (pl_bomb_count p) < 200
     then p\<lparr>pl_bomb_count := pl_bomb_count p + 1\<rparr> else p)"

definition exploded :: "server_ctx_t \<Rightarrow> nat \<Rightarrow> server_ctx_t \<Rightarrow> bool" where
  "exploded c x c' \<longleftrightarrow>
     (let b = bombs c ! x; B = blast_area c b; centre = pos_of (bm_row b) (bm_col b) in
      players c' = imap (\<lambda>i p. refunded (bm_owner_id b) i (killed_in (clients c) B i p)) (players c) \<and>
      bombs c' = (imap (chained_in B x) (bombs c))[x := zero_bomb] \<and>
      map_rows (game_map c') = map_rows (game_map c) \<and> map_cols (game_map c') = map_cols (game_map c) \<and>
      wf_map (game_map c') \<and>
      (\<forall>r k. if pos_of r k = centre then gs_cell_get (state c') r k = CELL_EMPTY
             else cell_blast (pos_of r k \<in> B) (gs_cell_get (state c) r k) (gs_cell_get (state c') r k)) \<and>
      explosions c' = scheduled c (make_cell_index (bm_row b) (bm_col b) (map_cols (game_map c))) \<and>
      rest c' = (rest c)\<lparr>explosions := explosions c'\<rparr>)"

lemma imap_update:
  "i < length xs \<Longrightarrow> (imap f xs)[i := g (f i (xs ! i))] = imap (\<lambda>j x. if j = i then g (f j x) else f j x) xs"
  by (rule nth_equalityI) (auto simp: nth_list_update)

lemma slot_of_id:
  assumes "j < 255" and "oid \<noteq> (0 :: u8)"
  shows "of_nat (Suc j) = oid \<longleftrightarrow> j = unat oid - 1"
proof -
  have "unat (of_nat (Suc j) :: u8) = Suc j" using assms(1) by (intro unat_of_nat_u8) simp
  moreover have "0 < unat oid" using assms(2) by (simp add: unat_gt_0)
  ultimately show ?thesis by (auto simp del: of_nat_Suc simp: word_unat_eq_iff)
qed

lemma find_slot:
  assumes "ids_ok c" and "oid \<noteq> 0" and "unat oid \<le> MAX_PLAYERS" and "map pl_id ps = map pl_id (players c)"
    "length (players c) = MAX_PLAYERS" and "gs_players st = ps"
  shows "gs_find_player_slot_by_id st oid = Some (unat oid - 1)"
proof -
  have id: "pl_id (ps ! i) = of_nat (Suc i)" if "i < 8" for i
    using assms(1,4,5) that by (metis ids_ok_def length_map nth_map)
  have "0 < unat oid" using assms(2) by (simp add: unat_gt_0)
  then show ?thesis
    using assms(2,3,6) id slot_of_id [of _ oid] unfolding gs_find_player_slot_by_id_def
    by (intro first_index_eqI) (auto simp del: of_nat_Suc)
qed


text \<open>What follows the rays: the bomb's own cell, the bomb, its owner and the explosion table.\<close>

lemma refund_owner_ctx:
  assumes "gs_find_player_slot_by_id (state (ctx s)) oid = Some (unat oid - 1)"
    and "oid \<noteq> 0" "unat oid \<le> MAX_PLAYERS" "length (players (ctx s)) = MAX_PLAYERS"
  shows "ctx (refund_owner oid s) =
    (ctx s)\<lparr>state := (state (ctx s))\<lparr>gs_players := imap (refunded oid) (players (ctx s))\<rparr>\<rparr>"
proof -
  let ?ps = "players (ctx s)" and ?slot = "unat oid - 1"
  have "?slot < length ?ps" using assms(2-4) by (simp add: unat_gt_0)
  then have "imap (refunded oid) ?ps = (if unat (pl_bomb_count (?ps ! ?slot)) < 200
      then ?ps[?slot := (?ps ! ?slot)\<lparr>pl_bomb_count := pl_bomb_count (?ps ! ?slot) + 1\<rparr>] else ?ps)"
    using assms(4) slot_of_id [OF _ assms(2)]
    by (intro nth_equalityI) (auto simp: nth_list_update refunded_def simp del: of_nat_Suc)
  then show ?thesis
    by (simp add: refund_owner_def assms(1) upd_player_def upd_state_def)
qed

lemma finish_explosion_ctx:
  assumes blast: "blasted (blast_area c b) x c (ctx s)" and inv: "arrays_ok c" "ids_ok c"
    and b: "in_map c (bm_row b) (bm_col b)" "bm_owner_id b \<noteq> 0" "unat (bm_owner_id b) \<le> MAX_PLAYERS"
    and x: "x < MAX_BOMBS" "b = bombs c ! x"
  shows "exploded c x (ctx (finish_explosion b x s))"
proof -
  let ?row = "bm_row b" and ?col = "bm_col b" and ?B = "blast_area c b" and ?oid = "bm_owner_id b"
  let ?idx = "make_cell_index ?row ?col (map_cols (game_map c))"
  let ?ps = "imap (killed_in (clients c) ?B) (players c)"
  note bl = blastedD [OF blast] and rf = rest_fields [OF blastedD(1) [OF blast]]
  have "gs_in_bounds (state (ctx s)) ?row ?col"
    using b(1) bl(4,5,6) by (simp add: wf_in_bounds in_map_def)
  then obtain st where st: "gs_cell_set (state (ctx s)) ?row ?col CELL_EMPTY = Some st"
    using gs_cell_set_Some by blast
  note fr = gs_cell_set_frame [OF st] and get = gs_cell_get_set [OF bl(6) st]
    and wf = gs_cell_set_wf [OF bl(6) st]
  define s1 where "s1 = upd_ctx (upd_state (\<lambda>st. gs_clear_bomb st x)) (cell_set ?row ?col CELL_EMPTY s)"
  have c1: "ctx s1 = (ctx s)\<lparr>state := st\<lparr>gs_bombs := (gs_bombs st)[x := zero_bomb]\<rparr>\<rparr>"
    using x(1) by (simp add: s1_def cell_set_ctx st upd_state_def gs_clear_bomb_def)
  have len: "length (players c) = 8" using inv(1) by (simp add: arrays_ok_def)
  have ps: "players (ctx s1) = ?ps" unfolding c1 by (simp add: fr bl(2))
  have "map pl_id ?ps = map pl_id (players c)"
    by (rule map_imap) (simp add: killed_in_def)
  from find_slot [OF inv(2) b(2,3) this len ps]
  have "ctx (refund_owner ?oid s1) =
      (ctx s1)\<lparr>state := (state (ctx s1))\<lparr>gs_players := imap (refunded ?oid) ?ps\<rparr>\<rparr>"
    using b(2,3) len ps by (subst refund_owner_ctx) simp_all
  then have c2: "ctx (refund_owner ?oid s1) = (ctx s)\<lparr>state := st\<lparr>gs_bombs := (gs_bombs st)[x := zero_bomb],
      gs_players := imap (refunded ?oid) ?ps\<rparr>\<rparr>"
    by (simp add: c1)
  have "scheduled (ctx (refund_owner ?oid s1)) ?idx = scheduled c ?idx"
    by (simp add: scheduled_def c2 rf cong: option.case_cong)
  then have fin: "ctx (finish_explosion b x s) = (ctx s)\<lparr>state := st\<lparr>gs_bombs := (gs_bombs st)[x := zero_bomb],
      gs_players := imap (refunded ?oid) ?ps\<rparr>, explosions := scheduled c ?idx\<rparr>"
    unfolding finish_explosion_def Let_def s1_def [symmetric] using bl(5) fr(6)
    by (simp add: schedule_ctx c2)
  have "rest (ctx (finish_explosion b x s)) = (rest (ctx s))\<lparr>explosions := scheduled c ?idx\<rparr>"
    unfolding fin using fr(3,4) by (simp add: rest_def)
  then have "rest (ctx (finish_explosion b x s)) = (rest c)\<lparr>explosions := scheduled c ?idx\<rparr>"
    by (simp only: bl(1))
  moreover have "gs_cell_get (state (ctx (finish_explosion b x s))) r k = gs_cell_get st r k" for r k
    unfolding fin by (simp add: gs_cell_get_def gs_in_bounds_def)
  ultimately show ?thesis
    using x wf bl(7) fr(6,7) unfolding exploded_def Let_def x(2) [symmetric]
    by (simp add: fin fr bl get imap_imap pos_of_inj)
qed


text \<open>The message that an explosion starts, and the spread of its fire.\<close>

definition explosion_told :: "bomb_t \<Rightarrow> server_sys \<Rightarrow> server_sys" where
  "explosion_told b s = broadcast_encoded (msg_code MSG_EXPLOSION_START) SERVER_ENDPOINT_ID
     (payload_of proto_encode_explosion_start_payload 16
        \<lparr>es_radius = bm_radius b, es_cell_index = make_cell_index (bm_row b) (bm_col b) (map_cols (game_map (ctx s)))\<rparr>) (-1) s"

lemma explosion_told_ctx [simp]: "ctx (explosion_told b s) = ctx s"
  by (simp add: explosion_told_def)

lemma explosion_spreads:
  fixes s :: server_sys and x :: nat
  defines "b \<equiv> bombs (ctx s) ! x"
  assumes inv: "arrays_ok (ctx s)" "board_ok (ctx s)" and b: "in_map (ctx s) (bm_row b) (bm_col b)"
  shows "\<exists>t. for_opt [0..<4] (\<lambda>dir s. explode_dir (explosion_dr ! dir) (explosion_dc ! dir) b x 1 s)
      (snd (apply_explosion_cell (bm_row b) (bm_col b) x False (explosion_told b s))) = Some t \<and>
    blasted (blast_area (ctx s) b) x (ctx s) (ctx t)"
proof -
  let ?centre = "{pos_of (bm_row b) (bm_col b)}"
  have "blasted ?centre x (ctx s) (ctx (snd (apply_explosion_cell (bm_row b) (bm_col b) x False (explosion_told b s))))"
    using blasted_cell(1) [of "explosion_told b s" "bm_row b" "bm_col b" x False] inv(1,2) by (simp add: arrays_ok_def board_ok_def)
  moreover have "step_pos b d j \<notin> ?centre" if "d \<in> set [0..<4]" "1 \<le> j" for d j
    using that step_pos_centre by auto
  ultimately show ?thesis
    using explode_rays [OF inv b, of "[0..<4]" ?centre x] by (auto simp: blast_area_def)
qed

text \<open>The whole explosion: it returns, and its effect is \<open>exploded\<close>.\<close>

lemma process_explosion:
  assumes inv: "arrays_ok (ctx s)" "board_ok (ctx s)" "ids_ok (ctx s)"
    and b: "in_map (ctx s) (bm_row (bombs (ctx s) ! x)) (bm_col (bombs (ctx s) ! x))"
      "bm_owner_id (bombs (ctx s) ! x) \<noteq> 0" "unat (bm_owner_id (bombs (ctx s) ! x)) \<le> MAX_PLAYERS"
    and x: "x < MAX_BOMBS"
  shows "\<exists>t. server_process_bomb_explosion x s = Some t \<and> exploded (ctx s) x (ctx t)"
proof -
  let ?b = "bombs (ctx s) ! x"
  obtain s2 where s2: "for_opt [0..<4] (\<lambda>dir s. explode_dir (explosion_dr ! dir) (explosion_dc ! dir) ?b x 1 s)
      (snd (apply_explosion_cell (bm_row ?b) (bm_col ?b) x False (explosion_told ?b s))) = Some s2"
    "blasted (blast_area (ctx s) ?b) x (ctx s) (ctx s2)"
    using explosion_spreads [OF inv(1,2) b(1)] by blast
  have "server_process_bomb_explosion x s = Some (finish_explosion ?b x s2)"
    using x b(2) s2(1) unfolding server_process_bomb_explosion_def Let_def explosion_told_def [symmetric] by simp
  moreover have "exploded (ctx s) x (ctx (finish_explosion ?b x s2))"
    using finish_explosion_ctx [OF s2(2) inv(1,3) b x refl] .
  ultimately show ?thesis by blast
qed


section \<open>The invariant\<close>

lemma explodedD:
  fixes c :: server_ctx_t and x :: nat
  defines "b \<equiv> bombs c ! x"
  assumes "exploded c x c'"
  shows "players c' = imap (\<lambda>i p. refunded (bm_owner_id b) i (killed_in (clients c) (blast_area c b) i p)) (players c)"
    "bombs c' = (imap (chained_in (blast_area c b) x) (bombs c))[x := zero_bomb]"
    "map_rows (game_map c') = map_rows (game_map c)" "map_cols (game_map c') = map_cols (game_map c)"
    "wf_map (game_map c')"
    "r \<noteq> bm_row b \<or> k \<noteq> bm_col b \<Longrightarrow>
      cell_blast (pos_of r k \<in> blast_area c b) (gs_cell_get (state c) r k) (gs_cell_get (state c') r k)"
    "gs_cell_get (state c') (bm_row b) (bm_col b) = CELL_EMPTY"
    "explosions c' = scheduled c (make_cell_index (bm_row b) (bm_col b) (map_cols (game_map c)))"
    "rest c' = (rest c)\<lparr>explosions := explosions c'\<rparr>"
  using assms(2) unfolding exploded_def Let_def b_def by (auto simp: pos_of_inj split: if_splits)

lemma exploded_rest:
  assumes "exploded c x c'"
  shows "clients c' = clients c" "gs_status (state c') = gs_status (state c)"
    "gs_tick (state c') = gs_tick (state c)" "spawn_defined c' = spawn_defined c"
    "spawn_rows c' = spawn_rows c" "spawn_cols c' = spawn_cols c" "initial_cells c' = initial_cells c"
    "initial_cell_count c' = initial_cell_count c" "default_speed c' = default_speed c"
    "default_bomb_radius c' = default_bomb_radius c"
    "default_bomb_timer_ticks c' = default_bomb_timer_ticks c"
    "explosion_duration_ticks c' = explosion_duration_ticks c" "server_id c' = server_id c"
proof -
  have eq: "rest (c'\<lparr>explosions := []\<rparr>) = rest (c\<lparr>explosions := []\<rparr>)"
    using arg_cong [OF explodedD(9) [OF assms], of "\<lambda>c. c\<lparr>explosions := []\<rparr>"]
    by (cases c; cases c') (simp add: rest_def)
  show "clients c' = clients c" "gs_status (state c') = gs_status (state c)"
    "gs_tick (state c') = gs_tick (state c)" "spawn_defined c' = spawn_defined c"
    "spawn_rows c' = spawn_rows c" "spawn_cols c' = spawn_cols c" "initial_cells c' = initial_cells c"
    "initial_cell_count c' = initial_cell_count c" "default_speed c' = default_speed c"
    "default_bomb_radius c' = default_bomb_radius c"
    "default_bomb_timer_ticks c' = default_bomb_timer_ticks c"
    "explosion_duration_ticks c' = explosion_duration_ticks c" "server_id c' = server_id c"
    using rest_fields [OF eq] by simp_all
qed

text \<open>What players and bombs keep.\<close>

lemma player_blast_fields [simp]:
  "pl_id (refunded oid i p) = pl_id p" "pl_row (refunded oid i p) = pl_row p"
  "pl_col (refunded oid i p) = pl_col p" "pl_alive (refunded oid i p) = pl_alive p"
  "pl_lives (refunded oid i p) = pl_lives p" "pl_ready (refunded oid i p) = pl_ready p"
  "pl_id (killed_in cls B i p) = pl_id p" "pl_row (killed_in cls B i p) = pl_row p"
  "pl_col (killed_in cls B i p) = pl_col p" "pl_ready (killed_in cls B i p) = pl_ready p"
  "pl_bomb_count (killed_in cls B i p) = pl_bomb_count p"
  by (simp_all add: refunded_def killed_in_def)

lemma bomb_blast_fields [simp]:
  "bm_owner_id (chained_in B x i b) = bm_owner_id b" "bm_row (chained_in B x i b) = bm_row b"
  "bm_col (chained_in B x i b) = bm_col b" "bm_radius (chained_in B x i b) = bm_radius b"
  by (simp_all add: chained_in_def)

lemma killed_in_alive:
  "pl_alive (killed_in cls B i p) \<longleftrightarrow>
     pl_alive p \<and> \<not> (cl_active (cls ! i) \<and> pos_of (pl_row p) (pl_col p) \<in> B)"
  by (auto simp: killed_in_def)

lemma zero_bomb_fields [simp]: "bm_owner_id zero_bomb = 0" "bm_timer_ticks zero_bomb = 0"
  by (simp_all add: zero_bomb_def)

lemma exploded_bomb:
  assumes "exploded c x c'" "i < length (bombs c)" "bm_owner_id (bombs c' ! i) \<noteq> 0"
  shows "i \<noteq> x" "bombs c' ! i = chained_in (blast_area c (bombs c ! x)) x i (bombs c ! i)"
    "bm_owner_id (bombs c ! i) \<noteq> 0"
proof -
  show "i \<noteq> x" using assms by (auto simp: explodedD(2))
  then show "bombs c' ! i = chained_in (blast_area c (bombs c ! x)) x i (bombs c ! i)"
    using assms(1,2) by (simp add: explodedD(2))
  with assms(3) show "bm_owner_id (bombs c ! i) \<noteq> 0" by simp
qed

lemma own_bombs_exploded:
  assumes "exploded c x c'" "x < length (bombs c)" "oid \<noteq> 0"
  shows "own_bombs c' oid + (if oid = bm_owner_id (bombs c ! x) then 1 else 0) = own_bombs c oid"
proof -
  let ?bs = "imap (chained_in (blast_area c (bombs c ! x)) x) (bombs c)"
  let ?mine = "\<lambda>b. bm_owner_id b = oid"
  have count: "length (filter ?mine bs) = length (filter (\<lambda>y. y = oid) (map bm_owner_id bs))" for bs
    by (simp add: filter_map o_def)
  have "map bm_owner_id ?bs = map bm_owner_id (bombs c)" by (rule map_imap) simp
  then have same: "length (filter ?mine ?bs) = own_bombs c oid"
    unfolding own_bombs_def count by simp
  show ?thesis
  proof (cases "oid = bm_owner_id (bombs c ! x)")
    case True
    then show ?thesis
      using filter_update_absent [of x ?bs ?mine zero_bomb] same assms
      by (simp add: own_bombs_def explodedD(2))
  next
    case False
    then show ?thesis
      using filter_update_neither [of ?mine ?bs x zero_bomb] same assms
      by (simp add: own_bombs_def explodedD(2))
  qed
qed

lemma exploded_arrays: "exploded c x c' \<Longrightarrow> arrays_ok c \<Longrightarrow> arrays_ok c'"
  by (simp add: arrays_ok_def explodedD(1,2,8) exploded_rest scheduled_def split: option.split)

lemma exploded_board: "exploded c x c' \<Longrightarrow> board_ok c \<Longrightarrow> board_ok c'"
  by (simp add: board_ok_def explodedD(3-5) exploded_rest)

lemma exploded_in_map: "exploded c x c' \<Longrightarrow> in_map c' r k \<longleftrightarrow> in_map c r k"
  by (simp add: in_map_def explodedD(3,4))

lemma exploded_ids: "exploded c x c' \<Longrightarrow> arrays_ok c \<Longrightarrow> ids_ok c \<Longrightarrow> ids_ok c'"
  by (simp add: ids_ok_def arrays_ok_def explodedD(1) exploded_rest)

lemma exploded_places: "exploded c x c' \<Longrightarrow> arrays_ok c \<Longrightarrow> places_ok c \<Longrightarrow> places_ok c'"
  by (simp add: places_ok_def arrays_ok_def explodedD(1) exploded_rest exploded_in_map)

lemma exploded_life: "exploded c x c' \<Longrightarrow> arrays_ok c \<Longrightarrow> life_ok c \<Longrightarrow> life_ok c'"
  by (simp add: life_ok_def arrays_ok_def explodedD(1) exploded_rest killed_in_def)

lemma exploded_names: "exploded c x c' \<Longrightarrow> names_ok c \<Longrightarrow> names_ok c'"
  by (simp add: names_ok_def exploded_rest)

lemma exploded_fds: "exploded c x c' \<Longrightarrow> fds_ok c \<Longrightarrow> fds_ok c'"
  by (simp add: fds_ok_def exploded_rest)

lemma exploded_bombs:
  assumes e: "exploded c x c'" and "arrays_ok c" "bombs_ok c" and x: "x < MAX_BOMBS" "bm_owner_id (bombs c ! x) \<noteq> 0"
  shows "bombs_ok c'"
proof -
  have len: "length (bombs c) = 64" using assms(2) by (simp add: arrays_ok_def)
  note eb = exploded_bomb [OF e, unfolded len]
  have "unat (bm_owner_id (bombs c' ! i)) \<le> 8 \<and> in_map c' (bm_row (bombs c' ! i)) (bm_col (bombs c' ! i)) \<and>
      gs_cell_get (state c') (bm_row (bombs c' ! i)) (bm_col (bombs c' ! i)) = CELL_BOMB"
    if i: "i < 64" "bm_owner_id (bombs c' ! i) \<noteq> 0" for i
  proof -
    note ei = eb [OF i]
    have old: "unat (bm_owner_id (bombs c ! i)) \<le> 8" "in_map c (bm_row (bombs c ! i)) (bm_col (bombs c ! i))"
      "gs_cell_get (state c) (bm_row (bombs c ! i)) (bm_col (bombs c ! i)) = CELL_BOMB"
      using assms(3) i(1) ei(3) by (simp_all add: bombs_ok_def)
    have "bm_row (bombs c ! i) \<noteq> bm_row (bombs c ! x) \<or> bm_col (bombs c ! i) \<noteq> bm_col (bombs c ! x)"
      using assms(3) i(1) x ei(1,3) unfolding bombs_ok_def by blast
    from explodedD(6) [OF e this] old ei(2) show ?thesis
      by (simp add: exploded_in_map [OF e] cell_blast_def)
  qed
  moreover have "i = j" if "i < 64" "j < 64" "bm_owner_id (bombs c' ! i) \<noteq> 0" "bm_owner_id (bombs c' ! j) \<noteq> 0"
      "bm_row (bombs c' ! i) = bm_row (bombs c' ! j)" "bm_col (bombs c' ! i) = bm_col (bombs c' ! j)" for i j
    using assms(3) that eb [OF that(1,3)] eb [OF that(2,4)] unfolding bombs_ok_def by (metis bomb_blast_fields(2,3))
  ultimately show ?thesis unfolding bombs_ok_def by blast
qed

lemma exploded_stock:
  assumes e: "exploded c x c'" and "arrays_ok c" "stock_ok c" and x: "x < MAX_BOMBS" "bm_owner_id (bombs c ! x) \<noteq> 0"
  shows "stock_ok c'"
proof -
  have len: "x < length (bombs c)" "length (players c) = 8" using assms(2) x(1) by (simp_all add: arrays_ok_def)
  note own = own_bombs_exploded [OF e len(1)]
  have "own_bombs c' oid \<le> 1" if "oid \<noteq> 0" for oid
    using own [OF that] assms(3) that unfolding stock_ok_def by (metis le_add1 le_trans)
  moreover have "unat (pl_bomb_count (players c' ! i)) + own_bombs c' (of_nat (Suc i)) = 1"
    if i: "i < 8" and alive: "pl_alive (players c' ! i)" for i
  proof -
    have "pl_alive (players c ! i)"
      using alive i len(2) by (simp add: explodedD(1) [OF e] killed_in_alive)
    then have old: "unat (pl_bomb_count (players c ! i)) + own_bombs c (of_nat (Suc i)) = 1"
      using assms(3) i by (simp add: stock_ok_def del: of_nat_Suc)
    have "unat (of_nat (Suc i) :: u8) = Suc i" using i by (intro unat_of_nat_u8) simp
    then have "(of_nat (Suc i) :: u8) \<noteq> 0" by (metis nat.distinct(1) unat_0)
    note own = own [OF this]
    have count: "pl_bomb_count (players c' ! i) = (if of_nat (Suc i) = bm_owner_id (bombs c ! x)
        then pl_bomb_count (players c ! i) + 1 else pl_bomb_count (players c ! i))"
      using i len(2) old by (auto simp: explodedD(1) [OF e] refunded_def simp del: of_nat_Suc)
    show ?thesis
      using own old unat_Suc_u8 [of "pl_bomb_count (players c ! i)"] unfolding count
      by (auto split: if_splits simp del: of_nat_Suc)
  qed
  ultimately show ?thesis unfolding stock_ok_def by blast
qed

lemma exploded_explosions:
  assumes e: "exploded c x c'" and "arrays_ok c" "board_ok c" "explosions_ok c"
    and b: "in_map c (bm_row (bombs c ! x)) (bm_col (bombs c ! x))"
  shows "explosions_ok c'"
proof -
  have "unat (make_cell_index (bm_row (bombs c ! x)) (bm_col (bombs c ! x)) (map_cols (game_map c))) <
      unat (map_rows (game_map c)) * unat (map_cols (game_map c))"
    using b assms(3) by (intro make_cell_index_less) (simp_all add: in_map_def board_ok_def wf_map_def)
  moreover have here: "gs_cell_get (state c') r k \<in> {CELL_EMPTY, CELL_BOMB}"
    if "in_map c r k" "make_cell_index r k (map_cols (game_map c)) =
      make_cell_index (bm_row (bombs c ! x)) (bm_col (bombs c ! x)) (map_cols (game_map c))" for r k
  proof -
    have "r = bm_row (bombs c ! x) \<and> k = bm_col (bombs c ! x)"
      using that b assms(3) by (intro make_cell_index_inj [where rows = "map_rows (game_map c)" and cols = "map_cols (game_map c)"])
        (auto simp: in_map_def board_ok_def wf_map_def)
    then show ?thesis using explodedD(7) [OF e] by simp
  qed
  moreover have kept: "gs_cell_get (state c') r k \<in> {CELL_EMPTY, CELL_BOMB}"
    if "gs_cell_get (state c) r k \<in> {CELL_EMPTY, CELL_BOMB}" for r k
    using that explodedD(6) [OF e, of r k] explodedD(7) [OF e]
    by (cases "r = bm_row (bombs c ! x) \<and> k = bm_col (bombs c ! x)") (auto simp: cell_blast_def)
  ultimately show ?thesis
    using assms(2,4) here kept unfolding explosions_ok_def explodedD(3,4,8) [OF e] exploded_in_map [OF e] scheduled_def
    by (auto simp: arrays_ok_def nth_update_cases split: option.splits)
qed

lemma exploded_inv:
  assumes e: "exploded c x c'" and inv: "server_inv c" and run: "gs_status (state c) = GAME_RUNNING"
    and x: "x < MAX_BOMBS" "bm_owner_id (bombs c ! x) \<noteq> 0"
  shows "server_inv c'" and "gs_status (state c') = GAME_RUNNING"
proof -
  note I = server_invD [OF inv]
  have b: "in_map c (bm_row (bombs c ! x)) (bm_col (bombs c ! x))" using I(6) x by (simp add: bombs_ok_def)
  show run': "gs_status (state c') = GAME_RUNNING" using run exploded_rest(2) [OF e] by simp
  then have "lobby_ok c'" by (simp add: lobby_ok_def)
  then show "server_inv c'"
    using exploded_arrays [OF e I(1)] exploded_board [OF e I(2)] exploded_ids [OF e I(1,3)]
      exploded_places [OF e I(1,4)] exploded_life [OF e I(1,5)] exploded_bombs [OF e I(1,6) x]
      exploded_stock [OF e I(1,7) x] exploded_explosions [OF e I(1,2,9) b] exploded_names [OF e I(10)]
      exploded_fds [OF e I(11)]
    by (intro server_invI)
qed

text \<open>An explosion takes one bomb off the board and makes others due, never fewer.\<close>

definition bombs_left :: "server_ctx_t \<Rightarrow> nat" where
  "bombs_left c = length (filter (\<lambda>b. bm_owner_id b \<noteq> 0) (bombs c))"

lemma exploded_bombs_left:
  assumes "exploded c x c'" "x < length (bombs c)" "bm_owner_id (bombs c ! x) \<noteq> 0"
  shows "Suc (bombs_left c') = bombs_left c"
proof -
  let ?bs = "imap (chained_in (blast_area c (bombs c ! x)) x) (bombs c)"
  have count: "length (filter (\<lambda>b. bm_owner_id b \<noteq> 0) bs) = length (filter (\<lambda>y. y \<noteq> 0) (map bm_owner_id bs))" for bs
    by (simp add: filter_map o_def)
  have "map bm_owner_id ?bs = map bm_owner_id (bombs c)" by (rule map_imap) simp
  then show ?thesis
    using filter_update_absent [of x ?bs "\<lambda>b. bm_owner_id b \<noteq> 0" zero_bomb] assms
    by (simp add: bombs_left_def explodedD(2) count)
qed

end
