(* ===== verification/Tick.thy ===== *)
theory Tick
  imports Explosion
begin

text \<open>
  The server tick: closed forms of the two timer loops, the chain reaction as a sequence of
  explosions, its termination, and the end of the round.
\<close>

section \<open>Timers\<close>

definition explosion_ticked :: "explosion_t \<Rightarrow> explosion_t" where
  "explosion_ticked e =
     (if \<not> ex_active e then e
      else let e = (if ex_remaining_ticks e > 0 then e\<lparr>ex_remaining_ticks := ex_remaining_ticks e - 1\<rparr> else e)
           in if ex_remaining_ticks e = 0 then e\<lparr>ex_active := False\<rparr> else e)"

definition bomb_ticked :: "bomb_t \<Rightarrow> bomb_t" where
  "bomb_ticked b = (if bm_owner_id b \<noteq> 0 \<and> bm_timer_ticks b > 0
     then b\<lparr>bm_timer_ticks := bm_timer_ticks b - 1\<rparr> else b)"

lemma process_explosion_timers_ctx:
  assumes "length (explosions (ctx s)) = MAX_BOMBS"
  shows "ctx (process_explosion_timers s) = (ctx s)\<lparr>explosions := map explosion_ticked (explosions (ctx s))\<rparr>"
proof -
  let ?loop = "\<lambda>n. for_range n (\<lambda>i es. es[i := explosion_ticked (es ! i)]) (explosions (ctx s))"
  let ?P = "\<lambda>n t. ctx t = (ctx s)\<lparr>explosions := ?loop n\<rparr> \<and> length (explosions (ctx t)) = 64"
  have "?P 64 (process_explosion_timers s)"
    unfolding process_explosion_timers_def
  proof (rule for_range_inv [where P = ?P], goal_cases)
    case (2 i t)
    then have ctx: "ctx t = (ctx s)\<lparr>explosions := ?loop i\<rparr>" and "length (explosions (ctx t)) = 64"
      by blast+
    then have "length (?loop i) = 64" unfolding ctx by simp
    then show ?case using 2(1) by (simp add: tick_explosion_def ctx Let_def explosion_ticked_def nth_list_update)
  qed (simp add: assms)
  moreover have "?loop 64 = map explosion_ticked (explosions (ctx s))"
    using for_range_update [of 64 "explosions (ctx s)" "\<lambda>_. explosion_ticked"] assms
    by (intro nth_equalityI) simp_all
  ultimately show ?thesis by simp
qed

lemma tick_bomb_timers_ctx:
  assumes "length (bombs c) = MAX_BOMBS"
  shows "tick_bomb_timers c = c\<lparr>state := (state c)\<lparr>gs_bombs := map bomb_ticked (bombs c)\<rparr>\<rparr>"
proof -
  let ?upd = "\<lambda>f. upd_state (\<lambda>st. st\<lparr>gs_bombs := f (gs_bombs st)\<rparr>)"
  have "tick_bomb_timers c = ?upd (for_range 64 (\<lambda>i bs. bs[i := bomb_ticked (bs ! i)])) c"
    unfolding tick_bomb_timers_def
    by (rule for_range_lift) (simp_all add: upd_state_def bomb_ticked_def)
  also have "for_range 64 (\<lambda>i bs. bs[i := bomb_ticked (bs ! i)]) (bombs c) = map bomb_ticked (bombs c)"
    using for_range_update [of 64 "bombs c" "\<lambda>_. bomb_ticked"] assms
    by (intro nth_equalityI) simp_all
  then have "?upd (for_range 64 (\<lambda>i bs. bs[i := bomb_ticked (bs ! i)])) c =
      c\<lparr>state := (state c)\<lparr>gs_bombs := map bomb_ticked (bombs c)\<rparr>\<rparr>"
    by (simp add: upd_state_def)
  finally show ?thesis .
qed


lemma explosion_ticked_index [simp]: "ex_cell_index (explosion_ticked e) = ex_cell_index e"
  by (simp add: explosion_ticked_def Let_def)

lemma explosion_ticked_active: "ex_active (explosion_ticked e) \<Longrightarrow> ex_active e"
  by (simp add: explosion_ticked_def Let_def split: if_splits)

lemma bomb_ticked_fields [simp]:
  "bm_owner_id (bomb_ticked b) = bm_owner_id b" "bm_row (bomb_ticked b) = bm_row b"
  "bm_col (bomb_ticked b) = bm_col b" "bm_radius (bomb_ticked b) = bm_radius b"
  by (simp_all add: bomb_ticked_def)

text \<open>The invariant reads of a bomb only its owner and its cell, and nothing of the tick.\<close>

lemma cell_get_state_cong:
  "gs_map st' = gs_map st \<Longrightarrow> gs_cell_get st' r k = gs_cell_get st r k"
  by (simp add: gs_cell_get_def gs_in_bounds_def)

lemma own_bombs_map:
  "(\<And>b. bm_owner_id (f b) = bm_owner_id b) \<Longrightarrow> bombs c' = map f (bombs c) \<Longrightarrow> own_bombs c' oid = own_bombs c oid"
  by (simp add: own_bombs_def filter_map o_def)

lemma timers_inv:
  assumes inv: "server_inv c"
    and c': "c' = c\<lparr>state := (state c)\<lparr>gs_tick := n, gs_bombs := map f (bombs c)\<rparr>, explosions := map g (explosions c)\<rparr>"
    and f: "\<And>b. bm_owner_id (f b) = bm_owner_id b" "\<And>b. bm_row (f b) = bm_row b" "\<And>b. bm_col (f b) = bm_col b"
    and g: "\<And>e. ex_cell_index (g e) = ex_cell_index e" "\<And>e. ex_active (g e) \<Longrightarrow> ex_active e"
  shows "server_inv c'"
proof -
  note I = server_invD [OF inv]
  have len: "length (bombs c) = 64" "length (explosions c) = 64" using I(1) by (simp_all add: arrays_ok_def)
  have fields: "players c' = players c" "clients c' = clients c" "game_map c' = game_map c"
      "bombs c' = map f (bombs c)" "explosions c' = map g (explosions c)"
      "gs_status (state c') = gs_status (state c)"
    by (simp_all add: c')
  have same: "in_map c' r k = in_map c r k" "gs_cell_get (state c') r k = gs_cell_get (state c) r k" for r k
    by (simp_all add: in_map_def gs_cell_get_def gs_in_bounds_def fields(3))
  have own: "own_bombs c' oid = own_bombs c oid" for oid by (rule own_bombs_map [OF f(1) fields(4)])
  have "bombs_ok c'"
    using I(6) len unfolding bombs_ok_def by (simp add: fields f same)
  moreover have ex: "ex_active (explosions c ! i)" "ex_cell_index (explosions c' ! i) = ex_cell_index (explosions c ! i)"
    if "i < 64" "ex_active (explosions c' ! i)" for i
    using g(1) g(2) [of "explosions c ! i"] that len by (simp_all add: fields)
  have "lobby_ok c'" using I(8) len ex unfolding lobby_ok_def fields(1,3,4,6) by (auto simp: f)
  moreover have "explosions_ok c'" using I(9) by (rule explosions_ok_mono) (use ex in \<open>simp_all add: fields(3) same\<close>)
  moreover have "stock_ok c'"
    using I(7) unfolding stock_ok_def by (simp add: fields own)
  moreover have "arrays_ok c'" "board_ok c'" "ids_ok c'" "places_ok c'" "life_ok c'" "names_ok c'" "fds_ok c'"
    using I(1-5,10,11) unfolding arrays_ok_def board_ok_def ids_ok_def places_ok_def life_ok_def names_ok_def fds_ok_def
    by (simp_all add: fields same) (simp_all add: c')
  ultimately show ?thesis by (intro server_invI)
qed

section \<open>The chain reaction\<close>

text \<open>One explosion of a bomb that is due, and their sequence.\<close>

definition explosion_step :: "server_ctx_t \<Rightarrow> server_ctx_t \<Rightarrow> bool" where
  "explosion_step c c' \<longleftrightarrow> (\<exists>x < MAX_BOMBS. bomb_due c x \<and> exploded c x c')"

lemma explosion_step_inv:
  assumes "explosion_step c c'" "server_inv c" "gs_status (state c) = GAME_RUNNING"
  shows "server_inv c'" "gs_status (state c') = GAME_RUNNING" "Suc (bombs_left c') = bombs_left c"
  using assms exploded_inv exploded_bombs_left server_invD(1)
  by (auto simp: explosion_step_def bomb_due_def arrays_ok_def)

lemma process_due_bomb:
  assumes inv: "server_inv (ctx s)" and due: "i < MAX_BOMBS" "bomb_due (ctx s) i"
  shows "\<exists>t. server_process_bomb_explosion i s = Some t \<and> explosion_step (ctx s) (ctx t)"
proof -
  note I = server_invD [OF inv]
  have "bm_owner_id (bombs (ctx s) ! i) \<noteq> 0" using due(2) by (simp add: bomb_due_def)
  moreover from this have "unat (bm_owner_id (bombs (ctx s) ! i)) \<le> 8"
    "in_map (ctx s) (bm_row (bombs (ctx s) ! i)) (bm_col (bombs (ctx s) ! i))"
    using I(6) due(1) by (simp_all add: bombs_ok_def)
  ultimately show ?thesis
    using process_explosion [OF I(1-3), of i] due unfolding explosion_step_def by blast
qed

definition settled :: "server_ctx_t \<Rightarrow> bool" where
  "settled c \<longleftrightarrow> (\<forall>i < MAX_BOMBS. \<not> bomb_due c i)"

lemma explode_pass_run:
  assumes "server_inv (ctx s)" "gs_status (state (ctx s)) = GAME_RUNNING" "n \<le> MAX_BOMBS"
  shows "\<exists>e t. for_opt [0..<n] (\<lambda>i (exploded, s).
       if bomb_due (ctx s) i then map_option (\<lambda>s. (True, s)) (server_process_bomb_explosion i s)
       else Some (exploded, s)) (False, s) = Some (e, t) \<and>
     explosion_step\<^sup>*\<^sup>* (ctx s) (ctx t) \<and> server_inv (ctx t) \<and> gs_status (state (ctx t)) = GAME_RUNNING \<and>
     (if e then bombs_left (ctx t) < bombs_left (ctx s) else t = s \<and> (\<forall>i < n. \<not> bomb_due (ctx s) i))"
  using assms(3)
proof (induction n)
  case 0
  show ?case using assms(1,2) by (intro exI [of _ False] exI [of _ s]) simp
next
  case (Suc n)
  then obtain e t where run: "for_opt [0..<n] (\<lambda>i (exploded, s).
       if bomb_due (ctx s) i then map_option (\<lambda>s. (True, s)) (server_process_bomb_explosion i s)
       else Some (exploded, s)) (False, s) = Some (e, t)"
    and t: "explosion_step\<^sup>*\<^sup>* (ctx s) (ctx t)" "server_inv (ctx t)" "gs_status (state (ctx t)) = GAME_RUNNING"
      "if e then bombs_left (ctx t) < bombs_left (ctx s) else t = s \<and> (\<forall>i < n. \<not> bomb_due (ctx s) i)"
    by auto
  show ?case
  proof (cases "bomb_due (ctx t) n")
    case False
    then show ?thesis using run t by (auto simp: for_opt_append less_Suc_eq)
  next
    case True
    then obtain u where u: "server_process_bomb_explosion n t = Some u" "explosion_step (ctx t) (ctx u)"
      using process_due_bomb [OF t(2) _ True] Suc.prems by auto
    have "bombs_left (ctx u) < bombs_left (ctx s)"
      using explosion_step_inv(3) [OF u(2) t(2,3)] t(4) by (auto split: if_splits)
    then show ?thesis
      using run True u t(1) explosion_step_inv(1,2) [OF u(2) t(2,3)]
      by (auto simp: for_opt_append intro: rtranclp.rtrancl_into_rtrancl)
  qed
qed

lemma explode_all_run:
  assumes "server_inv (ctx s)" "gs_status (state (ctx s)) = GAME_RUNNING"
  shows "\<exists>t. explode_all s = Some t \<and> explosion_step\<^sup>*\<^sup>* (ctx s) (ctx t) \<and> server_inv (ctx t) \<and>
    gs_status (state (ctx t)) = GAME_RUNNING \<and> settled (ctx t)"
  using assms
proof (induction "bombs_left (ctx s)" arbitrary: s rule: less_induct)
  case less
  obtain e t where pass: "explode_pass s = Some (e, t)"
    and t: "explosion_step\<^sup>*\<^sup>* (ctx s) (ctx t)" "server_inv (ctx t)" "gs_status (state (ctx t)) = GAME_RUNNING"
      "if e then bombs_left (ctx t) < bombs_left (ctx s) else t = s \<and> (\<forall>i < 64. \<not> bomb_due (ctx s) i)"
    using explode_pass_run [OF less.prems, of 64] unfolding explode_pass_def by auto
  note unfold = explode_all.simps [of s]
  show ?case
  proof (cases e)
    case True
    then show ?thesis
      using less.hyps [of t] t unfold pass by (auto intro: rtranclp_trans)
  next
    case False
    then show ?thesis using t unfold pass by (auto simp: settled_def)
  qed
qed


section \<open>What is sent to everybody\<close>

definition to_all :: "server_ctx_t \<Rightarrow> u8 \<Rightarrow> u8 \<Rightarrow> u8 list \<Rightarrow> packet list" where
  "to_all c t sid p = map (\<lambda>i. packet_to (clients c ! i) t sid BROADCAST_ENDPOINT_ID p) (active_slots c)"

lemma broadcast_to_all:
  assumes "fds_ok (ctx s)"
  shows "server_broadcast t sid p (-1) s = emit (to_all (ctx s) t sid p) s"
proof -
  have "cl_fd (clients (ctx s) ! i) \<noteq> -1" if "i \<in> set (active_slots (ctx s))" for i
  proof -
    have "0 \<le> cl_fd (clients (ctx s) ! i)" using assms that by (simp add: active_slots_def fds_ok_def)
    then show ?thesis by linarith
  qed
  then have "filter (\<lambda>i. cl_fd (clients (ctx s) ! i) \<noteq> -1) (active_slots (ctx s)) = active_slots (ctx s)"
    by (simp add: filter_id_conv)
  then show ?thesis by (simp add: server_broadcast_emit to_all_def)
qed

lemma transition_status_emit:
  assumes "fds_ok (ctx s)"
  shows "server_transition_status st s =
    (if gs_status (state (ctx s)) = st then s
     else emit (to_all (ctx s) (msg_code MSG_SET_STATUS) SERVER_ENDPOINT_ID [ucast st])
            (upd_ctx (upd_state (\<lambda>g. g\<lparr>gs_status := st\<rparr>)) s))"
proof -
  let ?t = "upd_ctx (upd_state (\<lambda>g. g\<lparr>gs_status := st\<rparr>)) s"
  have "fds_ok (ctx ?t)" using assms by (simp add: fds_ok_def upd_state_def)
  moreover have "to_all (ctx ?t) = to_all (ctx s)"
    by (auto simp: to_all_def active_slots_def upd_state_def fun_eq_iff)
  ultimately show ?thesis
    by (simp add: server_transition_status_def broadcast_encoded_def set_status.payload_eq
        set_status_wire_def broadcast_to_all del: msg_code.simps)
qed

section \<open>The end of a round\<close>

lemma alive_slots_eq:
  "alive_slots c = filter (\<lambda>i. cl_active (clients c ! i) \<and> pl_alive (players c ! i)) [0..<MAX_PLAYERS]"
proof -
  have "for_range n (\<lambda>i found. if P i then found @ [i] else found) [] = filter P [0..<n]" for n and P :: "nat \<Rightarrow> bool"
    by (induction n) simp_all
  then show ?thesis by (simp add: alive_slots_def)
qed

lemma active_client_count_eq: "server_active_client_count c = length (active_slots c)"
proof -
  have "for_range n (\<lambda>i count. if P i then count + 1 else count) 0 = length (filter P [0..<n])" for n and P :: "nat \<Rightarrow> bool"
    by (induction n) simp_all
  then show ?thesis by (simp add: server_active_client_count_def active_slots_def)
qed

definition round_over :: "server_ctx_t \<Rightarrow> bool" where
  "round_over c \<longleftrightarrow> gs_status (state c) = GAME_RUNNING \<and> length (alive_slots c) \<le> 1 \<and> length (active_slots c) \<ge> 2"

text \<open>The status message and then, if one player is left, the winner, each to every client.\<close>

definition verdict :: "server_ctx_t \<Rightarrow> packet list" where
  "verdict c = to_all c (msg_code MSG_SET_STATUS) SERVER_ENDPOINT_ID [2] @
     (case alive_slots c of
        [i] \<Rightarrow> to_all c (msg_code MSG_WINNER) SERVER_ENDPOINT_ID [pl_id (players c ! i)]
      | _ \<Rightarrow> [])"

lemma finish_round_emit:
  assumes "fds_ok (ctx s)"
  shows "maybe_finish_round s =
    (if round_over (ctx s)
     then emit (verdict (ctx s)) (upd_ctx (upd_state (\<lambda>g. g\<lparr>gs_status := GAME_END\<rparr>)) s) else s)"
proof (cases "round_over (ctx s)")
  case False
  then show ?thesis
    by (auto simp: maybe_finish_round_def Let_def round_over_def active_client_count_eq)
next
  case True
  let ?t = "emit (to_all (ctx s) (msg_code MSG_SET_STATUS) SERVER_ENDPOINT_ID [2])
    (upd_ctx (upd_state (\<lambda>g. g\<lparr>gs_status := GAME_END\<rparr>)) s)"
  have "fds_ok (ctx ?t)" using assms by (simp add: fds_ok_def upd_state_def)
  moreover have "to_all (ctx ?t) = to_all (ctx s)"
    by (auto simp: to_all_def active_slots_def upd_state_def fun_eq_iff)
  ultimately have winner: "broadcast_encoded t sid (payload_of proto_encode_winner_payload 16 \<lparr>winner_winner_id = w\<rparr>) (-1) ?t =
      emit (to_all (ctx s) t sid [w]) ?t" for t sid w
    by (simp add: broadcast_encoded_def winner.payload_eq winner_wire_def broadcast_to_all del: msg_code.simps)
  have status: "server_transition_status GAME_END s = ?t"
    using True by (simp add: transition_status_emit [OF assms] round_over_def del: msg_code.simps)
  show ?thesis
  proof (cases "alive_slots (ctx s)")
    case Nil
    then show ?thesis
      using True by (simp add: maybe_finish_round_def Let_def round_over_def active_client_count_eq
          status verdict_def del: msg_code.simps)
  next
    case (Cons i js)
    then have "js = []" using True by (simp add: round_over_def)
    with Cons show ?thesis
      using True by (simp add: maybe_finish_round_def Let_def round_over_def active_client_count_eq
          status winner verdict_def del: msg_code.simps)
  qed
qed

lemma server_inv_status_end:
  assumes "server_inv c"
  shows "server_inv (upd_state (\<lambda>g. g\<lparr>gs_status := GAME_END\<rparr>) c)"
proof -
  note I = server_invD [OF assms]
  let ?c = "upd_state (\<lambda>g. g\<lparr>gs_status := GAME_END\<rparr>) c"
  have same: "in_map ?c = in_map c" "gs_cell_get (state ?c) = gs_cell_get (state c)" "own_bombs ?c = own_bombs c"
    by (auto simp: upd_state_def in_map_def fun_eq_iff gs_cell_get_def gs_in_bounds_def own_bombs_def)
  show ?thesis
    using I(1-7,9-11) by (intro server_invI; unfold inv_defs same) (simp_all add: upd_state_def)
qed

section \<open>The tick\<close>

text \<open>The context after the two timer loops.\<close>

definition timers_ticked :: "server_ctx_t \<Rightarrow> server_ctx_t" where
  "timers_ticked c = c\<lparr>state := (state c)\<lparr>gs_tick := gs_tick (state c) + 1,
     gs_bombs := (if gs_status (state c) = GAME_RUNNING then map bomb_ticked (bombs c) else bombs c)\<rparr>,
     explosions := map explosion_ticked (explosions c)\<rparr>"

lemma timers_ticked_inv:
  assumes "server_inv c"
  shows "server_inv (timers_ticked c)"
proof (cases "gs_status (state c) = GAME_RUNNING")
  case True
  then show ?thesis
    by (intro timers_inv [OF assms, where f = bomb_ticked and g = explosion_ticked and n = "gs_tick (state c) + 1"])
      (simp_all add: timers_ticked_def explosion_ticked_active)
next
  case False
  then show ?thesis
    by (intro timers_inv [OF assms, where f = "\<lambda>b. b" and g = explosion_ticked and n = "gs_tick (state c) + 1"])
      (simp_all add: timers_ticked_def explosion_ticked_active)
qed

text \<open>
  A tick returns.  Outside a round it only counts the explosions down.  In a round it lets bombs
  explode until none is due and then sees whether the round is over.
\<close>

lemma server_tick_run:
  assumes inv: "server_inv (ctx s)"
  shows "\<exists>t c1. server_tick s = Some t \<and> server_inv (ctx t) \<and>
    (if gs_status (state (ctx s)) \<noteq> GAME_RUNNING then ctx t = timers_ticked (ctx s) \<and> c1 = ctx t
     else explosion_step\<^sup>*\<^sup>* (timers_ticked (ctx s)) c1 \<and> settled c1 \<and> server_inv c1 \<and>
       ctx t = (if round_over c1 then upd_state (\<lambda>g. g\<lparr>gs_status := GAME_END\<rparr>) c1 else c1))"
proof -
  note I = server_invD [OF inv]
  let ?s1 = "process_explosion_timers (upd_ctx (upd_state (\<lambda>st. st\<lparr>gs_tick := gs_tick st + 1\<rparr>)) s)"
  have c1: "ctx ?s1 = (ctx s)\<lparr>state := (state (ctx s))\<lparr>gs_tick := gs_tick (state (ctx s)) + 1\<rparr>,
      explosions := map explosion_ticked (explosions (ctx s))\<rparr>"
    using I(1) by (subst process_explosion_timers_ctx) (simp_all add: upd_state_def arrays_ok_def)
  show ?thesis
  proof (cases "gs_status (state (ctx s)) = GAME_RUNNING")
    case False
    then have "server_tick s = Some ?s1" and "ctx ?s1 = timers_ticked (ctx s)"
      unfolding server_tick_def Let_def c1 by (simp_all add: timers_ticked_def)
    then show ?thesis using False timers_ticked_inv [OF inv] by auto
  next
    case True
    let ?s2 = "upd_ctx tick_bomb_timers ?s1"
    have c2: "ctx ?s2 = timers_ticked (ctx s)"
      using I(1) True unfolding ctx_upd_ctx c1
      by (subst tick_bomb_timers_ctx) (simp_all add: arrays_ok_def timers_ticked_def)
    have "gs_status (state (timers_ticked (ctx s))) = GAME_RUNNING" using True by (simp add: timers_ticked_def)
    then obtain u where u: "explode_all ?s2 = Some u" "explosion_step\<^sup>*\<^sup>* (timers_ticked (ctx s)) (ctx u)"
      "server_inv (ctx u)" "settled (ctx u)"
      using explode_all_run [of ?s2] timers_ticked_inv [OF inv] unfolding c2 by blast
    have "server_tick s = Some (maybe_finish_round u)"
      using True u(1) unfolding server_tick_def Let_def c1 by simp
    moreover have "ctx (maybe_finish_round u) = (if round_over (ctx u)
        then upd_state (\<lambda>g. g\<lparr>gs_status := GAME_END\<rparr>) (ctx u) else ctx u)"
      using finish_round_emit [OF server_invD(11) [OF u(3)]] by simp
    ultimately show ?thesis
      using True u server_inv_status_end [OF u(3)] by auto
  qed
qed

end
