(* ===== verification/Client_Handler.thy ===== *)
theory Client_Handler
  imports Tick
begin

text \<open>
  \<open>server/client_handler.c\<close>: what the server does with a message from a client.  A handler takes
  the slot of the client and returns the code's \<open>int\<close> with the new system; a result other than
  \<open>0\<close> makes the caller drop the client.  A local struct that the code leaves uninitialised before
  decoding into it holds zeros here; the decoders overwrite every field they report.
\<close>

section \<open>Answers\<close>

definition c_text :: "string \<Rightarrow> u8 list" where
  "c_text t = map (\<lambda>ch. of_nat (of_char ch)) t @ [0]"

definition error_message :: "string \<Rightarrow> msg_error_t" where
  "error_message t =
     (let txt = (strncpy (replicate (MAX_ERROR_LEN + 1) 0) (c_text t) MAX_ERROR_LEN)[MAX_ERROR_LEN := 0]
      in \<lparr>err_len = of_nat (strnlen txt MAX_ERROR_LEN), err_text = txt\<rparr>)"

definition send_error :: "nat \<Rightarrow> u8 \<Rightarrow> string \<Rightarrow> server_sys \<Rightarrow> server_sys" where
  "send_error client sender_id t s =
     (case payload_of proto_encode_error_payload 512 (error_message t) of
        Some payload \<Rightarrow> server_send_to_client client (msg_code MSG_ERROR) sender_id
                          (cl_id (clients (ctx s) ! client)) payload s
      | None \<Rightarrow> s)"

definition zero_summary :: msg_player_summary_t where
  "zero_summary = \<lparr>ps_id = 0, ps_ready = False, ps_name = replicate (MAX_NAME_LEN + 1) 0\<rparr>"

definition summary_of :: "server_client_t \<Rightarrow> player_t \<Rightarrow> msg_player_summary_t" where
  "summary_of cl p = \<lparr>ps_id = cl_id cl, ps_ready = pl_ready p,
     ps_name = (strncpy (replicate (MAX_NAME_LEN + 1) 0) (cl_name cl) MAX_NAME_LEN)[MAX_NAME_LEN := 0]\<rparr>"

definition welcome_message :: "nat \<Rightarrow> server_ctx_t \<Rightarrow> msg_welcome_t" where
  "welcome_message client c =
     for_range MAX_PLAYERS (\<lambda>i welcome.
       if \<not> cl_active (clients c ! i) \<or> cl_id (clients c ! i) = cl_id (clients c ! client) then welcome
       else welcome\<lparr>
         welcome_players := (welcome_players welcome)[unat (welcome_player_count welcome) :=
           summary_of (clients c ! i) (players c ! i)],
         welcome_player_count := welcome_player_count welcome + 1\<rparr>)
       \<lparr>welcome_server_id = (strncpy (replicate (MAX_ID_LEN + 1) 0) (server_id c) MAX_ID_LEN)[MAX_ID_LEN := 0],
        welcome_game_status = ucast (gs_status (state c)), welcome_player_count = 0,
        welcome_players = replicate MAX_PLAYERS zero_summary\<rparr>"

definition send_welcome :: "nat \<Rightarrow> server_sys \<Rightarrow> server_sys" where
  "send_welcome client s =
     (case payload_of proto_encode_welcome_payload 512 (welcome_message client (ctx s)) of
        None \<Rightarrow> send_error client SERVER_ENDPOINT_ID ''could not encode WELCOME'' s
      | Some payload \<Rightarrow> server_send_to_client client (msg_code MSG_WELCOME)
          (cl_id (clients (ctx s) ! client)) (cl_id (clients (ctx s) ! client)) payload s)"

text \<open>The loop that sends the map to every connected client.\<close>

definition send_map_to_all :: "server_sys \<Rightarrow> server_sys" where
  "send_map_to_all s =
     for_range MAX_PLAYERS (\<lambda>i s.
       if cl_active (clients (ctx s) ! i) then server_send_map_to_client i s else s) s"

section \<open>The lobby\<close>

definition revive_players :: "server_ctx_t \<Rightarrow> server_ctx_t" where
  "revive_players c =
     for_range MAX_PLAYERS (\<lambda>i c.
       if cl_active (clients c ! i)
       then upd_player i (\<lambda>p. p\<lparr>pl_alive := True, pl_lives := 1\<rparr>) c else c) c"

definition maybe_start_game :: "server_sys \<Rightarrow> server_sys" where
  "maybe_start_game s =
     (let active = server_active_client_count (ctx s); ready = server_ready_client_count (ctx s) in
      if gs_status (state (ctx s)) \<noteq> GAME_LOBBY \<or> active < 2 \<or> ready < active then s
      else let s = upd_ctx revive_players s;
               s = server_transition_status GAME_RUNNING s;
               s = send_map_to_all s
           in server_send_sync_to_all s)"

definition zero_hello :: msg_hello_t where
  "zero_hello = \<lparr>hello_client_id = replicate (MAX_ID_LEN + 1) 0, hello_player_name = replicate (MAX_NAME_LEN + 1) 0\<rparr>"

definition handle_hello :: "nat \<Rightarrow> u8 list \<Rightarrow> server_sys \<Rightarrow> int \<times> server_sys" where
  "handle_hello client payload s =
     (let cl = clients (ctx s) ! client; slot = slot_of cl in
      case proto_decode_hello_payload zero_hello payload of
        None \<Rightarrow> (-1, send_error client SERVER_ENDPOINT_ID ''invalid HELLO payload'' s)
      | Some hello \<Rightarrow>
          if first_index MAX_PLAYERS (\<lambda>i.
               \<not> (\<not> cl_active (clients (ctx s) ! i) \<or> cl_id (clients (ctx s) ! i) = cl_id cl) \<and>
               strncmp_eq (cl_name (clients (ctx s) ! i)) (hello_player_name hello) MAX_NAME_LEN) \<noteq> None
          then (-1, send_error client SERVER_ENDPOINT_ID ''player name already in use'' s)
          else
            let s = upd_ctx (upd_client client (\<lambda>cl. cl\<lparr>
                      cl_client_id := (strncpy (cl_client_id cl) (hello_client_id hello) MAX_ID_LEN)[MAX_ID_LEN := 0],
                      cl_name := (strncpy (cl_name cl) (hello_player_name hello) MAX_NAME_LEN)[MAX_NAME_LEN := 0]\<rparr>)) s;
                s = upd_ctx (upd_player slot (\<lambda>p. p\<lparr>
                      pl_name := (strncpy (pl_name p) (hello_player_name hello) MAX_NAME_LEN)[MAX_NAME_LEN := 0]\<rparr>)) s;
                s = send_welcome client s;
                s = server_broadcast (msg_code MSG_HELLO) (cl_id cl) payload (cl_fd cl) s
            in if gs_status (state (ctx s)) = GAME_RUNNING
               then (0, server_send_sync_to_all (server_send_map_to_client client s))
               else (0, s))"

definition handle_set_ready :: "nat \<Rightarrow> server_sys \<Rightarrow> int \<times> server_sys" where
  "handle_set_ready client s =
     (let cl = clients (ctx s) ! client; slot = slot_of cl;
          s = (if \<not> pl_ready (players (ctx s) ! slot)
               then server_broadcast (msg_code MSG_SET_READY) (cl_id cl) [] (-1)
                      (upd_ctx (upd_player slot (\<lambda>p. p\<lparr>pl_ready := True\<rparr>)) s)
               else s)
      in (0, maybe_start_game s))"


section \<open>The round\<close>

definition move_target :: "u8 \<Rightarrow> player_t \<Rightarrow> int \<times> int" where
  "move_target direction player =
     (let next_row = int (unat (pl_row player)); next_col = int (unat (pl_col player)) in
      if direction = DIR_UP then (next_row - 1, next_col)
      else if direction = DIR_DOWN then (next_row + 1, next_col)
      else if direction = DIR_LEFT then (next_row, next_col - 1)
      else if direction = DIR_RIGHT then (next_row, next_col + 1)
      else (next_row, next_col))"

text \<open>The bonus on the player's cell, if there is one, is taken.\<close>

definition take_bonus :: "nat \<Rightarrow> nat \<Rightarrow> server_sys \<Rightarrow> server_sys" where
  "take_bonus client slot s =
     (let player = players (ctx s) ! slot;
          cell = gs_cell_get (state (ctx s)) (pl_row player) (pl_col player) in
      if is_bonus_cell cell then
        let s = upd_ctx (upd_player slot (\<lambda>p.
                  if cell = CELL_BONUS_SPEED then p\<lparr>pl_speed := pl_speed p + 1\<rparr>
                  else if cell = CELL_BONUS_RADIUS then p\<lparr>pl_bomb_radius := pl_bomb_radius p + 1\<rparr>
                  else p\<lparr>pl_bomb_timer_ticks := pl_bomb_timer_ticks p + 1\<rparr>)) s;
            s = cell_set (pl_row player) (pl_col player) CELL_EMPTY s;
            s = broadcast_encoded (msg_code MSG_BONUS_RETRIEVED) (cl_id (clients (ctx s) ! client))
                  (payload_of proto_encode_bonus_retrieved_payload 16
                     \<lparr>br_player_id = pl_id player,
                      br_cell_index = make_cell_index (pl_row player) (pl_col player)
                                        (map_cols (game_map (ctx s)))\<rparr>) (-1) s
        in server_send_sync_to_all s
      else s)"

definition handle_move_attempt :: "nat \<Rightarrow> u8 list \<Rightarrow> server_sys \<Rightarrow> int \<times> server_sys" where
  "handle_move_attempt client payload s =
     (let fail = (\<lambda>t. (0, send_error client SERVER_ENDPOINT_ID t s)); cl = clients (ctx s) ! client in
      case proto_decode_move_attempt_payload \<lparr>move_direction = 0\<rparr> payload of
        None \<Rightarrow> fail ''invalid MOVE_ATTEMPT payload''
      | Some move \<Rightarrow>
          if move_direction move > DIR_RIGHT then fail ''invalid movement direction''
          else
            let slot = slot_of cl; player = players (ctx s) ! slot in
            if gs_status (state (ctx s)) \<noteq> GAME_RUNNING \<or> \<not> pl_alive player
            then fail ''cannot move in current state''
            else
              let (next_row, next_col) = move_target (move_direction move) player in
              if next_row < 0 \<or> next_col < 0 \<or> next_row \<ge> int (unat (map_rows (game_map (ctx s)))) \<or>
                 next_col \<ge> int (unat (map_cols (game_map (ctx s))))
              then fail ''target cell out of bounds''
              else if server_cell_blocked (ctx s) (of_int next_row) (of_int next_col) \<or>
                 occupied_by_other_player (ctx s) (cl_id cl) (of_int next_row) (of_int next_col)
              then fail ''target cell is blocked''
              else
                let s = upd_ctx (upd_player slot (\<lambda>p. p\<lparr>pl_row := of_int next_row, pl_col := of_int next_col\<rparr>)) s;
                    player = players (ctx s) ! slot;
                    s = broadcast_encoded (msg_code MSG_MOVED) (cl_id cl)
                          (payload_of proto_encode_moved_payload 16
                             \<lparr>moved_player_id = pl_id player,
                              moved_cell_index = make_cell_index (pl_row player) (pl_col player)
                                                   (map_cols (game_map (ctx s)))\<rparr>) (-1) s
                in (0, take_bonus client slot s))"

definition handle_bomb_attempt :: "nat \<Rightarrow> u8 list \<Rightarrow> server_sys \<Rightarrow> int \<times> server_sys" where
  "handle_bomb_attempt client payload s =
     (let fail = (\<lambda>t. (0, send_error client SERVER_ENDPOINT_ID t s)); cl = clients (ctx s) ! client in
      case proto_decode_bomb_attempt_payload \<lparr>bomb_attempt_cell_index = 0\<rparr> payload of
        None \<Rightarrow> fail ''invalid BOMB_ATTEMPT payload''
      | Some attempt \<Rightarrow>
          let slot = slot_of cl; player = players (ctx s) ! slot in
          if gs_status (state (ctx s)) \<noteq> GAME_RUNNING \<or> \<not> pl_alive player
          then fail ''cannot place bomb in current state''
          else
            let current_cell = make_cell_index (pl_row player) (pl_col player) (map_cols (game_map (ctx s))) in
            if bomb_attempt_cell_index attempt \<noteq> current_cell then fail ''bomb must be placed on current cell''
            else if pl_bomb_count player = 0 then fail ''no bombs available''
            else if first_index MAX_BOMBS (\<lambda>i. bm_owner_id (bombs (ctx s) ! i) \<noteq> 0 \<and>
                 bm_row (bombs (ctx s) ! i) = pl_row player \<and> bm_col (bombs (ctx s) ! i) = pl_col player) \<noteq> None
            then fail ''cell already contains a bomb''
            else
              let bomb = \<lparr>bm_owner_id = pl_id player, bm_row = pl_row player, bm_col = pl_col player,
                          bm_radius = pl_bomb_radius player, bm_timer_ticks = pl_bomb_timer_ticks player\<rparr>
              in case gs_add_bomb (state (ctx s)) bomb of
                None \<Rightarrow> fail ''bomb storage full''
              | Some (_, st) \<Rightarrow>
                  let s = upd_ctx (upd_state (\<lambda>_. st)) s;
                      s = cell_set (pl_row player) (pl_col player) CELL_BOMB s;
                      s = upd_ctx (upd_player slot (\<lambda>p. p\<lparr>pl_bomb_count := pl_bomb_count p - 1\<rparr>)) s;
                      s = broadcast_encoded (msg_code MSG_BOMB) (cl_id cl)
                            (payload_of proto_encode_bomb_payload 16
                               \<lparr>bomb_player_id = pl_id player, bomb_cell_index = current_cell\<rparr>) (-1) s
                  in (0, server_send_sync_to_all s))"

definition handle_set_status :: "nat \<Rightarrow> u8 list \<Rightarrow> server_sys \<Rightarrow> int \<times> server_sys" where
  "handle_set_status client payload s =
     (case proto_decode_set_status_payload \<lparr>set_status_status = 0\<rparr> payload of
        None \<Rightarrow> (0, send_error client SERVER_ENDPOINT_ID ''invalid SET_STATUS payload'' s)
      | Some msg \<Rightarrow>
          if gs_status (state (ctx s)) = GAME_END \<and> ucast (set_status_status msg) = GAME_LOBBY then
            let s = upd_ctx server_reset_round s;
                s = server_transition_status GAME_LOBBY s;
                s = send_map_to_all s
            in (0, server_send_sync_to_all s)
          else (0, send_error client SERVER_ENDPOINT_ID ''SET_STATUS not allowed in current state'' s))"

section \<open>Dispatch\<close>

definition server_handle_client_message ::
  "nat \<Rightarrow> msg_header_t \<Rightarrow> u8 list \<Rightarrow> server_sys \<Rightarrow> int \<times> server_sys" where
  "server_handle_client_message client header payload s =
     (case msg_type_of (h_msg_type header) of
        Some MSG_HELLO \<Rightarrow> handle_hello client payload s
      | Some MSG_SET_READY \<Rightarrow> handle_set_ready client s
      | Some MSG_MOVE_ATTEMPT \<Rightarrow> handle_move_attempt client payload s
      | Some MSG_BOMB_ATTEMPT \<Rightarrow> handle_bomb_attempt client payload s
      | Some MSG_SET_STATUS \<Rightarrow> handle_set_status client payload s
      | Some MSG_SYNC_REQUEST \<Rightarrow> (0, server_send_sync_to_all s)
      | Some MSG_PING \<Rightarrow> (0, server_send_to_client client (msg_code MSG_PONG) SERVER_ENDPOINT_ID
                               (cl_id (clients (ctx s) ! client)) [] s)
      | Some MSG_PONG \<Rightarrow> (0, s)
      | Some MSG_LEAVE \<Rightarrow> (1, s)
      | _ \<Rightarrow> (0, send_error client SERVER_ENDPOINT_ID ''unsupported client message type'' s))"

section \<open>Quiet answers\<close>

interpretation err_answer: quiet_op "send_error i sid t" for i sid t
  by unfold_locales (simp_all add: send_error_def send_to_client.log_f split: option.split)

interpretation welcome_answer: quiet_op "send_welcome i" for i
  by unfold_locales (simp_all add: send_welcome_def send_to_client.log_f err_answer.ctx_f err_answer.log_f
      split: option.split)

interpretation map_to_all: quiet_op send_map_to_all
proof unfold_locales
  fix s
  have "ctx (send_map_to_all s) = ctx s \<and> (\<exists>ps. env_sent (env (send_map_to_all s)) = env_sent (env s) @ ps)"
    unfolding send_map_to_all_def by (rule for_range_quiet) (simp add: send_map.log_f)
  then show "ctx (send_map_to_all s) = ctx s"
    and "\<exists>ps. env_sent (env (send_map_to_all s)) = env_sent (env s) @ ps" by auto
qed

lemmas answer_ctx [env_simps, simp] = err_answer.ctx_f welcome_answer.ctx_f map_to_all.ctx_f

end
