(* ===== verification/Handler_Spec.thy ===== *)
theory Handler_Spec
  imports Client_Handler
begin

text \<open>
  What each handler of \<open>client_handler.c\<close> does to the context, on every branch, and that each
  keeps the invariant.
\<close>

lemma of_nat_Suc_u8_nonzero: "j < 255 \<Longrightarrow> (of_nat (Suc j) :: u8) \<noteq> 0"
  using unat_of_nat_u8 [of "Suc j"] by (auto simp del: of_nat_Suc)

section \<open>Error answers\<close>

lemma error_message_shaped: "error_shaped (error_message t)" "error_valid (error_message t)"
proof -
  show "error_shaped (error_message t)" by (simp add: error_shaped_def error_message_def Let_def)
  have "unat (of_nat (strnlen x 255) :: u16) \<le> 255" for x
  proof -
    have "strnlen x 255 < 65536" using strnlen_le [of x 255] by linarith
    then show ?thesis using strnlen_le [of x 255] by (simp only: unat_of_nat_u16)
  qed
  then show "error_valid (error_message t)" by (simp add: error_valid_def error_length_def error_message_def Let_def)
qed

definition error_packet :: "server_ctx_t \<Rightarrow> nat \<Rightarrow> string \<Rightarrow> packet" where
  "error_packet c i t = packet_to (clients c ! i) (msg_code MSG_ERROR) SERVER_ENDPOINT_ID
     (cl_id (clients c ! i)) (error_wire (error_message t))"

lemma send_error_emit:
  assumes "cl_active (clients (ctx s) ! i)"
  shows "send_error i SERVER_ENDPOINT_ID t s = emit [error_packet (ctx s) i t] s"
proof -
  have "length (error_wire (error_message t)) \<le> 512"
    using error_message_shaped(2) [of t] by (simp add: error_wire_def error_valid_def)
  then show ?thesis
    using assms by (simp add: send_error_def error.payload_eq error_message_shaped send_to_client_emit
        error_packet_def del: msg_code.simps)
qed

text \<open>A handler refused: one error to the client, nothing else.\<close>

definition refused :: "nat \<Rightarrow> server_sys \<Rightarrow> server_sys \<Rightarrow> bool" where
  "refused i s t \<longleftrightarrow> (\<exists>txt. t = emit [error_packet (ctx s) i txt] s)"

lemma refusedI: "cl_active (clients (ctx s) ! i) \<Longrightarrow> refused i s (send_error i SERVER_ENDPOINT_ID txt s)"
  by (auto simp: refused_def send_error_emit)

lemma refused_ctx: "refused i s t \<Longrightarrow> ctx t = ctx s"
  by (auto simp: refused_def)

section \<open>Starting a round\<close>

definition can_start :: "server_ctx_t \<Rightarrow> bool" where
  "can_start c \<longleftrightarrow> gs_status (state c) = GAME_LOBBY \<and> 2 \<le> length (active_slots c) \<and>
     (\<forall>i \<in> set (active_slots c). pl_ready (players c ! i))"

definition started :: "server_ctx_t \<Rightarrow> server_ctx_t" where
  "started c = c\<lparr>state := (state c)\<lparr>gs_status := GAME_RUNNING,
     gs_players := imap (\<lambda>i p. if cl_active (clients c ! i) then p\<lparr>pl_alive := True, pl_lives := 1\<rparr> else p)
       (players c)\<rparr>\<rparr>"

lemma ready_client_count_eq:
  "server_ready_client_count c = length (filter (\<lambda>i. pl_ready (players c ! i)) (active_slots c))"
proof -
  have "for_range n (\<lambda>i count. if P i then count + 1 else count) 0 = length (filter P [0..<n])" for n and P :: "nat \<Rightarrow> bool"
    by (induction n) simp_all
  then show ?thesis by (simp add: server_ready_client_count_def active_slots_def filter_filter conj_commute)
qed

lemma all_ready_iff:
  "server_ready_client_count c < server_active_client_count c \<longleftrightarrow>
     \<not> (\<forall>i \<in> set (active_slots c). pl_ready (players c ! i))"
proof -
  have "length (filter P xs) < length xs \<longleftrightarrow> (\<exists>x \<in> set xs. \<not> P x)" for P and xs :: "nat list"
    by (induction xs) (auto simp: less_Suc_eq_le)
  from this [of "\<lambda>i. pl_ready (players c ! i)" "active_slots c"] show ?thesis
    by (simp add: ready_client_count_eq active_client_count_eq)
qed

lemma revive_players_eq:
  assumes "length (players c) = MAX_PLAYERS"
  shows "revive_players c = upd_players (imap (\<lambda>i p. if cl_active (clients c ! i)
     then p\<lparr>pl_alive := True, pl_lives := 1\<rparr> else p)) c"
proof -
  let ?g = "\<lambda>i p. if cl_active (clients c ! i) then p\<lparr>pl_alive := True, pl_lives := 1\<rparr> else p"
  let ?P = "\<lambda>n t. t = upd_players (for_range n (\<lambda>i ps. ps[i := ?g i (ps ! i)])) c"
  have "?P 8 (revive_players c)"
    unfolding revive_players_def
  proof (rule for_range_inv [where P = ?P])
    show "?P 0 c" by (simp add: upd_players_def upd_state_def)
    show "?P (Suc i) (if cl_active (clients t ! i) then upd_player i (\<lambda>p. p\<lparr>pl_alive := True, pl_lives := 1\<rparr>) t else t)"
      if "?P i t" for i t
      using that by (simp add: upd_players_def upd_player_def upd_state_def)
  qed
  also have "upd_players (for_range 8 (\<lambda>i ps. ps[i := ?g i (ps ! i)])) c = upd_players (imap ?g) c"
    using for_range_update [of 8 "players c" ?g] assms
    by (simp add: upd_players_def upd_state_def imap_def cong: map_cong)
  finally show ?thesis .
qed

lemma transition_ctx:
  "ctx (server_transition_status st s) = upd_state (\<lambda>g. g\<lparr>gs_status := st\<rparr>) (ctx s)"
  by (auto simp: server_transition_status_def Let_def upd_state_def)

lemma maybe_start_game_ctx:
  assumes "length (players (ctx s)) = MAX_PLAYERS"
  shows "ctx (maybe_start_game s) = (if can_start (ctx s) then started (ctx s) else ctx s)"
    and "\<not> can_start (ctx s) \<Longrightarrow> maybe_start_game s = s"
proof -
  have cond: "(gs_status (state (ctx s)) \<noteq> GAME_LOBBY \<or> server_active_client_count (ctx s) < 2 \<or>
      server_ready_client_count (ctx s) < server_active_client_count (ctx s)) \<longleftrightarrow> \<not> can_start (ctx s)"
    using all_ready_iff [of "ctx s"] active_client_count_eq [of "ctx s"] unfolding can_start_def by auto
  show "ctx (maybe_start_game s) = (if can_start (ctx s) then started (ctx s) else ctx s)"
    using assms unfolding maybe_start_game_def Let_def cond
    by (simp add: transition_ctx revive_players_eq started_def upd_players_def upd_state_def)
  show "maybe_start_game s = s" if "\<not> can_start (ctx s)"
    using that unfolding maybe_start_game_def Let_def cond by simp
qed

lemma started_inv:
  assumes inv: "server_inv c" and "gs_status (state c) = GAME_LOBBY"
  shows "server_inv (started c)"
proof -
  note I = server_invD [OF inv]
  have len: "length (players c) = 8" using I(1) by (simp add: arrays_ok_def)
  have same: "in_map (started c) = in_map c" "gs_cell_get (state (started c)) = gs_cell_get (state c)"
    "own_bombs (started c) = own_bombs c"
    by (auto simp: started_def in_map_def fun_eq_iff gs_cell_get_def gs_in_bounds_def own_bombs_def)
  have clean: "\<forall>i < 8. pl_bomb_count (players c ! i) = 1" "\<forall>i < 64. bm_owner_id (bombs c ! i) = 0"
    using I(8) assms(2) by (simp_all add: lobby_ok_def)
  have own: "own_bombs c oid = 0" if "oid \<noteq> 0" for oid
    using clean(2) that I(1) by (auto simp: own_bombs_0_iff arrays_ok_def in_set_conv_nth)
  have "stock_ok (started c)"
    unfolding stock_ok_def same using own clean(1) len of_nat_Suc_u8_nonzero
    by (auto simp: started_def simp del: of_nat_Suc)
  moreover have "life_ok (started c)"
    using I(5) len by (auto simp: life_ok_def started_def)
  moreover have "arrays_ok (started c)" using I(1) by (simp add: arrays_ok_def started_def)
  moreover have "board_ok (started c)" using I(2) by (simp add: board_ok_def started_def)
  moreover have "ids_ok (started c)" using I(3) len by (simp add: ids_ok_def started_def)
  moreover have "places_ok (started c)" using I(4) len unfolding places_ok_def same by (simp add: started_def)
  moreover have "bombs_ok (started c)" using I(6) unfolding bombs_ok_def same by (simp add: started_def)
  moreover have "lobby_ok (started c)" by (simp add: lobby_ok_def started_def)
  moreover have "explosions_ok (started c)" using I(9)
    by (rule explosions_ok_mono) (simp_all add: same, simp_all add: started_def)
  moreover have "names_ok (started c)" "fds_ok (started c)"
    using I(10,11) by (simp_all add: names_ok_def fds_ok_def started_def)
  ultimately show ?thesis by (intro server_invI)
qed


section \<open>Moving\<close>

lemma slot_of_client:
  assumes "ids_ok c" "i < MAX_PLAYERS" "cl_active (clients c ! i)"
  shows "slot_of (clients c ! i) = i" "cl_id (clients c ! i) = of_nat (Suc i)"
proof -
  show id: "cl_id (clients c ! i) = of_nat (Suc i)" using assms by (simp add: ids_ok_def)
  have "unat (of_nat (Suc i) :: u8) = Suc i" using assms(2) by (intro unat_of_nat_u8) simp
  then show "slot_of (clients c ! i) = i" by (simp add: slot_of_def id del: of_nat_Suc)
qed

text \<open>A change of one player and of cells without bombs keeps the invariant.\<close>

lemma player_update_inv:
  assumes inv: "server_inv c" and rest: "rest c' = rest c" and "bombs c' = bombs c"
    and "map_rows (game_map c') = map_rows (game_map c)" "map_cols (game_map c') = map_cols (game_map c)"
    and wf: "wf_map (game_map c')"
    and ps: "players c' = (players c)[i := p']"
    and p': "pl_id p' = pl_id (players c ! i)" "pl_alive p' = pl_alive (players c ! i)"
      "pl_lives p' = pl_lives (players c ! i)" "pl_bomb_count p' = pl_bomb_count (players c ! i)"
      "in_map c (pl_row p') (pl_col p')"
    and cells: "\<And>r k. gs_cell_get (state c) r k = CELL_BOMB \<Longrightarrow> gs_cell_get (state c') r k = CELL_BOMB"
      "\<And>r k. gs_cell_get (state c) r k \<in> {CELL_EMPTY, CELL_BOMB} \<Longrightarrow> gs_cell_get (state c') r k \<in> {CELL_EMPTY, CELL_BOMB}"
  shows "server_inv c'"
proof -
  note I = server_invD [OF inv] and rf = rest_fields [OF rest]
  have in_map: "in_map c' = in_map c" by (simp add: in_map_def fun_eq_iff assms(4,5))
  have own: "own_bombs c' = own_bombs c" by (simp add: own_bombs_def fun_eq_iff assms(3))
  have same: "f (players c' ! j) = f (players c ! j)" if "f p' = f (players c ! i)" for j and f :: "player_t \<Rightarrow> 'a"
    using that by (cases "j = i"; cases "i < length (players c)") (simp_all add: ps list_update_beyond)
  note fields = same [of pl_id, OF p'(1)] same [of pl_alive, OF p'(2)] same [of pl_lives, OF p'(3)]
    same [of pl_bomb_count, OF p'(4)]
  have "arrays_ok c'" using I(1) by (simp add: arrays_ok_def ps rf assms(3))
  moreover have "board_ok c'" using I(2) wf by (simp add: board_ok_def assms(4,5) rf)
  moreover have "ids_ok c'" using I(3) by (simp add: ids_ok_def fields rf)
  moreover have "places_ok c'"
    using I(4) p'(5) unfolding places_ok_def in_map rf ps by (cases "i < length (players c)") (auto simp: nth_list_update list_update_beyond)
  moreover have "life_ok c'" using I(5) by (simp add: life_ok_def fields rf)
  moreover have "bombs_ok c'" using I(6) cells(1) unfolding bombs_ok_def in_map assms(3) by blast
  moreover have "stock_ok c'" using I(7) by (simp add: stock_ok_def fields own)
  moreover have "lobby_ok c'" using I(8) by (simp add: lobby_ok_def fields rf assms(3))
  moreover have "explosions_ok c'" using I(9) assms(4,5) by (rule explosions_ok_mono) (simp add: rf, rule cells(2))
  moreover have "names_ok c'" "fds_ok c'" using I(10,11) by (simp_all add: names_ok_def fds_ok_def rf)
  ultimately show ?thesis by (intro server_invI)
qed

definition bonus_applied :: "u8 \<Rightarrow> player_t \<Rightarrow> player_t" where
  "bonus_applied cell p =
     (if cell = CELL_BONUS_SPEED then p\<lparr>pl_speed := pl_speed p + 1\<rparr>
      else if cell = CELL_BONUS_RADIUS then p\<lparr>pl_bomb_radius := pl_bomb_radius p + 1\<rparr>
      else if cell = CELL_BONUS_TIMER then p\<lparr>pl_bomb_timer_ticks := pl_bomb_timer_ticks p + 1\<rparr> else p)"

lemma bonus_applied_fields [simp]:
  "pl_id (bonus_applied v p) = pl_id p" "pl_row (bonus_applied v p) = pl_row p"
  "pl_col (bonus_applied v p) = pl_col p" "pl_alive (bonus_applied v p) = pl_alive p"
  "pl_lives (bonus_applied v p) = pl_lives p" "pl_bomb_count (bonus_applied v p) = pl_bomb_count p"
  by (simp_all add: bonus_applied_def)

lemma take_bonus_effect:
  fixes s :: server_sys and slot :: nat
  defines "c \<equiv> ctx s"
  defines "p \<equiv> players c ! slot"
  defines "v \<equiv> gs_cell_get (state c) (pl_row p) (pl_col p)"
  assumes wf: "wf_map (game_map c)"
  shows "players (ctx (take_bonus client slot s)) = (players c)[slot := bonus_applied v p]"
    "bombs (ctx (take_bonus client slot s)) = bombs c"
    "map_rows (game_map (ctx (take_bonus client slot s))) = map_rows (game_map c)"
    "map_cols (game_map (ctx (take_bonus client slot s))) = map_cols (game_map c)"
    "wf_map (game_map (ctx (take_bonus client slot s)))"
    "rest (ctx (take_bonus client slot s)) = rest c"
    "gs_cell_get (state (ctx (take_bonus client slot s))) r k =
       (if is_bonus_cell v \<and> r = pl_row p \<and> k = pl_col p then CELL_EMPTY else gs_cell_get (state c) r k)"
proof -
  let ?c' = "ctx (take_bonus client slot s)"
  have "players ?c' = (players c)[slot := bonus_applied v p] \<and> bombs ?c' = bombs c \<and>
    map_rows (game_map ?c') = map_rows (game_map c) \<and> map_cols (game_map ?c') = map_cols (game_map c) \<and>
    wf_map (game_map ?c') \<and> rest ?c' = rest c \<and>
    (\<forall>r k. gs_cell_get (state ?c') r k =
       (if is_bonus_cell v \<and> r = pl_row p \<and> k = pl_col p then CELL_EMPTY else gs_cell_get (state c) r k))"
  proof (cases "is_bonus_cell v")
    case False
    then have "take_bonus client slot s = s" by (simp add: take_bonus_def Let_def v_def p_def c_def)
    moreover have "bonus_applied v p = p" using False by (simp add: bonus_applied_def is_bonus_cell_def)
    ultimately show ?thesis using wf False by (simp add: c_def p_def)
  next
    case True
    let ?c1 = "upd_player slot (\<lambda>_. bonus_applied v p) c"
    have "gs_in_bounds (state c) (pl_row p) (pl_col p)"
      using True by (auto simp: v_def gs_cell_get_def is_bonus_cell_def split: if_splits)
    then have "gs_in_bounds (state ?c1) (pl_row p) (pl_col p)"
      by (simp add: gs_in_bounds_def upd_player_def upd_state_def)
    then obtain st where st: "gs_cell_set (state ?c1) (pl_row p) (pl_col p) CELL_EMPTY = Some st"
      using gs_cell_set_Some by blast
    have wf1: "wf_map (gs_map (state ?c1))" using wf by (simp add: upd_player_def upd_state_def)
    have old: "gs_cell_get (state ?c1) r k = gs_cell_get (state c) r k" for r k
      by (rule cell_get_state_cong) (simp add: upd_player_def upd_state_def)
    note fr = gs_cell_set_frame [OF st] and get = gs_cell_get_set [OF wf1 st]
    let ?f = "\<lambda>p. if v = CELL_BONUS_SPEED then p\<lparr>pl_speed := pl_speed p + 1\<rparr>
        else if v = CELL_BONUS_RADIUS then p\<lparr>pl_bomb_radius := pl_bomb_radius p + 1\<rparr>
        else p\<lparr>pl_bomb_timer_ticks := pl_bomb_timer_ticks p + 1\<rparr>"
    have "?f p = bonus_applied v p" using True by (auto simp: bonus_applied_def is_bonus_cell_def)
    then have "upd_player slot ?f c = ?c1" unfolding p_def by (simp only: upd_player_def upd_state_def)
    then have "ctx (upd_ctx (upd_player slot ?f) s) = ctx (upd_ctx (\<lambda>_. ?c1) s)" by (simp add: c_def)
    from cell_set_ctx_cong [OF this]
    have "?c' = ctx (cell_set (pl_row p) (pl_col p) CELL_EMPTY (upd_ctx (\<lambda>_. ?c1) s))"
      using True unfolding take_bonus_def Let_def c_def [symmetric] p_def [symmetric] v_def [symmetric]
      by simp
    then have "?c' = ?c1\<lparr>state := st\<rparr>" by (simp add: cell_set_ctx st)
    then show ?thesis
      using fr get gs_cell_set_wf [OF wf1 st] True old
      by (simp add: upd_player_def upd_state_def rest_def)
  qed
  then show "players ?c' = (players c)[slot := bonus_applied v p]" "bombs ?c' = bombs c"
    "map_rows (game_map ?c') = map_rows (game_map c)" "map_cols (game_map ?c') = map_cols (game_map c)"
    "wf_map (game_map ?c')" "rest ?c' = rest c"
    "gs_cell_get (state ?c') r k =
       (if is_bonus_cell v \<and> r = pl_row p \<and> k = pl_col p then CELL_EMPTY else gs_cell_get (state c) r k)"
    by blast+
qed


lemma pos_of_eq_iff:
  "on_board c q \<Longrightarrow> pos_of r k = q \<longleftrightarrow> r = of_int (fst q) \<and> k = of_int (snd q)"
  by (metis pos_of_inj pos_of_on_board)

lemma on_board_in_bounds:
  assumes "board_ok c" "on_board c q"
  shows "in_map c (of_int (fst q)) (of_int (snd q))"
  using assms pos_of_on_board [OF assms(2)]
  by (simp add: in_map_def on_board_def pos_of_def word_less_def prod_eq_iff)

lemma cell_blocked_iff:
  assumes "board_ok c" "on_board c q"
  shows "server_cell_blocked c (of_int (fst q)) (of_int (snd q)) \<longleftrightarrow>
    \<not> (cell_at c q = CELL_EMPTY \<or> is_bonus_cell (cell_at c q)) \<or>
    (\<exists>j < MAX_BOMBS. bm_owner_id (bombs c ! j) \<noteq> 0 \<and> pos_of (bm_row (bombs c ! j)) (bm_col (bombs c ! j)) = q)"
proof -
  have "gs_in_bounds (state c) (of_int (fst q)) (of_int (snd q))"
    using on_board_in_bounds [OF assms] in_map_in_bounds [OF assms(1)] by simp
  then show ?thesis
    by (auto simp: server_cell_blocked_def gs_cell_is_walkable_def Let_def cell_at_def first_index_None_iff
        pos_of_eq_iff [OF assms(2)] simp del: not_None_eq)
qed

lemma occupied_iff:
  assumes "ids_ok c" "i < MAX_PLAYERS" "on_board c q"
  shows "occupied_by_other_player c (of_nat (Suc i)) (of_int (fst q)) (of_int (snd q)) \<longleftrightarrow>
    (\<exists>j < MAX_PLAYERS. j \<noteq> i \<and> cl_active (clients c ! j) \<and> pl_alive (players c ! j) \<and>
       pos_of (pl_row (players c ! j)) (pl_col (players c ! j)) = q)"
proof -
  have "pl_id (players c ! j) = of_nat (Suc i) \<longleftrightarrow> j = i" if "j < 8" for j
  proof -
    have "pl_id (players c ! j) = of_nat (Suc j)" using assms(1) that by (simp add: ids_ok_def)
    then show ?thesis using that assms(2) of_nat_u8_inj [of "Suc j" "Suc i"] by (auto simp del: of_nat_Suc)
  qed
  then show ?thesis
    by (auto simp: occupied_by_other_player_def Let_def first_index_None_iff pos_of_eq_iff [OF assms(3)]
        simp del: not_None_eq of_nat_Suc)
qed

lemma take_bonus_ctx_cong: "ctx t = ctx s \<Longrightarrow> ctx (take_bonus c k t) = ctx (take_bonus c k s)"
  by (simp add: take_bonus_def Let_def cell_set_ctx cong: option.case_cong)

text \<open>When the server lets the player of slot \<open>i\<close> move in direction \<open>d\<close>.\<close>

definition may_move :: "server_ctx_t \<Rightarrow> nat \<Rightarrow> u8 \<Rightarrow> bool" where
  "may_move c i d \<longleftrightarrow> (let p = players c ! i; q = move_target d p in
     d \<le> DIR_RIGHT \<and> gs_status (state c) = GAME_RUNNING \<and> pl_alive p \<and> on_board c q \<and>
     (cell_at c q = CELL_EMPTY \<or> is_bonus_cell (cell_at c q)) \<and>
     (\<forall>j < MAX_BOMBS. bm_owner_id (bombs c ! j) \<noteq> 0 \<longrightarrow> pos_of (bm_row (bombs c ! j)) (bm_col (bombs c ! j)) \<noteq> q) \<and>
     (\<forall>j < MAX_PLAYERS. j \<noteq> i \<longrightarrow> cl_active (clients c ! j) \<longrightarrow> pl_alive (players c ! j) \<longrightarrow>
        pos_of (pl_row (players c ! j)) (pl_col (players c ! j)) \<noteq> q))"

definition stepped :: "nat \<Rightarrow> u8 \<Rightarrow> server_ctx_t \<Rightarrow> server_ctx_t" where
  "stepped i d c = upd_player i (\<lambda>p. p\<lparr>pl_row := of_int (fst (move_target d (players c ! i))),
     pl_col := of_int (snd (move_target d (players c ! i)))\<rparr>) c"

lemma handle_move_cases:
  assumes inv: "server_inv (ctx s)" and i: "i < MAX_PLAYERS" "cl_active (clients (ctx s) ! i)"
  shows "may_move (ctx s) i d \<Longrightarrow> fst (handle_move_attempt i [d] s) = 0 \<and>
      ctx (snd (handle_move_attempt i [d] s)) = ctx (take_bonus i i (upd_ctx (stepped i d) s))"
    and "\<not> may_move (ctx s) i d \<Longrightarrow>
      fst (handle_move_attempt i [d] s) = 0 \<and> refused i s (snd (handle_move_attempt i [d] s))"
proof -
  let ?c = "ctx s" and ?p = "players (ctx s) ! i" and ?q = "move_target d (players (ctx s) ! i)"
  note I = server_invD [OF inv]
  note sl = slot_of_client [OF I(3) i]
  have dec: "proto_decode_move_attempt_payload m0 [d] = Some \<lparr>move_direction = d\<rparr>" for m0
    by (simp add: move_attempt.dec_iff move_attempt_wire_def)
  have on: "on_board ?c ?q \<longleftrightarrow> \<not> (fst ?q < 0 \<or> snd ?q < 0 \<or> fst ?q \<ge> int (unat (map_rows (game_map ?c))) \<or>
      snd ?q \<ge> int (unat (map_cols (game_map ?c))))"
    by (auto simp: on_board_def)
  have free: "server_cell_blocked ?c (of_int (fst ?q)) (of_int (snd ?q)) \<or>
      occupied_by_other_player ?c (cl_id (clients ?c ! i)) (of_int (fst ?q)) (of_int (snd ?q)) \<longleftrightarrow>
      \<not> may_move ?c i d"
    if "d \<le> DIR_RIGHT" "gs_status (state ?c) = GAME_RUNNING" "pl_alive ?p" "on_board ?c ?q"
    using that cell_blocked_iff [OF I(2) that(4)] occupied_iff [OF I(3) i(1) that(4)]
    unfolding sl(2) may_move_def Let_def by blast
  note unfold = handle_move_attempt_def Let_def dec option.case sl(1) case_prod_beta msg_move_attempt_t.select_convs
  show "fst (handle_move_attempt i [d] s) = 0 \<and>
      ctx (snd (handle_move_attempt i [d] s)) = ctx (take_bonus i i (upd_ctx (stepped i d) s))"
    if may: "may_move ?c i d"
  proof -
    have g: "d \<le> DIR_RIGHT" "gs_status (state ?c) = GAME_RUNNING" "pl_alive ?p" "on_board ?c ?q"
      using may by (simp_all add: may_move_def Let_def)
    then have "\<not> DIR_RIGHT < d" by simp
    moreover have "\<not> (server_cell_blocked ?c (of_int (fst ?q)) (of_int (snd ?q)) \<or>
      occupied_by_other_player ?c (cl_id (clients ?c ! i)) (of_int (fst ?q)) (of_int (snd ?q)))"
      using free [OF g] may by blast
    ultimately show ?thesis
      using g on by (simp add: unfold) (rule take_bonus_ctx_cong, simp add: stepped_def)
  qed
  show "fst (handle_move_attempt i [d] s) = 0 \<and> refused i s (snd (handle_move_attempt i [d] s))"
    if "\<not> may_move ?c i d"
  proof -
    have "d \<le> 3 \<Longrightarrow> gs_status (state ?c) = GAME_RUNNING \<Longrightarrow> pl_alive ?p \<Longrightarrow> on_board ?c ?q \<Longrightarrow>
      server_cell_blocked ?c (of_int (fst ?q)) (of_int (snd ?q)) \<or>
      occupied_by_other_player ?c (cl_id (clients ?c ! i)) (of_int (fst ?q)) (of_int (snd ?q))"
      using free that by blast
    then show ?thesis
      unfolding unfold on [symmetric] not_le [symmetric] using refusedI [OF i(2)] on by auto
  qed
qed


lemma stepped_fields:
  "bombs (stepped i d c) = bombs c" "game_map (stepped i d c) = game_map c"
  "clients (stepped i d c) = clients c" "gs_status (state (stepped i d c)) = gs_status (state c)"
  "rest (stepped i d c) = rest c"
  "players (stepped i d c) = (players c)[i := (players c ! i)\<lparr>
     pl_row := of_int (fst (move_target d (players c ! i))), pl_col := of_int (snd (move_target d (players c ! i)))\<rparr>]"
  by (simp_all add: stepped_def upd_player_def upd_state_def rest_def)

lemma stepped_cell_get: "gs_cell_get (state (stepped i d c)) r k = gs_cell_get (state c) r k"
  by (rule cell_get_state_cong) (rule stepped_fields(2))

lemma move_effect:
  fixes s :: server_sys and i :: nat and d :: u8
  defines "c \<equiv> ctx s"
  defines "c' \<equiv> ctx (take_bonus i i (upd_ctx (stepped i d) s))"
  defines "q \<equiv> move_target d (players c ! i)"
  assumes inv: "server_inv c" and i: "i < MAX_PLAYERS" and may: "may_move c i d"
  shows "players c' = (players c)[i := bonus_applied (cell_at c q)
      ((players c ! i)\<lparr>pl_row := of_int (fst q), pl_col := of_int (snd q)\<rparr>)]"
    and "bombs c' = bombs c" and "rest c' = rest c"
    and "gs_cell_get (state c') r k =
      (if is_bonus_cell (cell_at c q) \<and> pos_of r k = q then CELL_EMPTY else gs_cell_get (state c) r k)"
    and "server_inv c'"
proof -
  note I = server_invD [OF inv]
  let ?s1 = "upd_ctx (stepped i d) s" and ?p' = "(players c ! i)\<lparr>pl_row := of_int (fst q), pl_col := of_int (snd q)\<rparr>"
  have len: "i < length (players c)" using I(1) i by (simp add: arrays_ok_def)
  have on: "on_board c q" using may by (simp add: may_move_def Let_def q_def)
  have c1: "ctx ?s1 = stepped i d c" by (simp add: c_def)
  have p1: "players (ctx ?s1) ! i = ?p'" using len unfolding c1 stepped_fields q_def by simp
  have v: "gs_cell_get (state (ctx ?s1)) (pl_row ?p') (pl_col ?p') = cell_at c q"
    unfolding c1 stepped_cell_get by (simp add: cell_at_def)
  have "wf_map (game_map (ctx ?s1))" using I(2) unfolding c1 stepped_fields board_ok_def by simp
  note eff = take_bonus_effect [OF this, of i i, unfolded p1 v, folded c'_def]
  show players: "players c' = (players c)[i := bonus_applied (cell_at c q) ?p']"
    using eff(1) unfolding c1 stepped_fields q_def by simp
  show bombs: "bombs c' = bombs c" and rest: "rest c' = rest c"
    using eff(2,6) unfolding c1 stepped_fields by simp_all
  show get: "gs_cell_get (state c') r k =
      (if is_bonus_cell (cell_at c q) \<and> pos_of r k = q then CELL_EMPTY else gs_cell_get (state c) r k)" for r k
    using eff(7) [of r k] unfolding c1 stepped_cell_get pos_of_eq_iff [OF on] by simp
  show "server_inv c'"
  proof (rule player_update_inv [OF inv rest bombs _ _ _ players])
    show "map_rows (game_map c') = map_rows (game_map c)" "map_cols (game_map c') = map_cols (game_map c)"
      "wf_map (game_map c')"
      using eff(3,4,5) unfolding c1 stepped_fields by simp_all
    show "in_map c (pl_row (bonus_applied (cell_at c q) ?p')) (pl_col (bonus_applied (cell_at c q) ?p'))"
      using on_board_in_bounds [OF I(2) on] by simp
    show "gs_cell_get (state c') r k = CELL_BOMB" if "gs_cell_get (state c) r k = CELL_BOMB" for r k
      using that cell_at_pos_of [of c r k] unfolding get by (auto simp: is_bonus_cell_def)
    show "gs_cell_get (state c') r k \<in> {CELL_EMPTY, CELL_BOMB}" if "gs_cell_get (state c) r k \<in> {CELL_EMPTY, CELL_BOMB}" for r k
      using that cell_at_pos_of [of c r k] unfolding get by auto
  qed simp_all
qed

section \<open>Placing a bomb\<close>

definition may_place :: "server_ctx_t \<Rightarrow> nat \<Rightarrow> u16 \<Rightarrow> bool" where
  "may_place c i idx \<longleftrightarrow> (let p = players c ! i in
     gs_status (state c) = GAME_RUNNING \<and> pl_alive p \<and>
     idx = make_cell_index (pl_row p) (pl_col p) (map_cols (game_map c)) \<and> pl_bomb_count p \<noteq> 0 \<and>
     (\<forall>j < MAX_BOMBS. bm_owner_id (bombs c ! j) \<noteq> 0 \<longrightarrow>
        \<not> (bm_row (bombs c ! j) = pl_row p \<and> bm_col (bombs c ! j) = pl_col p)))"

definition bomb_of :: "player_t \<Rightarrow> bomb_t" where
  "bomb_of p = \<lparr>bm_owner_id = pl_id p, bm_row = pl_row p, bm_col = pl_col p,
     bm_radius = pl_bomb_radius p, bm_timer_ticks = pl_bomb_timer_ticks p\<rparr>"

text \<open>The 64 places for bombs are never all taken: nobody has more than one bomb on the board.\<close>

lemma length_filter_le_sum:
  "length (filter (\<lambda>x. f x \<in> A) xs) \<le> (\<Sum>a \<in> A. length (filter (\<lambda>x. f x = a) xs))" if "finite A"
  using that
proof (induction A rule: finite_induct)
  case (insert a A)
  have "length (filter (\<lambda>x. f x \<in> insert a A) xs) \<le>
      length (filter (\<lambda>x. f x = a) xs) + length (filter (\<lambda>x. f x \<in> A) xs)"
    by (induction xs) auto
  with insert show ?case by simp
qed simp

lemma few_bombs:
  assumes "bombs_ok c" "stock_ok c" "arrays_ok c"
  shows "bombs_left c \<le> MAX_PLAYERS"
proof -
  let ?ids = "of_nat ` {1..8 :: nat} :: u8 set"
  have id: "bm_owner_id b = 0 \<or> bm_owner_id b \<in> ?ids" if "b \<in> set (bombs c)" for b
  proof (cases "bm_owner_id b = 0")
    case False
    then have "unat (bm_owner_id b) \<le> 8" "0 < unat (bm_owner_id b)"
      using assms(1,3) that by (auto simp: bombs_ok_def arrays_ok_def in_set_conv_nth unat_gt_0)
    moreover have "of_nat (unat (bm_owner_id b)) = bm_owner_id b" by simp
    ultimately show ?thesis by (metis Suc_leI atLeastAtMost_iff image_eqI One_nat_def)
  qed simp
  have nz: "(0 :: u8) \<notin> ?ids"
  proof
    assume "(0 :: u8) \<in> ?ids"
    then obtain n where "1 \<le> n" "n \<le> 8" "(of_nat n :: u8) = 0" by auto
    then show False using unat_of_nat_u8 [of n] by simp
  qed
  have "filter (\<lambda>b. bm_owner_id b \<noteq> 0) (bombs c) = filter (\<lambda>b. bm_owner_id b \<in> ?ids) (bombs c)"
    using id nz by (intro filter_cong) auto
  then have "bombs_left c \<le> (\<Sum>a \<in> ?ids. own_bombs c a)"
    unfolding bombs_left_def own_bombs_def by (simp add: length_filter_le_sum)
  also have "\<dots> \<le> (\<Sum>a \<in> ?ids. 1)"
  proof (intro sum_mono)
    fix a assume "a \<in> ?ids"
    with nz have "a \<noteq> 0" by blast
    then show "own_bombs c a \<le> 1" using assms(2) by (simp add: stock_ok_def)
  qed
  also have "\<dots> \<le> 8" using card_image_le [of "{1..8 :: nat}" "of_nat :: nat \<Rightarrow> u8"] by simp
  finally show ?thesis .
qed

lemma bomb_storage_free:
  assumes "bombs_ok c" "stock_ok c" "arrays_ok c"
  shows "\<exists>k. first_index MAX_BOMBS (\<lambda>j. bm_owner_id (bombs c ! j) = 0) = Some k"
proof (rule ccontr)
  assume "\<not> ?thesis"
  then have "\<forall>j < 64. bm_owner_id (bombs c ! j) \<noteq> 0"
    using first_index_None_iff [of 64 "\<lambda>j. bm_owner_id (bombs c ! j) = 0"] by auto
  then have "filter (\<lambda>b. bm_owner_id b \<noteq> 0) (bombs c) = bombs c"
    using assms(3) by (auto simp: filter_id_conv in_set_conv_nth arrays_ok_def)
  then have "bombs_left c = 64" using assms(3) by (simp add: bombs_left_def arrays_ok_def)
  then show False using few_bombs [OF assms] by simp
qed


definition placed :: "nat \<Rightarrow> server_ctx_t \<Rightarrow> server_ctx_t \<Rightarrow> bool" where
  "placed i c c' \<longleftrightarrow> (let p = players c ! i in
     players c' = (players c)[i := p\<lparr>pl_bomb_count := pl_bomb_count p - 1\<rparr>] \<and>
     (\<exists>k < MAX_BOMBS. bm_owner_id (bombs c ! k) = 0 \<and> bombs c' = (bombs c)[k := bomb_of p]) \<and>
     map_rows (game_map c') = map_rows (game_map c) \<and> map_cols (game_map c') = map_cols (game_map c) \<and>
     wf_map (game_map c') \<and> rest c' = rest c \<and>
     (\<forall>r k. gs_cell_get (state c') r k =
        (if r = pl_row p \<and> k = pl_col p then CELL_BOMB else gs_cell_get (state c) r k)))"

text \<open>The state changes of the accepting branch.\<close>

lemma place_bomb_ctx:
  assumes inv: "server_inv c" and i: "i < MAX_PLAYERS"
    and k: "first_index MAX_BOMBS (\<lambda>j. bm_owner_id (bombs c ! j) = 0) = Some k"
    and c': "c' = upd_player i (\<lambda>p. p\<lparr>pl_bomb_count := pl_bomb_count p - 1\<rparr>)
      (ctx (cell_set (pl_row (players c ! i)) (pl_col (players c ! i)) CELL_BOMB t))"
    and t: "ctx t = c\<lparr>state := (state c)\<lparr>gs_bombs := (bombs c)[k := bomb_of (players c ! i)]\<rparr>\<rparr>"
  shows "placed i c c'"
proof -
  note I = server_invD [OF inv]
  let ?p = "players c ! i"
  have "in_map c (pl_row ?p) (pl_col ?p)" using I(4) i by (simp add: places_ok_def)
  then have "gs_in_bounds (state (ctx t)) (pl_row ?p) (pl_col ?p)"
    using in_map_in_bounds [OF I(2)] by (simp add: t gs_in_bounds_def)
  then obtain st where st: "gs_cell_set (state (ctx t)) (pl_row ?p) (pl_col ?p) CELL_BOMB = Some st"
    using gs_cell_set_Some by blast
  have wf: "wf_map (gs_map (state (ctx t)))" using I(2) by (simp add: t board_ok_def)
  have old: "gs_cell_get (state (ctx t)) r k = gs_cell_get (state c) r k" for r k
    by (rule cell_get_state_cong) (simp add: t)
  note fr = gs_cell_set_frame [OF st] and get = gs_cell_get_set [OF wf st]
  have "c' = (ctx t)\<lparr>state := st\<lparr>gs_players := (gs_players st)[i := (gs_players st ! i)
      \<lparr>pl_bomb_count := pl_bomb_count (gs_players st ! i) - 1\<rparr>]\<rparr>\<rparr>"
    unfolding c' by (simp add: cell_set_ctx st upd_player_def upd_state_def)
  then have c'_eq: "c' = c\<lparr>state := st\<lparr>gs_players := (players c)[i := ?p\<lparr>pl_bomb_count := pl_bomb_count ?p - 1\<rparr>]\<rparr>\<rparr>"
    using fr(1) by (simp add: t)
  have get': "gs_cell_get (state c') r k = gs_cell_get st r k" for r k
    by (rule cell_get_state_cong) (simp add: c'_eq)
  have kb: "k < 64" "bm_owner_id (bombs c ! k) = 0" using first_index_SomeD [OF k] by simp_all
  have bs: "bombs c' = (bombs c)[k := bomb_of ?p]" using fr(2) by (simp add: c'_eq t)
  have dims: "map_rows (game_map c') = map_rows (game_map c)" "map_cols (game_map c') = map_cols (game_map c)"
    "wf_map (game_map c')"
    using fr(5,6) gs_cell_set_wf [OF wf st] by (simp_all add: c'_eq t)
  have "rest c' = rest c" using fr(3,4) by (simp add: c'_eq t rest_def)
  moreover have "players c' = (players c)[i := ?p\<lparr>pl_bomb_count := pl_bomb_count ?p - 1\<rparr>]" by (simp add: c'_eq)
  ultimately show ?thesis
    unfolding placed_def Let_def get' get old using kb bs dims by blast
qed

lemma handle_bomb_cases:
  assumes inv: "server_inv (ctx s)" and i: "i < MAX_PLAYERS" "cl_active (clients (ctx s) ! i)"
  shows "may_place (ctx s) i idx \<Longrightarrow> fst (handle_bomb_attempt i (u16_bytes idx) s) = 0 \<and>
      placed i (ctx s) (ctx (snd (handle_bomb_attempt i (u16_bytes idx) s)))"
    and "\<not> may_place (ctx s) i idx \<Longrightarrow> fst (handle_bomb_attempt i (u16_bytes idx) s) = 0 \<and>
      refused i s (snd (handle_bomb_attempt i (u16_bytes idx) s))"
proof -
  let ?c = "ctx s" and ?p = "players (ctx s) ! i"
  note I = server_invD [OF inv]
  note sl = slot_of_client [OF I(3) i]
  have dec: "proto_decode_bomb_attempt_payload m0 (u16_bytes idx) = Some \<lparr>bomb_attempt_cell_index = idx\<rparr>" for m0
    by (simp add: bomb_attempt.dec_iff bomb_attempt_wire_def)
  obtain k where k: "first_index 64 (\<lambda>j. bm_owner_id (bombs ?c ! j) = 0) = Some k"
    using bomb_storage_free [OF I(6,7,1)] by blast
  then have add: "gs_add_bomb (state ?c) b = Some (k, (state ?c)\<lparr>gs_bombs := (bombs ?c)[k := b]\<rparr>)" for b
    by (simp add: gs_add_bomb_def)
  note unfold = handle_bomb_attempt_def Let_def dec option.case sl(1) add prod.case
    msg_bomb_attempt_t.select_convs bomb_of_def [symmetric]
  have may: "may_place ?c i idx \<longleftrightarrow> gs_status (state ?c) = GAME_RUNNING \<and> pl_alive ?p \<and>
      idx = make_cell_index (pl_row ?p) (pl_col ?p) (map_cols (game_map ?c)) \<and> pl_bomb_count ?p \<noteq> 0 \<and>
      first_index 64 (\<lambda>j. bm_owner_id (bombs ?c ! j) \<noteq> 0 \<and> bm_row (bombs ?c ! j) = pl_row ?p \<and>
        bm_col (bombs ?c ! j) = pl_col ?p) = None"
    by (auto simp: may_place_def Let_def first_index_None_iff)
  show "fst (handle_bomb_attempt i (u16_bytes idx) s) = 0 \<and>
      placed i ?c (ctx (snd (handle_bomb_attempt i (u16_bytes idx) s)))" if "may_place ?c i idx"
  proof -
    let ?t = "upd_ctx (upd_state (\<lambda>_. (state ?c)\<lparr>gs_bombs := (bombs ?c)[k := bomb_of ?p]\<rparr>)) s"
    have "ctx ?t = ?c\<lparr>state := (state ?c)\<lparr>gs_bombs := (bombs ?c)[k := bomb_of ?p]\<rparr>\<rparr>"
      by (simp add: upd_state_def)
    note place_bomb_ctx [OF inv i(1) k refl this]
    then show ?thesis using that unfolding may unfold by simp
  qed
  show "fst (handle_bomb_attempt i (u16_bytes idx) s) = 0 \<and>
      refused i s (snd (handle_bomb_attempt i (u16_bytes idx) s))" if "\<not> may_place ?c i idx"
    using that refusedI [OF i(2)] unfolding may unfold by auto
qed

lemma placed_inv:
  assumes inv: "server_inv c" and i: "i < MAX_PLAYERS" and may: "may_place c i idx" and pl: "placed i c c'"
  shows "server_inv c'"
proof -
  note I = server_invD [OF inv]
  let ?p = "players c ! i"
  from pl obtain k where k: "k < 64" "bm_owner_id (bombs c ! k) = 0" and bs: "bombs c' = (bombs c)[k := bomb_of ?p]"
    and ps: "players c' = (players c)[i := ?p\<lparr>pl_bomb_count := pl_bomb_count ?p - 1\<rparr>]"
    and dims: "map_rows (game_map c') = map_rows (game_map c)" "map_cols (game_map c') = map_cols (game_map c)"
      "wf_map (game_map c')" and rest: "rest c' = rest c"
    and get: "\<And>r k. gs_cell_get (state c') r k =
      (if r = pl_row ?p \<and> k = pl_col ?p then CELL_BOMB else gs_cell_get (state c) r k)"
    unfolding placed_def Let_def by blast
  have run: "gs_status (state c) = GAME_RUNNING" and alive: "pl_alive ?p" and count: "pl_bomb_count ?p \<noteq> 0"
    and clear: "\<And>j. j < 64 \<Longrightarrow> bm_owner_id (bombs c ! j) \<noteq> 0 \<Longrightarrow>
      \<not> (bm_row (bombs c ! j) = pl_row ?p \<and> bm_col (bombs c ! j) = pl_col ?p)"
    using may by (auto simp: may_place_def Let_def)
  note rf = rest_fields [OF rest]
  have len: "length (players c) = 8" "length (bombs c) = 64" using I(1) by (simp_all add: arrays_ok_def)
  have pid: "pl_id ?p = of_nat (Suc i)" using I(3) i by (simp add: ids_ok_def)
  have in_map: "in_map c' = in_map c" by (simp add: in_map_def fun_eq_iff dims)
  have here: "in_map c (pl_row ?p) (pl_col ?p)" using I(4) i by (simp add: places_ok_def)
  have uid: "unat (pl_id ?p) = Suc i" unfolding pid using i by (intro unat_of_nat_u8) simp
  then have oid: "pl_id ?p \<noteq> 0" by (metis nat.distinct(1) unat_0)
  have bi: "bombs c' ! j = (if j = k then bomb_of ?p else bombs c ! j)" if "j < 64" for j
    using that len bs by simp
  have bombs: "bombs_ok c'"
    unfolding bombs_ok_def in_map
  proof (intro conjI allI impI)
    fix j assume j: "j < 64" "bm_owner_id (bombs c' ! j) \<noteq> 0"
    show "unat (bm_owner_id (bombs c' ! j)) \<le> 8" "in_map c (bm_row (bombs c' ! j)) (bm_col (bombs c' ! j))"
      "gs_cell_get (state c') (bm_row (bombs c' ! j)) (bm_col (bombs c' ! j)) = CELL_BOMB"
      using j i I(6) here uid by (auto simp: bi bomb_of_def bombs_ok_def get split: if_splits)
  next
    fix j l assume jl: "j < 64" "l < 64" "bm_owner_id (bombs c' ! j) \<noteq> 0" "bm_owner_id (bombs c' ! l) \<noteq> 0"
      "bm_row (bombs c' ! j) = bm_row (bombs c' ! l)" "bm_col (bombs c' ! j) = bm_col (bombs c' ! l)"
    have old: "bm_owner_id (bombs c ! j) \<noteq> 0 \<longrightarrow> bm_owner_id (bombs c ! l) \<noteq> 0 \<longrightarrow>
        bm_row (bombs c ! j) = bm_row (bombs c ! l) \<longrightarrow> bm_col (bombs c ! j) = bm_col (bombs c ! l) \<longrightarrow> j = l"
      using I(6) jl(1,2) unfolding bombs_ok_def by blast
    show "j = l"
      using jl old clear [OF jl(1)] clear [OF jl(2)]
      by (cases "j = k"; cases "l = k") (simp_all add: bi bomb_of_def)
  qed
  have own: "own_bombs c' a = (if a = pl_id ?p then Suc (own_bombs c a) else own_bombs c a)" if "a \<noteq> 0" for a
    using that k len filter_update_present [of k "bombs c" "\<lambda>b. bm_owner_id b = a" "bomb_of ?p"]
      filter_update_neither [of "\<lambda>b. bm_owner_id b = a" "bombs c" k "bomb_of ?p"]
    by (auto simp: own_bombs_def bs bomb_of_def)
  have mine: "unat (pl_bomb_count ?p) + own_bombs c (pl_id ?p) = 1"
    using I(7) alive i unfolding stock_ok_def pid by blast
  moreover have "0 < unat (pl_bomb_count ?p)" using count by (simp add: unat_gt_0)
  ultimately have zero: "own_bombs c (pl_id ?p) = 0" "pl_bomb_count ?p = 1"
    by (simp_all add: word_unat_eq_iff)
  have stock: "stock_ok c'"
    unfolding stock_ok_def
  proof (intro conjI allI impI)
    show "own_bombs c' a \<le> 1" if "a \<noteq> 0" for a
      using I(7) own [OF that] zero(1) that by (auto simp: stock_ok_def)
    fix j assume j: "j < 8" "pl_alive (players c' ! j)"
    have other: "of_nat (Suc j) = pl_id ?p \<longleftrightarrow> j = i"
      using j(1) i unfolding pid by (subst of_nat_u8_inj) auto
    show "unat (pl_bomb_count (players c' ! j)) + own_bombs c' (of_nat (Suc j)) = 1"
    proof (cases "j = i")
      case True
      then show ?thesis using own [OF oid] zero i len unfolding ps by (simp add: pid del: of_nat_Suc)
    next
      case False
      then have "pl_alive (players c ! j)" "players c' ! j = players c ! j" using j len by (simp_all add: ps)
      then show ?thesis
        using False other own [OF of_nat_Suc_u8_nonzero, of j] I(7) j(1) by (simp add: stock_ok_def del: of_nat_Suc)
    qed
  qed
  have same: "f (players c' ! j) = f (players c ! j)"
    if "f (?p\<lparr>pl_bomb_count := pl_bomb_count ?p - 1\<rparr>) = f ?p" for j and f :: "player_t \<Rightarrow> 'a"
    using that i len by (cases "j = i") (simp_all add: ps)
  note fields = same [of pl_id] same [of pl_alive] same [of pl_lives] same [of pl_row] same [of pl_col]
  have "arrays_ok c'" using I(1) by (simp add: arrays_ok_def ps bs rf)
  moreover have "board_ok c'" using I(2) dims by (simp add: board_ok_def rf)
  moreover have "ids_ok c'" using I(3) by (simp add: ids_ok_def fields rf)
  moreover have "places_ok c'" using I(4) by (simp add: places_ok_def in_map fields rf)
  moreover have "life_ok c'" using I(5) by (simp add: life_ok_def fields rf)
  moreover have "lobby_ok c'" using run by (simp add: lobby_ok_def rf)
  moreover have "explosions_ok c'" using I(9) dims(1,2) by (rule explosions_ok_mono) (simp_all add: rf get)
  moreover have "names_ok c'" "fds_ok c'" using I(10,11) by (simp_all add: names_ok_def fds_ok_def rf)
  ultimately show ?thesis using bombs stock by (intro server_invI)
qed

end
