(* ===== verification/Round_Spec.thy ===== *)
theory Round_Spec
  imports Handler_Spec
begin

text \<open>
  The operations that replace a whole part of the context: the reset of a round, connecting and
  disconnecting a client, and the greeting; each keeps the invariant.
\<close>

section \<open>Resetting a round\<close>

definition respawned :: "server_ctx_t \<Rightarrow> nat \<Rightarrow> player_t \<Rightarrow> player_t" where
  "respawned c i p = (let p = reset_player c p in
     if spawn_defined c ! i then p\<lparr>pl_row := spawn_rows c ! i, pl_col := spawn_cols c ! i\<rparr> else p)"

definition fresh_round :: "server_ctx_t \<Rightarrow> server_ctx_t" where
  "fresh_round c = c\<lparr>state := (state c)\<lparr>
     gs_map := (game_map c)\<lparr>map_cells := Some (take (unat (initial_cell_count c)) (initial_cells c))\<rparr>,
     gs_bombs := replicate MAX_BOMBS zero_bomb, gs_players := imap (respawned c) (players c)\<rparr>,
     explosions := replicate MAX_BOMBS zero_explosion\<rparr>"

lemma reset_player_state [simp]: "reset_player (c\<lparr>state := st\<rparr>) = reset_player c"
  by (simp add: reset_player_def fun_eq_iff)

lemma clear_all_bombs:
  assumes "length (gs_bombs st) = MAX_BOMBS"
  shows "for_range MAX_BOMBS (\<lambda>i st. gs_clear_bomb st i) st = st\<lparr>gs_bombs := replicate MAX_BOMBS zero_bomb\<rparr>"
proof -
  let ?upd = "\<lambda>f st. st\<lparr>gs_bombs := f (gs_bombs st)\<rparr>"
  have "for_range 64 (\<lambda>i st. gs_clear_bomb st i) st = ?upd (for_range 64 (\<lambda>i bs. bs[i := zero_bomb])) st"
    by (rule for_range_lift) (simp_all add: gs_clear_bomb_def)
  also have "for_range 64 (\<lambda>i bs. bs[i := zero_bomb]) (gs_bombs st) = replicate 64 zero_bomb"
    using for_range_update [of 64 "gs_bombs st" "\<lambda>_ _. zero_bomb"] assms
    by (intro nth_equalityI) simp_all
  then have "?upd (for_range 64 (\<lambda>i bs. bs[i := zero_bomb])) st = st\<lparr>gs_bombs := replicate 64 zero_bomb\<rparr>" by simp
  finally show ?thesis .
qed

lemma clear_all_explosions:
  assumes "length (explosions c) = MAX_BOMBS"
  shows "for_range MAX_BOMBS (\<lambda>i c. c\<lparr>explosions := (explosions c)[i := zero_explosion]\<rparr>) c =
    c\<lparr>explosions := replicate MAX_BOMBS zero_explosion\<rparr>"
proof -
  let ?upd = "\<lambda>f c. c\<lparr>explosions := f (explosions c)\<rparr>"
  have "for_range 64 (\<lambda>i c. c\<lparr>explosions := (explosions c)[i := zero_explosion]\<rparr>) c =
      ?upd (for_range 64 (\<lambda>i es. es[i := zero_explosion])) c"
    by (rule for_range_lift) simp_all
  also have "for_range 64 (\<lambda>i es. es[i := zero_explosion]) (explosions c) = replicate 64 zero_explosion"
    using for_range_update [of 64 "explosions c" "\<lambda>_ _. zero_explosion"] assms
    by (intro nth_equalityI) simp_all
  then have "?upd (for_range 64 (\<lambda>i es. es[i := zero_explosion])) c = c\<lparr>explosions := replicate 64 zero_explosion\<rparr>"
    by simp
  finally show ?thesis .
qed

lemma respawn_players:
  assumes "length (players c) = MAX_PLAYERS"
  shows "for_range MAX_PLAYERS (\<lambda>i c.
      let c = upd_player i (reset_player c) c in
      if spawn_defined c ! i
      then upd_player i (\<lambda>p. p\<lparr>pl_row := spawn_rows c ! i, pl_col := spawn_cols c ! i\<rparr>) c
      else c) c = upd_players (imap (respawned c)) c"
    (is "for_range _ ?body c = _")
proof -
  let ?loop = "\<lambda>n. for_range n (\<lambda>i ps. ps[i := respawned c i (ps ! i)]) (players c)"
  let ?P = "\<lambda>n t. t = upd_players (\<lambda>_. ?loop n) c \<and> length (?loop n) = 8"
  have "?P 8 (for_range 8 ?body c)"
  proof (rule for_range_inv [where P = ?P], goal_cases)
    case 1
    then show ?case using assms by (simp add: upd_players_def upd_state_def)
  next
    case (2 i t)
    then have t: "t = upd_players (\<lambda>_. ?loop i) c" and len: "length (?loop i) = 8" by blast+
    have "?body i t = upd_player i (respawned c i) t"
      unfolding Let_def respawned_def using 2(1) len
      by (simp add: upd_player_def upd_state_def t upd_players_def)
    then show ?case using len 2(1) by (simp add: t upd_players_def upd_player_def upd_state_def)
  qed
  moreover have "?loop 8 = imap (respawned c) (players c)"
    using for_range_update [of 8 "players c" "respawned c"] assms by (simp add: imap_def cong: map_cong)
  ultimately show ?thesis by (simp add: upd_players_def upd_state_def)
qed


lemma reset_round_eq:
  assumes "arrays_ok c" "board_ok c"
  shows "server_reset_round c = fresh_round c"
proof -
  have len: "length (players c) = 8" "length (bombs c) = 64" "length (explosions c) = 64"
    "length (initial_cells c) = 65025" using assms(1) by (simp_all add: arrays_ok_def)
  obtain cs where cs: "map_cells (game_map c) = Some cs" "length cs = unat (initial_cell_count c)"
    and pos: "0 < unat (initial_cell_count c)" "unat (initial_cell_count c) \<le> 65025"
    using assms(2) by (auto simp: board_ok_def wf_map_def word_less_nat_alt)
  let ?c1 = "upd_state (\<lambda>st. st\<lparr>gs_map := (gs_map st)\<lparr>map_cells := map_option
      (blit 0 (take (unat (initial_cell_count c)) (initial_cells c))) (map_cells (gs_map st))\<rparr>\<rparr>) c"
  have "blit 0 (take (unat (initial_cell_count c)) (initial_cells c)) cs = take (unat (initial_cell_count c)) (initial_cells c)"
    using len(4) pos(2) cs(2) by (intro blit_same_length) simp
  then have c1: "?c1 = c\<lparr>state := (state c)\<lparr>gs_map := (game_map c)
      \<lparr>map_cells := Some (take (unat (initial_cell_count c)) (initial_cells c))\<rparr>\<rparr>\<rparr>"
    by (simp add: upd_state_def cs(1))
  let ?c2 = "c\<lparr>state := (state c)\<lparr>gs_map := (game_map c)
      \<lparr>map_cells := Some (take (unat (initial_cell_count c)) (initial_cells c))\<rparr>,
      gs_bombs := replicate 64 zero_bomb\<rparr>\<rparr>"
  have c2: "upd_state (\<lambda>st. for_range 64 (\<lambda>i st. gs_clear_bomb st i) st) ?c1 = ?c2"
    unfolding c1 by (simp add: upd_state_def clear_all_bombs len)
  let ?c3 = "?c2\<lparr>explosions := replicate 64 zero_explosion\<rparr>"
  have c3: "for_range 64 (\<lambda>i c. c\<lparr>explosions := (explosions c)[i := zero_explosion]\<rparr>) ?c2 = ?c3"
    by (rule clear_all_explosions) (simp add: len)
  have "respawned ?c3 = respawned c"
    by (simp add: respawned_def reset_player_def fun_eq_iff Let_def)
  moreover have "server_reset_round c = upd_players (imap (respawned ?c3)) ?c3"
  proof -
    have "length (players ?c3) = 8" by (simp add: len)
    note rp = respawn_players [OF this, unfolded Let_def]
    show ?thesis by (simp only: server_reset_round_def Let_def pos(1) if_True c2 c3 rp)
  qed
  ultimately show ?thesis by (simp add: fresh_round_def upd_players_def upd_state_def)
qed


lemma respawned_fields [simp]:
  "pl_id (respawned c i p) = pl_id p" "pl_alive (respawned c i p) = False"
  "pl_ready (respawned c i p) = False" "pl_lives (respawned c i p) = 0"
  "pl_bomb_count (respawned c i p) = 1" "pl_bomb_radius (respawned c i p) = default_bomb_radius c"
  "pl_bomb_timer_ticks (respawned c i p) = default_bomb_timer_ticks c"
  "pl_speed (respawned c i p) = default_speed c"
  by (simp_all add: respawned_def reset_player_def Let_def)

definition lobby_reset :: "server_ctx_t \<Rightarrow> server_ctx_t" where
  "lobby_reset c = upd_state (\<lambda>g. g\<lparr>gs_status := GAME_LOBBY\<rparr>) (fresh_round c)"

lemma lobby_reset_inv:
  assumes inv: "server_inv c"
  shows "server_inv (lobby_reset c)"
proof -
  note I = server_invD [OF inv]
  let ?c = "lobby_reset c"
  have len: "length (players c) = 8" "length (initial_cells c) = 65025" using I(1) by (simp_all add: arrays_ok_def)
  have fields: "players ?c = imap (respawned c) (players c)" "bombs ?c = replicate 64 zero_bomb"
    "explosions ?c = replicate 64 zero_explosion" "gs_status (state ?c) = GAME_LOBBY"
    "clients ?c = clients c" "map_rows (game_map ?c) = map_rows (game_map c)"
    "map_cols (game_map ?c) = map_cols (game_map c)" "spawn_defined ?c = spawn_defined c"
    "spawn_rows ?c = spawn_rows c" "spawn_cols ?c = spawn_cols c" "initial_cells ?c = initial_cells c"
    "initial_cell_count ?c = initial_cell_count c"
    "map_cells (game_map ?c) = Some (take (unat (initial_cell_count c)) (initial_cells c))"
    by (simp_all add: lobby_reset_def fresh_round_def upd_state_def)
  have in_map: "in_map ?c = in_map c" by (simp add: in_map_def fun_eq_iff fields)
  have "own_bombs ?c oid = 0" if "oid \<noteq> 0" for oid
    using that by (simp add: own_bombs_0_iff fields)
  then have "stock_ok ?c" using len by (simp add: stock_ok_def fields)
  moreover have "arrays_ok ?c" using I(1) by (simp add: arrays_ok_def fields)
  moreover have "board_ok ?c" using I(2) len by (simp add: board_ok_def wf_map_def fields)
  moreover have "ids_ok ?c" using I(3) len by (simp add: ids_ok_def fields)
  moreover have "places_ok ?c"
    using I(4) len unfolding places_ok_def in_map fields by (simp add: respawned_def reset_player_def Let_def)
  moreover have "life_ok ?c" using len by (simp add: life_ok_def fields)
  moreover have "bombs_ok ?c" by (simp add: bombs_ok_def fields)
  moreover have "lobby_ok ?c" using len by (simp add: lobby_ok_def fields zero_explosion_def)
  moreover have "explosions_ok ?c" by (simp add: explosions_ok_def fields zero_explosion_def)
  moreover have "names_ok ?c" "fds_ok ?c" using I(10,11) by (simp_all add: names_ok_def fds_ok_def fields)
  ultimately show ?thesis by (intro server_invI)
qed

lemma handle_set_status_cases:
  assumes inv: "server_inv (ctx s)" and i: "cl_active (clients (ctx s) ! i)"
  shows "gs_status (state (ctx s)) = GAME_END \<Longrightarrow>
      fst (handle_set_status i [0] s) = 0 \<and> ctx (snd (handle_set_status i [0] s)) = lobby_reset (ctx s)"
    and "gs_status (state (ctx s)) \<noteq> GAME_END \<or> v \<noteq> 0 \<Longrightarrow>
      fst (handle_set_status i [v] s) = 0 \<and> refused i s (snd (handle_set_status i [v] s))"
proof -
  have dec: "proto_decode_set_status_payload m0 [v] = Some \<lparr>set_status_status = v\<rparr>" for m0 v
    by (simp add: set_status.dec_iff set_status_wire_def)
  have zero: "(ucast v :: u32) = 0 \<longleftrightarrow> v = 0" for v :: u8
  proof -
    have "unat (ucast v :: u32) = unat v"
      by (simp add: unsigned_ucast_eq take_bit_nat_def mod_less order_less_trans [OF unat_u8_less])
    then show ?thesis by (metis unat_eq_zero)
  qed
  show "fst (handle_set_status i [0] s) = 0 \<and> ctx (snd (handle_set_status i [0] s)) = lobby_reset (ctx s)"
    if "gs_status (state (ctx s)) = GAME_END"
    using that server_invD(1,2) [OF inv]
    by (simp add: handle_set_status_def dec transition_ctx reset_round_eq lobby_reset_def)
  show "fst (handle_set_status i [v] s) = 0 \<and> refused i s (snd (handle_set_status i [v] s))"
    if "gs_status (state (ctx s)) \<noteq> GAME_END \<or> v \<noteq> 0"
    using that refusedI [OF i] by (auto simp: handle_set_status_def dec zero)
qed


section \<open>Replacing one client and its player\<close>

lemma in_set_update: "y \<in> set (xs[i := x]) \<Longrightarrow> y = x \<or> y \<in> set xs"
  using set_update_subset_insert [of xs i x] by blast

definition replaced :: "nat \<Rightarrow> server_client_t \<Rightarrow> player_t \<Rightarrow> server_ctx_t \<Rightarrow> server_ctx_t" where
  "replaced i cl p c = c\<lparr>clients := (clients c)[i := cl], state := (state c)\<lparr>gs_players := (players c)[i := p]\<rparr>\<rparr>"

lemma replaced_inv:
  assumes inv: "server_inv c" and i: "i < MAX_PLAYERS"
    and len: "length (cl_client_id cl) = MAX_ID_LEN + 1" "length (cl_name cl) = MAX_NAME_LEN + 1"
    and ids: "pl_id p = pl_id (players c ! i)" "cl_active cl \<Longrightarrow> cl_id cl = of_nat (Suc i)"
    and place: "in_map c (pl_row p) (pl_col p)"
    and life: "pl_alive p \<Longrightarrow> cl_active cl" "pl_lives p = (if pl_alive p then 1 else 0)"
      "pl_alive p \<Longrightarrow> pl_alive (players c ! i)"
    and count: "pl_bomb_count p = pl_bomb_count (players c ! i) \<or> pl_bomb_count p = 1 \<and> \<not> pl_alive p"
    and names: "\<And>j. j < MAX_PLAYERS \<Longrightarrow> j \<noteq> i \<Longrightarrow> cl_active (clients c ! j) \<Longrightarrow> cl_active cl \<Longrightarrow>
      strncmp_eq (cl_name cl) (cl_name (clients c ! j)) MAX_NAME_LEN \<Longrightarrow> c_strn MAX_NAME_LEN (cl_name cl) = []"
    and fds: "cl_active cl \<Longrightarrow> 0 \<le> cl_fd cl"
      "\<And>j. j < MAX_PLAYERS \<Longrightarrow> j \<noteq> i \<Longrightarrow> cl_active (clients c ! j) \<Longrightarrow> cl_active cl \<Longrightarrow> cl_fd cl \<noteq> cl_fd (clients c ! j)"
  shows "server_inv (replaced i cl p c)"
proof -
  note I = server_invD [OF inv]
  let ?c = "replaced i cl p c"
  have lens: "length (players c) = 8" "length (clients c) = 8" using I(1) by (simp_all add: arrays_ok_def)
  have at: "clients ?c ! j = (if j = i then cl else clients c ! j)" "players ?c ! j = (if j = i then p else players c ! j)"
    if "j < 8" for j
    using that lens by (simp_all add: replaced_def)
  have in_map: "in_map ?c = in_map c" by (simp add: in_map_def fun_eq_iff replaced_def)
  have get: "gs_cell_get (state ?c) r k = gs_cell_get (state c) r k" for r k
    by (rule cell_get_state_cong) (simp add: replaced_def)
  have own: "own_bombs ?c = own_bombs c" by (simp add: own_bombs_def fun_eq_iff replaced_def)
  have "length (cl_client_id y) = 21 \<and> length (cl_name y) = 16" if "y \<in> set (clients ?c)" for y
    using in_set_update [of y "clients c" i cl] that len I(1) by (auto simp: replaced_def arrays_ok_def)
  then have "arrays_ok ?c" using I(1) by (auto simp: arrays_ok_def replaced_def)
  moreover have "board_ok ?c" using I(2) by (simp add: board_ok_def replaced_def)
  moreover have "ids_ok ?c" using I(3) ids i by (auto simp: ids_ok_def at)
  moreover have "places_ok ?c"
    using I(4) place unfolding places_ok_def in_map by (auto simp: at) (simp_all add: replaced_def)
  moreover have "life_ok ?c" using I(5) life i by (auto simp: life_ok_def at)
  moreover have "bombs_ok ?c" using I(6) unfolding bombs_ok_def in_map get by (simp add: replaced_def)
  moreover have "stock_ok ?c" using I(7) count life(3) i unfolding stock_ok_def own
    by (auto simp: at simp del: of_nat_Suc)
  moreover have "lobby_ok ?c"
  proof -
    have "gs_status (state ?c) = gs_status (state c)" "bombs ?c = bombs c" "explosions ?c = explosions c"
      by (simp_all add: replaced_def)
    then show ?thesis using I(8) count life(3) i unfolding lobby_ok_def by (auto simp: at)
  qed
  moreover have "explosions_ok ?c" using I(9)
    by (rule explosions_ok_mono) (simp_all add: get, simp_all add: replaced_def)
  moreover have "names_ok ?c"
    unfolding names_ok_def
  proof (intro allI impI)
    fix j l assume jl: "j < 8" "l < 8" "j \<noteq> l" "cl_active (clients ?c ! j)" "cl_active (clients ?c ! l)"
      "strncmp_eq (cl_name (clients ?c ! j)) (cl_name (clients ?c ! l)) 15"
    have eq: "c_strn 15 (cl_name (clients ?c ! j)) = c_strn 15 (cl_name (clients ?c ! l))"
      using jl(6) by (simp add: strncmp_eq_def)
    consider "j = i" "l \<noteq> i" | "j \<noteq> i" "l = i" | "j \<noteq> i" "l \<noteq> i" using jl(3) by blast
    then show "c_strn 15 (cl_name (clients ?c ! j)) = []"
    proof cases
      case 1
      then show ?thesis using jl names [of l] by (simp add: at)
    next
      case 2
      then have "strncmp_eq (cl_name cl) (cl_name (clients c ! j)) 15" using eq jl by (simp add: at strncmp_eq_def)
      then have "c_strn 15 (cl_name cl) = []" using 2 jl by (intro names [of j]) (simp_all add: at)
      then show ?thesis using 2 eq jl by (simp add: at)
    next
      case 3
      then show ?thesis using jl I(10) by (simp add: at names_ok_def)
    qed
  qed
  moreover have "fds_ok ?c"
  proof -
    have "j = l" if "j < 8" "l < 8" "cl_active (clients ?c ! j)" "cl_active (clients ?c ! l)"
      "cl_fd (clients ?c ! j) = cl_fd (clients ?c ! l)" for j l
      using that I(11) fds(2) [of j] fds(2) [of l] unfolding fds_ok_def
      by (cases "j = i"; cases "l = i") (auto simp: at)
    moreover have "0 \<le> cl_fd (clients ?c ! j)" if "j < 8" "cl_active (clients ?c ! j)" for j
      using that I(11) fds(1) unfolding fds_ok_def by (cases "j = i") (auto simp: at)
    ultimately show ?thesis unfolding fds_ok_def by blast
  qed
  ultimately show ?thesis by (intro server_invI)
qed


section \<open>Hello\<close>

definition may_join :: "server_ctx_t \<Rightarrow> nat \<Rightarrow> msg_hello_t \<Rightarrow> bool" where
  "may_join c i hello \<longleftrightarrow> (\<forall>j < MAX_PLAYERS. j \<noteq> i \<longrightarrow> cl_active (clients c ! j) \<longrightarrow>
     \<not> strncmp_eq (cl_name (clients c ! j)) (hello_player_name hello) MAX_NAME_LEN)"

definition named_client :: "msg_hello_t \<Rightarrow> server_client_t \<Rightarrow> server_client_t" where
  "named_client hello cl = cl\<lparr>
     cl_client_id := (strncpy (cl_client_id cl) (hello_client_id hello) MAX_ID_LEN)[MAX_ID_LEN := 0],
     cl_name := (strncpy (cl_name cl) (hello_player_name hello) MAX_NAME_LEN)[MAX_NAME_LEN := 0]\<rparr>"

definition named_player :: "msg_hello_t \<Rightarrow> player_t \<Rightarrow> player_t" where
  "named_player hello p =
     p\<lparr>pl_name := (strncpy (pl_name p) (hello_player_name hello) MAX_NAME_LEN)[MAX_NAME_LEN := 0]\<rparr>"

definition joined :: "nat \<Rightarrow> msg_hello_t \<Rightarrow> server_ctx_t \<Rightarrow> server_ctx_t" where
  "joined i hello c = replaced i (named_client hello (clients c ! i)) (named_player hello (players c ! i)) c"

lemma c_strn_terminated [simp]: "c_strn n (xs[n := v]) = c_strn n xs"
  by (simp add: c_strn_def)

lemma joined_inv:
  assumes inv: "server_inv c" and i: "i < MAX_PLAYERS" "cl_active (clients c ! i)" and may: "may_join c i hello"
  shows "server_inv (joined i hello c)"
proof -
  note I = server_invD [OF inv]
  have "length (cl_client_id (clients c ! i)) = 21 \<and> length (cl_name (clients c ! i)) = 16"
    using I(1) i by (simp add: arrays_ok_def)
  then show ?thesis
    unfolding joined_def using I(3,4,5,11) i may
    by (intro replaced_inv [OF inv i(1)])
      (auto simp: named_client_def named_player_def ids_ok_def places_ok_def life_ok_def fds_ok_def
        may_join_def strncmp_eq_def)
qed

lemma handle_hello_cases:
  assumes inv: "server_inv (ctx s)" and i: "i < MAX_PLAYERS" "cl_active (clients (ctx s) ! i)"
  shows "proto_decode_hello_payload zero_hello payload = None \<Longrightarrow>
      fst (handle_hello i payload s) = -1 \<and> refused i s (snd (handle_hello i payload s))"
    and "proto_decode_hello_payload zero_hello payload = Some hello \<Longrightarrow> \<not> may_join (ctx s) i hello \<Longrightarrow>
      fst (handle_hello i payload s) = -1 \<and> refused i s (snd (handle_hello i payload s))"
    and "proto_decode_hello_payload zero_hello payload = Some hello \<Longrightarrow> may_join (ctx s) i hello \<Longrightarrow>
      fst (handle_hello i payload s) = 0 \<and> ctx (snd (handle_hello i payload s)) = joined i hello (ctx s)"
proof -
  let ?c = "ctx s"
  note I = server_invD [OF inv]
  note sl = slot_of_client [OF I(3) i]
  have same_id: "cl_id (clients ?c ! j) = cl_id (clients ?c ! i) \<longleftrightarrow> j = i"
    if "j < 8" "cl_active (clients ?c ! j)" for j
    using slot_of_client(2) [OF I(3) that] sl(2) of_nat_u8_inj [of "Suc j" "Suc i"] that(1) i(1)
    by (simp del: of_nat_Suc)
  have clash: "(first_index 8 (\<lambda>j. \<not> (\<not> cl_active (clients ?c ! j) \<or> cl_id (clients ?c ! j) = cl_id (clients ?c ! i)) \<and>
      strncmp_eq (cl_name (clients ?c ! j)) (hello_player_name hello) 15) \<noteq> None) \<longleftrightarrow> \<not> may_join ?c i hello"
    unfolding first_index_None_iff may_join_def using same_id by blast
  show "fst (handle_hello i payload s) = -1 \<and> refused i s (snd (handle_hello i payload s))"
    if "proto_decode_hello_payload zero_hello payload = None"
    using that refusedI [OF i(2)] by (simp add: handle_hello_def Let_def)
  show "fst (handle_hello i payload s) = -1 \<and> refused i s (snd (handle_hello i payload s))"
    if "proto_decode_hello_payload zero_hello payload = Some hello" "\<not> may_join ?c i hello"
    using that refusedI [OF i(2)] unfolding handle_hello_def Let_def that(1) option.case clash by simp
  show "fst (handle_hello i payload s) = 0 \<and> ctx (snd (handle_hello i payload s)) = joined i hello ?c"
    if "proto_decode_hello_payload zero_hello payload = Some hello" "may_join ?c i hello"
  proof -
    have "upd_player i (named_player hello) (upd_client i (named_client hello) ?c) = joined i hello ?c"
      by (simp add: upd_player_def upd_client_def upd_state_def joined_def replaced_def)
    then show ?thesis
      using that(2) unfolding handle_hello_def Let_def that(1) option.case clash sl(1)
      by (simp add: named_client_def [abs_def] named_player_def [abs_def])
  qed
qed

section \<open>Connecting and disconnecting\<close>

definition left_client :: "server_client_t \<Rightarrow> server_client_t" where
  "left_client cl = cl\<lparr>cl_fd := -1, cl_active := False,
     cl_client_id := (cl_client_id cl)[0 := 0], cl_name := (cl_name cl)[0 := 0]\<rparr>"

definition left_player :: "player_t \<Rightarrow> player_t" where
  "left_player p = p\<lparr>pl_alive := False, pl_ready := False, pl_lives := 0\<rparr>"

definition left :: "nat \<Rightarrow> server_ctx_t \<Rightarrow> server_ctx_t" where
  "left i c = replaced i (left_client (clients c ! i)) (left_player (players c ! i)) c"

lemma disconnect_ctx:
  assumes "ids_ok (ctx s)" "i < MAX_PLAYERS"
  shows "ctx (server_disconnect_client i notify s) =
    (if cl_active (clients (ctx s) ! i) then left i (ctx s) else ctx s)"
  using slot_of_client(1) [OF assms]
  by (simp add: server_disconnect_client_def Let_def left_def replaced_def left_client_def left_player_def
      upd_client_def upd_player_def upd_state_def)

lemma left_inv:
  assumes inv: "server_inv c" and i: "i < MAX_PLAYERS"
  shows "server_inv (left i c)"
proof -
  note I = server_invD [OF inv]
  have "length (cl_client_id (clients c ! i)) = 21 \<and> length (cl_name (clients c ! i)) = 16"
    using I(1) i by (simp add: arrays_ok_def)
  then show ?thesis
    unfolding left_def using I(3,4) i
    by (intro replaced_inv [OF inv i]) (auto simp: left_client_def left_player_def ids_ok_def places_ok_def)
qed

definition spawn_point :: "server_ctx_t \<Rightarrow> nat \<Rightarrow> u16 \<times> u16" where
  "spawn_point c slot = (if spawn_defined c ! slot then (spawn_rows c ! slot, spawn_cols c ! slot)
     else first_free_cell c)"

lemma assign_spawn_eq:
  "assign_spawn slot c = upd_player slot (\<lambda>p. p\<lparr>pl_row := fst (spawn_point c slot), pl_col := snd (spawn_point c slot)\<rparr>) c"
  by (simp add: assign_spawn_def spawn_point_def)

lemma find_in_set: "find P xs = Some x \<Longrightarrow> x \<in> set xs"
  by (auto simp: find_Some_iff)

lemma first_free_cell_in_map:
  assumes "board_ok c"
  shows "in_map c (fst (first_free_cell c)) (snd (first_free_cell c))"
proof -
  let ?rows = "unat (map_rows (game_map c))" and ?cols = "unat (map_cols (game_map c))"
  let ?cells = "[(of_nat r, of_nat k). r \<leftarrow> [0..<?rows], k \<leftarrow> [0..<?cols]] :: (u16 \<times> u16) list"
  let ?ok = "\<lambda>(r, k). gs_cell_is_walkable (state c) r k \<and> \<not> map_has_player_at c r k"
  have inside: "in_map c (fst q) (snd q)" if q: "q \<in> set ?cells" for q
  proof -
    obtain r k where "q = (of_nat r, of_nat k)" "r < ?rows" "k < ?cols" using q by auto
    moreover from this have "r < 65536" "k < 65536" using unat_u16_less order_less_trans by blast+
    ultimately show ?thesis by (simp add: in_map_def word_less_nat_alt unat_of_nat_u16)
  qed
  have "in_map c 0 0" using assms by (simp add: in_map_def board_ok_def wf_map_def)
  moreover have "q \<in> set ?cells" if "find ?ok ?cells = Some q" for q
    using that by (rule find_in_set)
  ultimately show ?thesis
    using inside unfolding first_free_cell_def Let_def by (auto split: option.split)
qed


definition fresh_client :: "int \<Rightarrow> nat \<Rightarrow> server_client_t" where
  "fresh_client fd i = zero_client\<lparr>cl_fd := fd, cl_active := True, cl_id := of_nat (Suc i)\<rparr>"

definition fresh_player :: "server_ctx_t \<Rightarrow> nat \<Rightarrow> player_t \<Rightarrow> player_t" where
  "fresh_player c i p = (reset_player c p)\<lparr>pl_id := of_nat (Suc i)\<rparr>"

text \<open>
  The new client is already in the table, and its player still on its old cell, when the spawn is
  chosen.
\<close>

definition arriving :: "nat \<Rightarrow> int \<Rightarrow> server_ctx_t \<Rightarrow> server_ctx_t" where
  "arriving i fd c = replaced i (fresh_client fd i) (fresh_player c i (players c ! i)) c"

definition connected :: "nat \<Rightarrow> int \<Rightarrow> server_ctx_t \<Rightarrow> server_ctx_t" where
  "connected i fd c = replaced i (fresh_client fd i) ((fresh_player c i (players c ! i))
     \<lparr>pl_row := fst (spawn_point (arriving i fd c) i), pl_col := snd (spawn_point (arriving i fd c) i)\<rparr>) c"

lemma accept_ctx:
  assumes "arrays_ok (ctx s)" "0 \<le> fd"
  shows "ctx (accept_connection fd s) = (case find_free_client_slot (ctx s) of
     None \<Rightarrow> ctx s | Some i \<Rightarrow> connected i fd (ctx s))"
proof (cases "find_free_client_slot (ctx s)")
  case None
  then show ?thesis using assms(2) by (simp add: accept_connection_def)
next
  case (Some i)
  then have i: "i < 8" using first_index_SomeD(1) unfolding find_free_client_slot_def by blast
  let ?c = "ctx s"
  have "upd_player i (\<lambda>p. (reset_player c p)\<lparr>pl_id := of_nat (Suc i)\<rparr>)
      (upd_client i (\<lambda>_. fresh_client fd i) c) = arriving i fd c" for c
    by (simp add: arriving_def fresh_player_def replaced_def upd_player_def upd_client_def upd_state_def)
  moreover have "reset_player (upd_client i f c) = reset_player c" for f c
    by (simp add: reset_player_def upd_client_def fun_eq_iff)
  ultimately have "ctx (accept_connection fd s) = assign_spawn i (arriving i fd ?c)"
    using Some assms(2) by (simp add: accept_connection_def Let_def fresh_client_def)
  also have "\<dots> = connected i fd ?c"
    using i assms(1) by (simp add: assign_spawn_eq arriving_def connected_def replaced_def upd_player_def
        upd_state_def arrays_ok_def)
  finally show ?thesis using Some by simp
qed

lemma free_slot:
  assumes "find_free_client_slot c = Some i"
  shows "i < MAX_PLAYERS" "\<not> cl_active (clients c ! i)"
  using first_index_SomeD [OF assms [unfolded find_free_client_slot_def]] by simp_all

lemma connected_inv:
  assumes inv: "server_inv c" and slot: "find_free_client_slot c = Some i" and fd: "0 \<le> fd"
    and new: "\<And>j. j < MAX_PLAYERS \<Longrightarrow> cl_active (clients c ! j) \<Longrightarrow> cl_fd (clients c ! j) \<noteq> fd"
  shows "server_inv (connected i fd c)"
proof -
  note I = server_invD [OF inv] and i = free_slot [OF slot]
  let ?a = "arriving i fd c"
  have a: "in_map ?a r k = in_map c r k" "spawn_defined ?a = spawn_defined c" "spawn_rows ?a = spawn_rows c"
    "spawn_cols ?a = spawn_cols c" "board_ok ?a = board_ok c" for r k
    by (simp_all add: arriving_def replaced_def in_map_def board_ok_def)
  have "in_map c (fst (spawn_point ?a i)) (snd (spawn_point ?a i))"
    using I(2,4) i(1) first_free_cell_in_map [of ?a] by (simp add: spawn_point_def a places_ok_def)
  moreover have "c_strn 15 (replicate 16 0) = []" by (simp add: c_strn_def)
  ultimately show ?thesis
    unfolding connected_def using I(3) i fd new
    by (intro replaced_inv [OF inv i(1)])
      (auto simp: fresh_client_def fresh_player_def zero_client_def reset_player_def ids_ok_def strncmp_eq_def)
qed

section \<open>Every message keeps the invariant\<close>

lemma ready_inv:
  assumes inv: "server_inv c" and i: "i < MAX_PLAYERS"
  shows "server_inv (upd_player i (\<lambda>p. p\<lparr>pl_ready := True\<rparr>) c)"
proof -
  note I = server_invD [OF inv]
  have "gs_cell_get (state (upd_player i f c)) r k = gs_cell_get (state c) r k" for f r k
    by (rule cell_get_state_cong) (simp add: upd_player_def upd_state_def)
  then show ?thesis
    using I(2,4) i
    by (intro player_update_inv [OF inv, where i = i and p' = "(players c ! i)\<lparr>pl_ready := True\<rparr>"])
      (simp_all add: upd_player_def upd_state_def rest_def board_ok_def places_ok_def)
qed

lemma handle_message_inv:
  assumes inv: "server_inv (ctx s)" and i: "i < MAX_PLAYERS" "cl_active (clients (ctx s) ! i)"
  shows "server_inv (ctx (snd (server_handle_client_message i h payload s)))"
proof -
  note I = server_invD [OF inv]
  note sl = slot_of_client [OF I(3) i]
  have hello: "server_inv (ctx (snd (handle_hello i payload s)))"
    using handle_hello_cases [OF inv i, of payload] inv joined_inv [OF inv i] refused_ctx
    by (cases "proto_decode_hello_payload zero_hello payload") (metis, metis)
  have ready: "server_inv (ctx (snd (handle_set_ready i s)))"
  proof -
    let ?t = "if \<not> pl_ready (players (ctx s) ! i)
        then server_broadcast (msg_code MSG_SET_READY) (cl_id (clients (ctx s) ! i)) [] (-1)
          (upd_ctx (upd_player i (\<lambda>p. p\<lparr>pl_ready := True\<rparr>)) s) else s"
    have t: "server_inv (ctx ?t)" using inv ready_inv [OF inv i(1)] by simp
    then have "server_inv (ctx (maybe_start_game ?t))"
      using maybe_start_game_ctx(1) [of ?t] started_inv [OF t] server_invD(1) [OF t]
      by (simp add: can_start_def arrays_ok_def split: if_splits)
    then show ?thesis unfolding handle_set_ready_def Let_def sl(1) snd_conv .
  qed
  have move: "server_inv (ctx (snd (handle_move_attempt i payload s)))"
  proof (cases "proto_decode_move_attempt_payload \<lparr>move_direction = 0\<rparr> payload")
    case None
    then show ?thesis using inv by (simp add: handle_move_attempt_def Let_def)
  next
    case (Some m)
    then have "payload = [move_direction m]" by (simp add: move_attempt.dec_iff move_attempt_wire_def)
    then show ?thesis
      using handle_move_cases [OF inv i, of "move_direction m"] move_effect(5) [OF inv i(1), of "move_direction m"]
        inv refused_ctx by metis
  qed
  have place: "server_inv (ctx (snd (handle_bomb_attempt i payload s)))"
  proof (cases "proto_decode_bomb_attempt_payload \<lparr>bomb_attempt_cell_index = 0\<rparr> payload")
    case None
    then show ?thesis using inv by (simp add: handle_bomb_attempt_def Let_def)
  next
    case (Some m)
    then have "payload = u16_bytes (bomb_attempt_cell_index m)" by (simp add: bomb_attempt.dec_iff bomb_attempt_wire_def)
    then show ?thesis
      using handle_bomb_cases [OF inv i, of "bomb_attempt_cell_index m"] placed_inv [OF inv i(1)] inv refused_ctx
      by metis
  qed
  have status: "server_inv (ctx (snd (handle_set_status i payload s)))"
  proof (cases "proto_decode_set_status_payload \<lparr>set_status_status = 0\<rparr> payload")
    case None
    then show ?thesis using inv by (simp add: handle_set_status_def)
  next
    case (Some m)
    then have "payload = [set_status_status m]" by (simp add: set_status.dec_iff set_status_wire_def)
    then show ?thesis
      using handle_set_status_cases [OF inv i(2)] lobby_reset_inv [OF inv] inv refused_ctx by metis
  qed
  show ?thesis
    using inv hello ready move place status unfolding server_handle_client_message_def
    by (auto split: option.split msg_type_t.split)
qed

end
