(* ===== verification/Map_Loader.thy ===== *)
theory Map_Loader
  imports Round_Spec
begin

text \<open>
  \<open>server/map_loader.c\<close>.  The file is the list of its bytes.  \<open>fscanf\<close> is modelled for the two
  formats the loader uses; a number outside the range of \<open>int\<close>, for which \<open>fscanf\<close> is undefined,
  counts as no conversion.  The result is \<open>None\<close> for \<open>-1\<close>; the only caller, \<open>main\<close>, then exits.
\<close>

section \<open>Reading the file\<close>

definition is_space :: "u8 \<Rightarrow> bool" where
  "is_space b \<longleftrightarrow> b = 32 \<or> 9 \<le> b \<and> b \<le> 13"

definition is_digit :: "u8 \<Rightarrow> bool" where
  "is_digit b \<longleftrightarrow> 48 \<le> b \<and> b \<le> 57"

definition digits_value :: "u8 list \<Rightarrow> int" where
  "digits_value ds = foldl (\<lambda>n d. 10 * n + (int (unat d) - 48)) 0 ds"

text \<open>\<open>%d\<close>: white space, an optional sign, and at least one digit.\<close>

definition scan_int :: "u8 list \<Rightarrow> (int \<times> u8 list) option" where
  "scan_int bs =
     (let bs = dropWhile is_space bs;
          neg = (bs \<noteq> [] \<and> hd bs = 45);
          bs = (if bs \<noteq> [] \<and> (hd bs = 45 \<or> hd bs = 43) then tl bs else bs);
          ds = takeWhile is_digit bs;
          v = (if neg then - digits_value ds else digits_value ds)
      in if ds = [] \<or> v < - (2 ^ 31) \<or> v \<ge> 2 ^ 31 then None
         else Some (v, dropWhile is_digit bs))"

text \<open>\<open>" %15s"\<close>: white space, then one to fifteen other bytes.\<close>

definition scan_token :: "u8 list \<Rightarrow> (u8 list \<times> u8 list) option" where
  "scan_token bs =
     (let bs = dropWhile is_space bs;
          token = take 15 (takeWhile (\<lambda>b. \<not> is_space b) bs)
      in if token = [] then None else Some (token, drop (length token) bs))"

section \<open>Loading\<close>

definition is_supported_cell :: "u8 \<Rightarrow> bool" where
  "is_supported_cell c \<longleftrightarrow> c = CELL_EMPTY \<or> c = CELL_HARD \<or> c = CELL_SOFT \<or> c = CELL_BOMB \<or>
     c = CELL_BONUS_SPEED \<or> c = CELL_BONUS_RADIUS \<or> c = CELL_BONUS_TIMER"

definition load_cell :: "nat \<times> nat \<Rightarrow> u8 list \<times> server_ctx_t \<Rightarrow> (u8 list \<times> server_ctx_t) option" where
  "load_cell rc st = (case rc of (r, k) \<Rightarrow> case st of (bs, c) \<Rightarrow> do {
     (token, bs) \<leftarrow> scan_token bs;
     let cell = token ! 0;
     if is_digit cell then
       let player_slot = int (unat cell) - 49 in
       if player_slot < 0 \<or> player_slot \<ge> int MAX_PLAYERS then None
       else do {
         let c = c\<lparr>spawn_defined := (spawn_defined c)[nat player_slot := True],
                   spawn_rows := (spawn_rows c)[nat player_slot := of_nat r],
                   spawn_cols := (spawn_cols c)[nat player_slot := of_nat k]\<rparr>;
         st \<leftarrow> gs_cell_set (state c) (of_nat r) (of_nat k) CELL_EMPTY;
         Some (bs, c\<lparr>state := st\<rparr>)
       }
     else if is_supported_cell cell then do {
       st \<leftarrow> gs_cell_set (state c) (of_nat r) (of_nat k) cell;
       Some (bs, c\<lparr>state := st\<rparr>)
     }
     else None
   })"

definition load_player :: "nat \<Rightarrow> server_ctx_t \<Rightarrow> server_ctx_t" where
  "load_player i c = upd_player i (\<lambda>p.
     let p = p\<lparr>pl_id := of_nat (i + 1), pl_lives := 0, pl_alive := False, pl_ready := False,
               pl_bomb_count := 1, pl_bomb_radius := default_bomb_radius c,
               pl_bomb_timer_ticks := default_bomb_timer_ticks c, pl_speed := default_speed c\<rparr>
     in if spawn_defined c ! i then p\<lparr>pl_row := spawn_rows c ! i, pl_col := spawn_cols c ! i\<rparr>
        else p\<lparr>pl_row := 0, pl_col := 0\<rparr>) c"

text \<open>What follows the loop over the cells: the defaults, the copy of the map and the players.\<close>

definition finish_load :: "int \<Rightarrow> int \<Rightarrow> int \<Rightarrow> int \<Rightarrow> server_ctx_t \<Rightarrow> server_ctx_t" where
  "finish_load speed explosion_duration radius timer_ticks c =
     (let c = c\<lparr>default_speed := (if speed \<le> 0 then 3 else of_int speed),
                explosion_duration_ticks := (if explosion_duration \<le> 0 then 3 else of_int explosion_duration),
                default_bomb_radius := (if radius \<le> 0 then 1 else of_int radius),
                default_bomb_timer_ticks := (if timer_ticks \<le> 0 then of_nat (3 * TICKS_PER_SECOND)
                                             else of_int timer_ticks)\<rparr>;
          c = c\<lparr>initial_cell_count := map_rows (game_map c) * map_cols (game_map c)\<rparr>;
          c = c\<lparr>initial_cells := blit 0 (take (unat (initial_cell_count c)) (the (map_cells (game_map c))))
                                   (initial_cells c)\<rparr>
      in for_range MAX_PLAYERS load_player c)"

definition server_load_map :: "bool \<Rightarrow> u8 list \<Rightarrow> server_ctx_t \<Rightarrow> server_ctx_t option" where
  "server_load_map calloc_ok file c = do {
     (rows, bs) \<leftarrow> scan_int file;
     (cols, bs) \<leftarrow> scan_int bs;
     (speed, bs) \<leftarrow> scan_int bs;
     (explosion_duration, bs) \<leftarrow> scan_int bs;
     (radius, bs) \<leftarrow> scan_int bs;
     (timer_ticks, bs) \<leftarrow> scan_int bs;
     if rows \<le> 0 \<or> cols \<le> 0 \<or> rows > int MAX_MAP_SIDE \<or> cols > int MAX_MAP_SIDE then None
     else do {
       st \<leftarrow> gs_resize_map calloc_ok (state c) (of_int rows) (of_int cols);
       let c = c\<lparr>state := st, spawn_defined := replicate MAX_PLAYERS False\<rparr>;
       (bs, c) \<leftarrow> for_opt [(r, k). r \<leftarrow> [0..<nat rows], k \<leftarrow> [0..<nat cols]] load_cell (bs, c);
       Some (finish_load speed explosion_duration radius timer_ticks c)
     }
   }"

section \<open>A loaded map satisfies the invariant\<close>

definition loading :: "nat \<Rightarrow> nat \<Rightarrow> server_ctx_t \<Rightarrow> server_ctx_t \<Rightarrow> bool" where
  "loading rows cols c0 c \<longleftrightarrow>
     wf_map (game_map c) \<and> map_rows (game_map c) = of_nat rows \<and> map_cols (game_map c) = of_nat cols \<and>
     players c = players c0 \<and> bombs c = bombs c0 \<and> clients c = clients c0 \<and> explosions c = explosions c0 \<and>
     gs_status (state c) = gs_status (state c0) \<and> initial_cells c = initial_cells c0 \<and>
     length (spawn_defined c) = MAX_PLAYERS \<and> length (spawn_rows c) = MAX_PLAYERS \<and> length (spawn_cols c) = MAX_PLAYERS \<and>
     (\<forall>i < MAX_PLAYERS. spawn_defined c ! i \<longrightarrow> in_map c (spawn_rows c ! i) (spawn_cols c ! i))"

lemma load_cell_loading:
  assumes "loading rows cols c0 c" "r < rows" "k < cols" "rows \<le> 255" "cols \<le> 255"
    and "load_cell (r, k) (bs, c) = Some (bs', c')"
  shows "loading rows cols c0 c'"
proof -
  have wf: "wf_map (gs_map (state c))" using assms(1) by (simp add: loading_def)
  have here: "in_map c (of_nat r) (of_nat k)"
    using assms(1-5) by (simp add: loading_def in_map_def word_less_nat_alt unat_of_nat_u16)
  obtain sd sr sc v st where c': "c' = c\<lparr>spawn_defined := sd, spawn_rows := sr, spawn_cols := sc, state := st\<rparr>"
    and st: "gs_cell_set (state c) (of_nat r) (of_nat k) v = Some st"
    and spawns: "(sd, sr, sc) = (spawn_defined c, spawn_rows c, spawn_cols c) \<or>
      (\<exists>n < 8. sd = (spawn_defined c)[n := True] \<and> sr = (spawn_rows c)[n := of_nat r] \<and> sc = (spawn_cols c)[n := of_nat k])"
  proof -
    obtain token bs1 where tok: "scan_token bs = Some (token, bs1)"
      using assms(6) by (auto simp: load_cell_def split: bind_splits)
    show ?thesis
    proof (cases "is_digit (token ! 0)")
      case True
      let ?n = "nat (int (unat (token ! 0)) - 49)"
      obtain st where "gs_cell_set (state c) (of_nat r) (of_nat k) CELL_EMPTY = Some st" "?n < 8"
        "c' = c\<lparr>spawn_defined := (spawn_defined c)[?n := True], spawn_rows := (spawn_rows c)[?n := of_nat r],
           spawn_cols := (spawn_cols c)[?n := of_nat k], state := st\<rparr>"
        using assms(6) True tok by (auto simp: load_cell_def Let_def split: bind_splits if_splits)
      then show ?thesis using that by blast
    next
      case False
      then obtain st where "gs_cell_set (state c) (of_nat r) (of_nat k) (token ! 0) = Some st" "c' = c\<lparr>state := st\<rparr>"
        using assms(6) tok by (auto simp: load_cell_def Let_def split: bind_splits if_splits)
      then show ?thesis using that [where sd = "spawn_defined c" and sr = "spawn_rows c" and sc = "spawn_cols c" and st = st] by simp
    qed
  qed
  note fr = gs_cell_set_frame [OF st] and wf' = gs_cell_set_wf [OF wf st]
  have in_map: "in_map c' = in_map c" by (simp add: in_map_def fun_eq_iff c' fr)
  have "length sd = 8 \<and> length sr = 8 \<and> length sc = 8 \<and> (\<forall>i < 8. sd ! i \<longrightarrow> in_map c (sr ! i) (sc ! i))"
    using spawns
  proof (elim disjE exE conjE)
    assume "(sd, sr, sc) = (spawn_defined c, spawn_rows c, spawn_cols c)"
    then show ?thesis using assms(1) by (simp add: loading_def)
  next
    fix n assume "n < 8" "sd = (spawn_defined c)[n := True]" "sr = (spawn_rows c)[n := of_nat r]" "sc = (spawn_cols c)[n := of_nat k]"
    then show ?thesis using assms(1) here by (simp add: loading_def nth_list_update)
  qed
  then show ?thesis
    using assms(1) wf' unfolding loading_def in_map by (simp add: c' fr)
qed

lemma load_cells_loading:
  assumes "loading rows cols c0 c" "rows \<le> 255" "cols \<le> 255" "set rcs \<subseteq> {..<rows} \<times> {..<cols}"
    and "for_opt rcs load_cell (bs, c) = Some (bs', c')"
  shows "loading rows cols c0 c'"
  using assms(1,4,5)
proof (induction rcs arbitrary: bs c)
  case Nil
  then show ?case by simp
next
  case (Cons rc rcs)
  obtain r k where rc: "rc = (r, k)" by (cases rc)
  obtain bs1 c1 where one: "load_cell (r, k) (bs, c) = Some (bs1, c1)" "for_opt rcs load_cell (bs1, c1) = Some (bs', c')"
    using Cons.prems(3) by (auto simp: rc split: option.splits)
  have "r < rows" "k < cols" "set rcs \<subseteq> {..<rows} \<times> {..<cols}" using Cons.prems(2) rc by auto
  then show ?case
    using Cons.IH [OF load_cell_loading [OF Cons.prems(1) _ _ assms(2,3) one(1)] _ one(2)] by blast
qed

definition loaded_player :: "server_ctx_t \<Rightarrow> nat \<Rightarrow> player_t \<Rightarrow> player_t" where
  "loaded_player c i p = (let p = p\<lparr>pl_id := of_nat (i + 1), pl_lives := 0, pl_alive := False, pl_ready := False,
       pl_bomb_count := 1, pl_bomb_radius := default_bomb_radius c,
       pl_bomb_timer_ticks := default_bomb_timer_ticks c, pl_speed := default_speed c\<rparr>
     in if spawn_defined c ! i then p\<lparr>pl_row := spawn_rows c ! i, pl_col := spawn_cols c ! i\<rparr>
        else p\<lparr>pl_row := 0, pl_col := 0\<rparr>)"

lemma loaded_player_frame [simp]:
  "loaded_player (c\<lparr>state := st\<rparr>) = loaded_player c"
  "loaded_player (c\<lparr>explosion_duration_ticks := d\<rparr>) = loaded_player c"
  "loaded_player (c\<lparr>initial_cell_count := n\<rparr>) = loaded_player c"
  "loaded_player (c\<lparr>initial_cells := cs\<rparr>) = loaded_player c"
  by (simp_all add: loaded_player_def Let_def fun_eq_iff)

lemma load_players_eq:
  assumes "length (players c) = MAX_PLAYERS"
  shows "for_range MAX_PLAYERS load_player c = upd_players (imap (loaded_player c)) c"
proof -
  let ?loop = "\<lambda>n. for_range n (\<lambda>i ps. ps[i := loaded_player c i (ps ! i)]) (players c)"
  let ?P = "\<lambda>n t. t = upd_players (\<lambda>_. ?loop n) c"
  have "?P 8 (for_range 8 load_player c)"
  proof (rule for_range_inv [where P = ?P], goal_cases)
    case 1
    then show ?case by (simp add: upd_players_def upd_state_def)
  next
    case (2 i t)
    have "loaded_player t i = loaded_player c i"
      unfolding 2(2) upd_players_def upd_state_def by simp
    moreover have "load_player i t = upd_player i (loaded_player t i) t"
      by (simp add: load_player_def loaded_player_def upd_player_def)
    ultimately show ?case using 2(2) by (simp add: upd_players_def upd_player_def upd_state_def)
  qed
  moreover have "?loop 8 = imap (loaded_player c) (players c)"
    using for_range_update [of 8 "players c" "loaded_player c"] assms by (simp add: imap_def cong: map_cong)
  ultimately show ?thesis by (simp add: upd_players_def upd_state_def)
qed


lemma loaded_player_fields [simp]:
  "pl_id (loaded_player c i p) = of_nat (Suc i)" "pl_alive (loaded_player c i p) = False"
  "pl_lives (loaded_player c i p) = 0" "pl_bomb_count (loaded_player c i p) = 1"
  by (simp_all add: loaded_player_def Let_def)

lemma init_context_fields:
  "players (server_init_context prt) = map init_player [0..<MAX_PLAYERS]"
  "bombs (server_init_context prt) = replicate MAX_BOMBS zero_bomb"
  "clients (server_init_context prt) = replicate MAX_PLAYERS zero_client"
  "explosions (server_init_context prt) = replicate MAX_BOMBS zero_explosion"
  "gs_status (state (server_init_context prt)) = GAME_LOBBY"
  "initial_cells (server_init_context prt) = replicate MAX_MAP_CELLS 0"
  "length (spawn_rows (server_init_context prt)) = MAX_PLAYERS"
  "length (spawn_cols (server_init_context prt)) = MAX_PLAYERS"
  by (simp_all add: server_init_context_def gs_init_def)

lemma load_map_loading:
  assumes "server_load_map ok file c0 = Some c" "length (spawn_rows c0) = MAX_PLAYERS" "length (spawn_cols c0) = MAX_PLAYERS"
  shows "\<exists>rows cols speed dur radius timer c1. rows \<le> 255 \<and> cols \<le> 255 \<and> loading rows cols c0 c1 \<and>
    c = finish_load speed dur radius timer c1"
proof -
  obtain rows cols speed dur radius timer bs bs' st c1 where
    dims: "0 < rows" "0 < cols" "rows \<le> 255" "cols \<le> 255"
    and st: "gs_resize_map ok (state c0) (of_int rows) (of_int cols) = Some st"
    and cells: "for_opt [(r, k). r \<leftarrow> [0..<nat rows], k \<leftarrow> [0..<nat cols]] load_cell
       (bs, c0\<lparr>state := st, spawn_defined := replicate 8 False\<rparr>) = Some (bs', c1)"
    and c: "c = finish_load speed dur radius timer c1"
    using assms(1) unfolding server_load_map_def
    by (auto simp: not_less not_le split: bind_splits if_splits)
  let ?c = "c0\<lparr>state := st, spawn_defined := replicate 8 False\<rparr>"
  have "map_rows (gs_map st) = of_nat (nat rows)" "map_cols (gs_map st) = of_nat (nat cols)"
    using dims gs_resize_map_wf(2,3) [OF st] by simp_all
  then have "loading (nat rows) (nat cols) c0 ?c"
    using assms(2,3) gs_resize_map_wf(1,4-6) [OF st] by (simp add: loading_def)
  then have "loading (nat rows) (nat cols) c0 c1"
    using dims by (intro load_cells_loading [OF _ _ _ _ cells]) auto
  then show ?thesis using dims c by (metis nat_le_iff of_nat_numeral)
qed

lemma finish_load_fields:
  assumes "length (players c) = MAX_PLAYERS"
  shows "players (finish_load a b e f c) = imap (loaded_player (finish_load a b e f c)) (players c)"
    "bombs (finish_load a b e f c) = bombs c" "clients (finish_load a b e f c) = clients c"
    "explosions (finish_load a b e f c) = explosions c" "game_map (finish_load a b e f c) = game_map c"
    "gs_status (state (finish_load a b e f c)) = gs_status (state c)"
    "spawn_defined (finish_load a b e f c) = spawn_defined c" "spawn_rows (finish_load a b e f c) = spawn_rows c"
    "spawn_cols (finish_load a b e f c) = spawn_cols c"
    "initial_cell_count (finish_load a b e f c) = map_rows (game_map c) * map_cols (game_map c)"
    "initial_cells (finish_load a b e f c) = blit 0 (take (unat (map_rows (game_map c) * map_cols (game_map c)))
       (the (map_cells (game_map c)))) (initial_cells c)"
  using assms by (simp_all add: finish_load_def Let_def load_players_eq upd_players_def upd_state_def)


lemma load_map_inv:
  assumes "server_load_map ok file (server_init_context prt) = Some c"
  shows "server_inv c" and "gs_status (state c) = GAME_LOBBY"
    and "take (unat (initial_cell_count c)) (initial_cells c) = the (map_cells (game_map c))"
proof -
  let ?c0 = "server_init_context prt"
  obtain rows cols a b e f c1 where dims: "rows \<le> 255" "cols \<le> 255" and ld: "loading rows cols ?c0 c1"
    and c: "c = finish_load a b e f c1"
    using load_map_loading [OF assms] init_context_fields(7,8) by blast
  note L = ld [unfolded loading_def init_context_fields]
  have len8: "length (players c1) = 8" using L by simp
  note F = finish_load_fields [OF len8, of a b e f, folded c]
  have dims': "unat (map_rows (game_map c1)) = rows" "unat (map_cols (game_map c1)) = cols"
    using L dims by (simp_all add: unat_of_nat_u16)
  obtain cs where cs: "map_cells (game_map c1) = Some cs" "length cs = rows * cols" "rows * cols \<le> 65025"
    using L dims' by (auto simp: wf_map_def)
  have count: "unat (initial_cell_count c) = rows * cols"
    using cs(3) unfolding F(10) by (simp add: unat_word_ariths dims')
  have init: "initial_cells c = blit 0 cs (replicate 65025 0)"
    using L cs count unfolding F(11) F(10) [symmetric] by simp
  show init': "take (unat (initial_cell_count c)) (initial_cells c) = the (map_cells (game_map c))"
    unfolding init count F(5) using cs by (metis option.sel take_blit_0)
  show lobby: "gs_status (state c) = GAME_LOBBY" using L by (simp add: F)
  have in_map: "in_map c = in_map c1" by (simp add: in_map_def F fun_eq_iff)
  have "wf_map (game_map c1)" using L by blast
  then have zero: "in_map c1 0 0" by (simp add: in_map_def wf_map_def)
  have pos: "in_map c1 (pl_row (loaded_player c i p)) (pl_col (loaded_player c i p))" if "i < 8" for i p
    using L zero that by (simp add: loaded_player_def Let_def F)
  have "arrays_ok c" using L cs by (simp add: arrays_ok_def F init zero_client_def)
  moreover have "board_ok c" using L dims dims' count by (simp add: board_ok_def F)
  moreover have "ids_ok c" using L by (simp add: ids_ok_def F zero_client_def)
  moreover have "places_ok c" using L pos unfolding places_ok_def in_map by (simp add: F)
  moreover have "life_ok c" using L by (simp add: life_ok_def F)
  moreover have "bombs_ok c" using L by (simp add: bombs_ok_def F)
  moreover have "stock_ok c"
  proof -
    have "own_bombs c oid = 0" if "oid \<noteq> 0" for oid using that L by (simp add: own_bombs_0_iff F)
    then show ?thesis using L by (simp add: stock_ok_def F)
  qed
  moreover have "lobby_ok c" using L lobby by (simp add: lobby_ok_def F zero_explosion_def)
  moreover have "explosions_ok c" using L by (simp add: explosions_ok_def F zero_explosion_def)
  moreover have "names_ok c" "fds_ok c" using L by (simp_all add: names_ok_def fds_ok_def F zero_client_def)
  ultimately show "server_inv c" by (intro server_invI)
qed

end
