(* ===== verification/Server_Loop.thy ===== *)
theory Server_Loop
  imports Map_Loader
begin

text \<open>
  The loop of \<open>server/server.c\<close>.  What the operating system decides in one iteration is an input:
  the result of \<open>select\<close>, the descriptor \<open>accept\<close> returns, and for each slot what the two receive
  calls give.  \<open>select\<close> returns a subset of the descriptors it was given.  The result of an
  iteration is \<open>None\<close> if the tick does not return; otherwise the value with which the function
  returns, if it does, and the system.
\<close>

datatype received = Recv_Failed | Received msg_header_t "u8 list"

datatype select_result = Select_Failed | Select_Interrupted | Select_Ready "int list"

record loop_input =
  in_select :: select_result
  in_accept :: int
  in_recv :: "nat \<Rightarrow> received"

definition serve_client :: "loop_input \<Rightarrow> int list \<Rightarrow> nat \<Rightarrow> server_sys \<Rightarrow> server_sys" where
  "serve_client inp readfds i s =
     (if \<not> cl_active (clients (ctx s) ! i) \<or> cl_fd (clients (ctx s) ! i) \<notin> set readfds then s
      else case in_recv inp i of
        Recv_Failed \<Rightarrow> server_disconnect_client i True s
      | Received header payload \<Rightarrow>
          (case server_handle_client_message i header payload s of (handle_status, s) \<Rightarrow>
             if handle_status \<noteq> 0 then server_disconnect_client i True s
             else upd_ctx (upd_client i (\<lambda>cl. cl\<lparr>cl_last_seen_tick := gs_tick (state (ctx s))\<rparr>)) s))"

definition watched :: "server_ctx_t \<Rightarrow> int list" where
  "watched c = listen_fd c # map (\<lambda>i. cl_fd (clients c ! i)) (filter (\<lambda>i. cl_active (clients c ! i)) [0..<MAX_PLAYERS])"

definition loop_iteration :: "loop_input \<Rightarrow> server_sys \<Rightarrow> (int option \<times> server_sys) option" where
  "loop_iteration inp s =
     (case in_select inp of
        Select_Interrupted \<Rightarrow> Some (None, s)
      | Select_Failed \<Rightarrow> Some (Some (-1), s)
      | Select_Ready ready \<Rightarrow>
          let readfds = filter (\<lambda>fd. fd \<in> set (watched (ctx s))) ready;
              s = (if listen_fd (ctx s) \<in> set readfds then accept_connection (in_accept inp) s else s);
              s = for_range MAX_PLAYERS (serve_client inp readfds) s
          in map_option (\<lambda>s. (None, s)) (server_tick s))"

fun server_run_loop :: "loop_input list \<Rightarrow> server_sys \<Rightarrow> (int option \<times> server_sys) option" where
  "server_run_loop [] s = Some (None, s)"
| "server_run_loop (inp # inps) s =
     (if \<not> running (ctx s) then Some (Some 0, s)
      else case loop_iteration inp s of
        None \<Rightarrow> None
      | Some (Some r, s) \<Rightarrow> Some (Some r, s)
      | Some (None, s) \<Rightarrow> server_run_loop inps s)"

section \<open>The contract of what happens to a slot\<close>

locale slot_op =
  fixes f :: "nat \<Rightarrow> server_sys \<Rightarrow> server_sys"
  assumes keeps: "i < MAX_PLAYERS \<Longrightarrow> server_inv (ctx s) \<Longrightarrow> server_inv (ctx (f i s))"
begin

lemma loop_keeps: "n \<le> MAX_PLAYERS \<Longrightarrow> server_inv (ctx s) \<Longrightarrow> server_inv (ctx (for_range n f s))"
  by (induction n) (simp_all add: keeps)

end

interpretation disconnect: slot_op "\<lambda>i. server_disconnect_client i notify" for notify
proof unfold_locales
  fix i :: nat and s :: server_sys assume "i < 8" "server_inv (ctx s)"
  then show "server_inv (ctx (server_disconnect_client i notify s))"
    using disconnect_ctx [OF server_invD(3)] left_inv by (simp split: if_splits)
qed

lemma seen_inv:
  assumes inv: "server_inv c" and i: "i < MAX_PLAYERS"
  shows "server_inv (upd_client i (\<lambda>cl. cl\<lparr>cl_last_seen_tick := n\<rparr>) c)"
proof -
  note I = server_invD [OF inv]
  have "upd_client i (\<lambda>cl. cl\<lparr>cl_last_seen_tick := n\<rparr>) c =
      replaced i ((clients c ! i)\<lparr>cl_last_seen_tick := n\<rparr>) (players c ! i) c"
    by (simp add: upd_client_def replaced_def)
  moreover have "length (cl_client_id (clients c ! i)) = 21 \<and> length (cl_name (clients c ! i)) = 16"
    using I(1) i by (simp add: arrays_ok_def)
  ultimately show ?thesis
    using I(3,4,5,10,11) i
    by (simp only:) (intro replaced_inv [OF inv i],
      auto simp: ids_ok_def places_ok_def life_ok_def names_ok_def fds_ok_def)
qed

interpretation serve: slot_op "serve_client inp readfds" for inp readfds
proof unfold_locales
  fix i :: nat and s :: server_sys assume i: "i < 8" and inv: "server_inv (ctx s)"
  show "server_inv (ctx (serve_client inp readfds i s))"
  proof (cases "\<not> cl_active (clients (ctx s) ! i) \<or> cl_fd (clients (ctx s) ! i) \<notin> set readfds")
    case True
    then show ?thesis using inv by (simp only: serve_client_def if_True)
  next
    case False
    then have "server_inv (ctx (snd (server_handle_client_message i h p s)))" for h p
      using handle_message_inv [OF inv i] by blast
    then show ?thesis
      using False disconnect.keeps [OF i inv] disconnect.keeps [OF i] seen_inv [OF _ i]
      by (simp add: serve_client_def case_prod_beta split: received.split)
  qed
qed


section \<open>One iteration\<close>

text \<open>A descriptor that \<open>accept\<close> returns is not one the process already has open.\<close>

definition sane_accept :: "loop_input \<Rightarrow> server_ctx_t \<Rightarrow> bool" where
  "sane_accept inp c \<longleftrightarrow> (\<forall>j < MAX_PLAYERS. cl_active (clients c ! j) \<longrightarrow> cl_fd (clients c ! j) \<noteq> in_accept inp)"

lemma accept_inv:
  assumes inv: "server_inv (ctx s)" and "sane_accept inp (ctx s)"
  shows "server_inv (ctx (accept_connection (in_accept inp) s))"
proof (cases "in_accept inp < 0")
  case True
  then show ?thesis using inv by (simp add: accept_connection_def)
next
  case False
  then show ?thesis
    using inv accept_ctx [OF server_invD(1) [OF inv], of "in_accept inp"] connected_inv [OF inv] assms(2)
    by (simp add: sane_accept_def split: option.split)
qed

lemma loop_iteration_total:
  assumes inv: "server_inv (ctx s)" and sane: "sane_accept inp (ctx s)"
  shows "\<exists>r t. loop_iteration inp s = Some (r, t) \<and> server_inv (ctx t)"
proof (cases "in_select inp")
  case (Select_Ready ready)
  let ?fds = "filter (\<lambda>fd. fd \<in> set (watched (ctx s))) ready"
  let ?s1 = "if listen_fd (ctx s) \<in> set ?fds then accept_connection (in_accept inp) s else s"
  let ?s2 = "for_range 8 (serve_client inp ?fds) ?s1"
  have "server_inv (ctx ?s1)" using inv accept_inv [OF inv sane] by simp
  then have "server_inv (ctx ?s2)" by (intro serve.loop_keeps) simp_all
  then obtain t where "server_tick ?s2 = Some t" "server_inv (ctx t)" using server_tick_run by blast
  then have "loop_iteration inp s = Some (None, t) \<and> server_inv (ctx t)"
    by (simp only: loop_iteration_def Select_Ready Let_def select_result.case option.map simp_thms)
  then show ?thesis by blast
qed (use inv in \<open>simp_all add: loop_iteration_def\<close>)

section \<open>Reachable systems\<close>

definition server_start :: "server_sys \<Rightarrow> bool" where
  "server_start s \<longleftrightarrow> (\<exists>ok file prt c fd. server_load_map ok file (server_init_context prt) = Some c \<and>
     ctx s = c\<lparr>listen_fd := fd\<rparr>)"

inductive server_step :: "server_sys \<Rightarrow> server_sys \<Rightarrow> bool" where
  iterate: "running (ctx s) \<Longrightarrow> sane_accept inp (ctx s) \<Longrightarrow> loop_iteration inp s = Some (None, t) \<Longrightarrow> server_step s t"

inductive_cases server_stepE: "server_step s t"

inductive server_reachable :: "server_sys \<Rightarrow> bool" where
  start: "server_start s \<Longrightarrow> server_reachable s"
| step: "server_reachable s \<Longrightarrow> server_step s t \<Longrightarrow> server_reachable t"

lemma server_start_inv:
  assumes "server_start s"
  shows "server_inv (ctx s)" "gs_status (state (ctx s)) = GAME_LOBBY"
proof -
  obtain ok content prt c fd where c: "server_load_map ok content (server_init_context prt) = Some c" "ctx s = c\<lparr>listen_fd := fd\<rparr>"
    using assms unfolding server_start_def by blast
  have "in_map (c\<lparr>listen_fd := fd\<rparr>) = in_map c" "own_bombs (c\<lparr>listen_fd := fd\<rparr>) = own_bombs c"
    by (simp_all add: in_map_def own_bombs_def fun_eq_iff)
  then show "server_inv (ctx s)" using load_map_inv(1) [OF c(1)] unfolding c(2) server_inv_def inv_defs by simp
  show "gs_status (state (ctx s)) = GAME_LOBBY" using load_map_inv(2) [OF c(1)] by (simp add: c(2))
qed

lemma reachable_inv: "server_reachable s \<Longrightarrow> server_inv (ctx s)"
proof (induction rule: server_reachable.induct)
  case (start s)
  then show ?case by (rule server_start_inv(1))
next
  case (step s t)
  from step.hyps(2) show ?case
  proof (rule server_stepE)
    fix inp assume "running (ctx s)" "sane_accept inp (ctx s)" "loop_iteration inp s = Some (None, t)"
    then show "server_inv (ctx t)" using loop_iteration_total [OF step.IH, of inp] by simp
  qed
qed

text \<open>The loop over a sequence of inputs.\<close>

fun sane_run :: "loop_input list \<Rightarrow> server_sys \<Rightarrow> bool" where
  "sane_run [] s \<longleftrightarrow> True"
| "sane_run (inp # inps) s \<longleftrightarrow> sane_accept inp (ctx s) \<and>
     (case loop_iteration inp s of Some (None, t) \<Rightarrow> sane_run inps t | _ \<Rightarrow> True)"

lemma run_loop_total:
  assumes "server_inv (ctx s)" "sane_run inps s"
  shows "\<exists>r t. server_run_loop inps s = Some (r, t) \<and> server_inv (ctx t)"
  using assms
proof (induction inps arbitrary: s)
  case Nil
  then show ?case by simp
next
  case (Cons inp inps)
  obtain r t where it: "loop_iteration inp s = Some (r, t)" "server_inv (ctx t)"
    using loop_iteration_total Cons.prems by fastforce
  show ?case
  proof (cases r)
    case None
    then have "\<exists>r u. server_run_loop inps t = Some (r, u) \<and> server_inv (ctx u)"
      using Cons it by simp
    then show ?thesis using it None Cons.prems(1) by simp
  next
    case (Some v)
    then show ?thesis using it Cons.prems(1) by simp
  qed
qed

section \<open>The status of the game\<close>

text \<open>Lobby, running, end, lobby: no message skips a phase.\<close>

lemma message_status:
  fixes h :: msg_header_t and payload :: "u8 list"
  assumes inv: "server_inv (ctx s)" and i: "i < MAX_PLAYERS" "cl_active (clients (ctx s) ! i)"
  defines "s' \<equiv> snd (server_handle_client_message i h payload s)"
  shows "gs_status (state (ctx s')) = gs_status (state (ctx s)) \<or>
    gs_status (state (ctx s)) = GAME_LOBBY \<and> gs_status (state (ctx s')) = GAME_RUNNING \<and>
      msg_type_of (h_msg_type h) = Some MSG_SET_READY \<or>
    gs_status (state (ctx s)) = GAME_END \<and> gs_status (state (ctx s')) = GAME_LOBBY \<and>
      msg_type_of (h_msg_type h) = Some MSG_SET_STATUS"
    (is "?keep \<or> ?start \<or> ?reset")
proof -
  note I = server_invD [OF inv]
  have hello: "gs_status (state (ctx (snd (handle_hello i payload s)))) = gs_status (state (ctx s))"
    by (simp add: handle_hello_def Let_def upd_player_def upd_client_def upd_state_def split: option.split)
  have move: "gs_status (state (ctx (snd (handle_move_attempt i payload s)))) = gs_status (state (ctx s))"
  proof (cases "proto_decode_move_attempt_payload \<lparr>move_direction = 0\<rparr> payload")
    case None
    then show ?thesis by (simp add: handle_move_attempt_def Let_def)
  next
    case (Some m)
    then have "payload = [move_direction m]" by (simp add: move_attempt.dec_iff move_attempt_wire_def)
    then show ?thesis
      using handle_move_cases [OF inv i, of "move_direction m"] refused_ctx
        move_effect(3) [OF inv i(1), of "move_direction m"] rest_fields(2) by metis
  qed
  have place: "gs_status (state (ctx (snd (handle_bomb_attempt i payload s)))) = gs_status (state (ctx s))"
  proof (cases "proto_decode_bomb_attempt_payload \<lparr>bomb_attempt_cell_index = 0\<rparr> payload")
    case None
    then show ?thesis by (simp add: handle_bomb_attempt_def Let_def)
  next
    case (Some m)
    then have "payload = u16_bytes (bomb_attempt_cell_index m)" by (simp add: bomb_attempt.dec_iff bomb_attempt_wire_def)
    then show ?thesis
      using handle_bomb_cases [OF inv i, of "bomb_attempt_cell_index m"] refused_ctx rest_fields(2)
      unfolding placed_def Let_def by metis
  qed
  have ready: "gs_status (state (ctx (snd (handle_set_ready i s)))) = gs_status (state (ctx s)) \<or>
      gs_status (state (ctx s)) = GAME_LOBBY \<and> gs_status (state (ctx (snd (handle_set_ready i s)))) = GAME_RUNNING"
    by (simp add: handle_set_ready_def maybe_start_game_def Let_def transition_ctx upd_player_def upd_state_def)
  have status: "gs_status (state (ctx (snd (handle_set_status i payload s)))) = gs_status (state (ctx s)) \<or>
      gs_status (state (ctx s)) = GAME_END \<and> gs_status (state (ctx (snd (handle_set_status i payload s)))) = GAME_LOBBY"
    by (simp add: handle_set_status_def transition_ctx Let_def upd_state_def split: option.split)
  show ?thesis
    using hello move place ready status unfolding s'_def server_handle_client_message_def
    by (auto split: option.split msg_type_t.split)
qed

end
