(* ===== verification/Board_Messages.thy ===== *)
theory Board_Messages
  imports Server_Loop
begin

text \<open>
  What the server tells its clients is the state it holds: the closed forms of the board
  synchronisation, the map and the welcome message, and what the decoders make of them.
\<close>

text \<open>
  The loops that append to a fixed array with a byte counter: the first \<open>length xs\<close> entries of the
  array are the list \<open>xs\<close>.
\<close>

definition filled :: "'p list \<Rightarrow> 'p list \<Rightarrow> 'p list" where
  "filled xs init = xs @ drop (length xs) init"

lemma filled_append:
  assumes "length xs < length init"
  shows "(filled xs init)[length xs := x] = filled (xs @ [x]) init"
proof -
  have "drop (length xs) init = init ! length xs # drop (Suc (length xs)) init"
    using assms by (simp add: Cons_nth_drop_Suc)
  then show ?thesis by (simp add: filled_def list_update_append)
qed

section \<open>The board\<close>

definition active_sync :: "server_ctx_t \<Rightarrow> msg_sync_player_t list" where
  "active_sync c = map (\<lambda>i. sync_player_of (map_cols (game_map c)) (players c ! i)) (active_slots c)"

lemma length_active_slots: "length (active_slots c) \<le> MAX_PLAYERS"
  using length_filter_le [of "\<lambda>i. cl_active (clients c ! i)" "[0..<8]"] by (simp add: active_slots_def)

lemma sync_message_eq:
  "sync_message c = \<lparr>sync_status = ucast (gs_status (state c)),
     sync_player_count = of_nat (length (active_slots c)),
     sync_players = filled (active_sync c) (replicate MAX_PLAYERS zero_sync_player)\<rparr>"
proof -
  let ?init = "replicate 8 zero_sync_player" and ?p = "\<lambda>i. sync_player_of (map_cols (game_map c)) (players c ! i)"
  let ?slots = "\<lambda>n. filter (\<lambda>i. cl_active (clients c ! i)) [0..<n]"
  let ?P = "\<lambda>n m. m = \<lparr>sync_status = ucast (gs_status (state c)), sync_player_count = of_nat (length (?slots n)),
      sync_players = filled (map ?p (?slots n)) ?init\<rparr>"
  have "?P 8 (sync_message c)"
    unfolding sync_message_def
  proof (rule for_range_inv [where P = ?P], goal_cases)
    case 1
    then show ?case by (simp add: filled_def)
  next
    case (2 i m)
    have "length (?slots i) \<le> i" using length_filter_le [of "\<lambda>i. cl_active (clients c ! i)" "[0..<i]"] by simp
    with 2(1) have few: "length (?slots i) < 8" by simp
    then have "unat (of_nat (length (?slots i)) :: u8) = length (map ?p (?slots i))"
      by (simp add: unat_of_nat_u8)
    then show ?case using 2(2) few filled_append [of "map ?p (?slots i)" ?init "?p i"] by simp
  qed
  then show ?thesis by (simp add: active_slots_def active_sync_def)
qed

lemma sync_message_sent:
  "sync_shaped (sync_message c)" "sync_valid (sync_message c)"
  "payload_of proto_encode_sync_board_payload 128 (sync_message c) = Some (sync_board_wire (sync_message c))"
proof -
  have n: "unat (sync_player_count (sync_message c)) = length (active_slots c)"
    using length_active_slots [of c] by (simp add: sync_message_eq unat_of_nat_u8)
  show s: "sync_shaped (sync_message c)"
    using length_active_slots [of c] by (simp add: sync_shaped_def sync_message_eq filled_def active_sync_def)
  show v: "sync_valid (sync_message c)" using length_active_slots [of c] n by (simp add: sync_valid_def)
  have "length (sync_board_wire (sync_message c)) \<le> 128"
    using length_active_slots [of c] n by (simp add: length_sync_board_wire [OF s v])
  then show "payload_of proto_encode_sync_board_payload 128 (sync_message c) = Some (sync_board_wire (sync_message c))"
    by (rule sync_board.payload_eq [OF s v])
qed

definition sync_packets :: "server_ctx_t \<Rightarrow> packet list" where
  "sync_packets c = map (\<lambda>i. packet_to (clients c ! i) (msg_code MSG_SYNC_BOARD) SERVER_ENDPOINT_ID
     (cl_id (clients c ! i)) (sync_board_wire (sync_message c))) (active_slots c)"

lemma send_sync_emit: "server_send_sync_to_all s = emit (sync_packets (ctx s)) s"
proof -
  let ?c = "ctx s" and ?w = "sync_board_wire (sync_message (ctx s))"
  have "server_send_sync_to_all s = emit (concat (map (\<lambda>i. if cl_active (clients ?c ! i)
      then [packet_to (clients ?c ! i) (msg_code MSG_SYNC_BOARD) SERVER_ENDPOINT_ID (cl_id (clients ?c ! i)) ?w] else [])
      [0..<8])) s"
    unfolding server_send_sync_to_all_def sync_message_sent(3) option.case
    by (rule for_range_emit [where c = ?c]) (auto simp: send_to_client_emit)
  then show ?thesis by (simp only: concat_map_if sync_packets_def active_slots_def)
qed

text \<open>What a client makes of the bytes: the status and one record per connected player, in slot order.\<close>

lemma sync_decoded:
  assumes "sync_shaped m0"
  shows "\<exists>m. proto_decode_sync_board_payload m0 (sync_board_wire (sync_message c)) = Some m \<and>
    sync_status m = ucast (gs_status (state c)) \<and> unat (sync_player_count m) = length (active_slots c) \<and>
    take (length (active_slots c)) (sync_players m) = active_sync c"
proof -
  have n: "unat (sync_player_count (sync_message c)) = length (active_slots c)"
    using length_active_slots [of c] by (simp add: sync_message_eq unat_of_nat_u8)
  show ?thesis
    using sync_board.dec_wire [OF assms sync_message_sent(1,2)] n
    by (simp add: sync_received_def) (simp add: sync_message_eq filled_def active_sync_def)
qed

section \<open>The map\<close>

lemma map_message_sent:
  assumes "board_ok c"
  shows "map_shaped (map_message c)" "map_valid (map_message c)"
    "map_count (map_message c) = length (the (map_cells (game_map c)))"
    "payload_of proto_encode_map_payload (2 + unat (mm_cell_count (map_message c))) (map_message c) =
       Some (map_wire (map_message c))"
    "take (map_count (map_message c)) (mm_cells (map_message c)) = the (map_cells (game_map c))"
    "unat (mm_rows (map_message c)) = unat (map_rows (game_map c))"
    "unat (mm_cols (map_message c)) = unat (map_cols (game_map c))"
proof -
  let ?m = "map_message c" and ?rows = "map_rows (game_map c)" and ?cols = "map_cols (game_map c)"
  obtain cs where cs: "map_cells (game_map c) = Some cs" "length cs = unat ?rows * unat ?cols"
      "0 < unat ?rows" "0 < unat ?cols" "unat ?rows * unat ?cols \<le> 65025" "unat ?rows \<le> 255" "unat ?cols \<le> 255"
    using assms by (auto simp: board_ok_def wf_map_def word_less_nat_alt)
  have uc: "unat (ucast w :: u8) = unat w" if "unat w \<le> 255" for w :: u16
    using that by (simp add: unsigned_ucast_eq take_bit_nat_def)
  show rows: "unat (mm_rows ?m) = unat ?rows" and cols: "unat (mm_cols ?m) = unat ?cols"
    using cs(6,7) by (simp_all add: map_message_def Let_def uc)
  have rc: "mm_cell_count ?m = map_expected_count ?m"
    by (simp add: map_message_def map_expected_count_def Let_def)
  show count: "map_count ?m = length (the (map_cells (game_map c)))"
    using cs(1,2) rows cols by (simp add: map_count_def)
  have n: "unat (mm_cell_count ?m) = length cs" using count cs(1) by (simp add: rc unat_map_expected_count)
  have cells: "mm_cells ?m = blit 0 cs (replicate 65025 0)"
    using n cs(1) by (simp add: map_message_def Let_def)
  show shaped: "map_shaped ?m" using cs(2,5) by (simp add: map_shaped_def cells)
  show valid: "map_valid ?m" using cs(3,4) rows cols by (auto simp: map_valid_def)
  show take: "take (map_count ?m) (mm_cells ?m) = the (map_cells (game_map c))"
    using count cs(1) by (simp add: cells)
  have "length (map_wire ?m) = 2 + unat (mm_cell_count ?m)"
    using n count cs take by (simp add: map_wire_def)
  then show "payload_of proto_encode_map_payload (2 + unat (mm_cell_count ?m)) ?m = Some (map_wire ?m)"
    by (intro map_msg.payload_eq [OF shaped valid]) simp
qed

lemma map_decoded:
  assumes "board_ok c" "map_shaped m0"
  shows "\<exists>m. proto_decode_map_payload m0 (map_wire (map_message c)) = Some m \<and>
    unat (mm_rows m) = unat (map_rows (game_map c)) \<and> unat (mm_cols m) = unat (map_cols (game_map c)) \<and>
    take (map_count (map_message c)) (mm_cells m) = the (map_cells (game_map c))"
proof -
  note M = map_message_sent [OF assms(1)]
  have len: "map_count (map_message c) \<le> length (mm_cells (map_message c))"
    using M(1) map_count_le [of "map_message c"] by (simp add: map_shaped_def)
  show ?thesis
    using map_msg.dec_wire [OF assms(2) M(1,2)] M(3,5-7) len
    by (simp add: map_received_def)
qed


section \<open>The welcome\<close>

definition other_slots :: "nat \<Rightarrow> server_ctx_t \<Rightarrow> nat list" where
  "other_slots i c = filter (\<lambda>j. cl_active (clients c ! j) \<and> cl_id (clients c ! j) \<noteq> cl_id (clients c ! i)) [0..<MAX_PLAYERS]"

lemma welcome_message_eq:
  "welcome_message i c = \<lparr>
     welcome_server_id = (strncpy (replicate (MAX_ID_LEN + 1) 0) (server_id c) MAX_ID_LEN)[MAX_ID_LEN := 0],
     welcome_game_status = ucast (gs_status (state c)),
     welcome_player_count = of_nat (length (other_slots i c)),
     welcome_players = filled (map (\<lambda>j. summary_of (clients c ! j) (players c ! j)) (other_slots i c))
       (replicate MAX_PLAYERS zero_summary)\<rparr>"
proof -
  let ?init = "replicate 8 zero_summary" and ?p = "\<lambda>j. summary_of (clients c ! j) (players c ! j)"
  let ?ok = "\<lambda>j. cl_active (clients c ! j) \<and> cl_id (clients c ! j) \<noteq> cl_id (clients c ! i)"
  let ?slots = "\<lambda>n. filter ?ok [0..<n]"
  let ?P = "\<lambda>n m. m = \<lparr>welcome_server_id = (strncpy (replicate (MAX_ID_LEN + 1) 0) (server_id c) MAX_ID_LEN)[MAX_ID_LEN := 0],
     welcome_game_status = ucast (gs_status (state c)), welcome_player_count = of_nat (length (?slots n)),
     welcome_players = filled (map ?p (?slots n)) ?init\<rparr>"
  have "?P 8 (welcome_message i c)"
    unfolding welcome_message_def
  proof (rule for_range_inv [where P = ?P], goal_cases)
    case 1
    then show ?case by (simp add: filled_def)
  next
    case (2 j m)
    have "length (?slots j) \<le> j" using length_filter_le [of ?ok "[0..<j]"] by simp
    with 2(1) have few: "length (?slots j) < 8" by simp
    then have "unat (of_nat (length (?slots j)) :: u8) = length (map ?p (?slots j))"
      by (simp add: unat_of_nat_u8)
    then show ?case using 2(2) few filled_append [of "map ?p (?slots j)" ?init "?p j"] by simp
  qed
  then show ?thesis by (simp add: other_slots_def)
qed

lemma welcome_message_sent:
  "welcome_shaped (welcome_message i c)" "welcome_valid (welcome_message i c)"
  "payload_of proto_encode_welcome_payload 512 (welcome_message i c) = Some (welcome_wire (welcome_message i c))"
proof -
  have few: "length (other_slots i c) \<le> 8"
    using length_filter_le [of "\<lambda>j. cl_active (clients c ! j) \<and> cl_id (clients c ! j) \<noteq> cl_id (clients c ! i)" "[0..<8]"]
    by (simp add: other_slots_def)
  show s: "welcome_shaped (welcome_message i c)"
    using few by (auto simp: welcome_shaped_def welcome_message_eq filled_def summary_shaped_def summary_of_def
        zero_summary_def)
  show v: "welcome_valid (welcome_message i c)"
    using few by (simp add: welcome_valid_def welcome_message_eq unat_of_nat_u8)
  then have "length (welcome_wire (welcome_message i c)) \<le> 512"
    using length_welcome_wire [OF s v] unfolding welcome_valid_def by linarith
  then show "payload_of proto_encode_welcome_payload 512 (welcome_message i c) = Some (welcome_wire (welcome_message i c))"
    by (rule welcome_msg.payload_eq [OF s v])
qed

text \<open>The error answer of \<open>send_welcome\<close> is never given: the welcome always fits its buffer.\<close>

lemma send_welcome_emit:
  assumes "cl_active (clients (ctx s) ! i)"
  shows "send_welcome i s = emit [packet_to (clients (ctx s) ! i) (msg_code MSG_WELCOME) (cl_id (clients (ctx s) ! i))
    (cl_id (clients (ctx s) ! i)) (welcome_wire (welcome_message i (ctx s)))] s"
  using assms by (simp add: send_welcome_def welcome_message_sent(3) send_to_client_emit del: msg_code.simps)

end
