(* ===== verification/Samples.thy ===== *)
theory Samples
  imports Board_Messages
begin

text \<open>
  Concrete systems for the witnesses: a map file of one row and five columns with two spawn points
  and a soft block between them, the server that loaded it, and a round with two players on it.
\<close>

text \<open>The bytes of \<open>1 5 3 3 1 60 1 . S . 2\<close>.\<close>

definition sample_file :: "u8 list" where
  "sample_file = [49, 32, 53, 32, 51, 32, 51, 32, 49, 32, 54, 48, 32, 49, 32, 46, 32, 83, 32, 46, 32, 50]"

definition sample_at :: "u8 list \<Rightarrow> bool list \<Rightarrow> u16 list \<Rightarrow> u16 list \<Rightarrow> server_ctx_t" where
  "sample_at cs sd sr sc = (server_init_context 7777)\<lparr>
     state := gs_init\<lparr>gs_map := \<lparr>map_rows = 1, map_cols = 5, map_cells = Some cs\<rparr>\<rparr>,
     spawn_defined := sd, spawn_rows := sr, spawn_cols := sc\<rparr>"

definition sample_filled :: server_ctx_t where
  "sample_filled = sample_at [46, 46, 83, 46, 46] [True, True, False, False, False, False, False, False]
     [0, 0, 0, 0, 0, 0, 0, 0] [0, 4, 0, 0, 0, 0, 0, 0]"

definition sample_loaded :: server_ctx_t where
  "sample_loaded = finish_load 3 3 1 60 sample_filled"

lemma scan_simps [simp]: "is_space 32" "is_digit 49" "is_digit 53"
  by (simp_all add: is_space_def is_digit_def)

lemma sample_header:
  "scan_int sample_file = Some (1, drop 1 sample_file)"
  "scan_int (drop 1 sample_file) = Some (5, drop 3 sample_file)"
  "scan_int (drop 3 sample_file) = Some (3, drop 5 sample_file)"
  "scan_int (drop 5 sample_file) = Some (3, drop 7 sample_file)"
  "scan_int (drop 7 sample_file) = Some (1, drop 9 sample_file)"
  "scan_int (drop 9 sample_file) = Some (60, drop 12 sample_file)"
  by (simp_all add: sample_file_def scan_int_def is_space_def is_digit_def digits_value_def Let_def)

lemma sample_tokens:
  "scan_token (drop 12 sample_file) = Some ([49], drop 14 sample_file)"
  "scan_token (drop 14 sample_file) = Some ([46], drop 16 sample_file)"
  "scan_token (drop 16 sample_file) = Some ([83], drop 18 sample_file)"
  "scan_token (drop 18 sample_file) = Some ([46], drop 20 sample_file)"
  "scan_token (drop 20 sample_file) = Some ([50], [])"
  by (simp_all add: sample_file_def scan_token_def is_space_def)


lemma upt_5: "[0..<5 :: nat] = [0, 1, 2, 3, 4]" and upt_8: "[0..<8 :: nat] = [0, 1, 2, 3, 4, 5, 6, 7]"
  by (simp_all add: upt_conv_Cons eval_nat_numeral)

lemma sample_cell:
  assumes "scan_token bs = Some ([t], bs')" "\<not> is_digit t" "is_supported_cell t" "k < 5"
  shows "load_cell (0, k) (bs, sample_at cs sd sr sc) = Some (bs', sample_at (cs[k := t]) sd sr sc)"
proof -
  have "unat (of_nat k :: u16) = k" using assms(4) by (intro unat_of_nat_u16) simp
  then show ?thesis
    using assms by (simp add: load_cell_def sample_at_def gs_cell_set_def gs_in_bounds_def make_cell_index_def
        word_less_nat_alt)
qed

lemma sample_spawn:
  assumes "scan_token bs = Some ([t], bs')" "unat t = 49 + n" "n < 8" "k < 5"
  shows "load_cell (0, k) (bs, sample_at cs sd sr sc) =
    Some (bs', sample_at (cs[k := 46]) (sd[n := True]) (sr[n := 0]) (sc[n := of_nat k]))"
proof -
  have "unat (of_nat k :: u16) = k" using assms(4) by (intro unat_of_nat_u16) simp
  moreover have "is_digit t" "nat (int (unat t) - 49) = n" "\<not> int (unat t) - 49 < 0" "\<not> 8 \<le> int (unat t) - 49"
    using assms(2,3) by (simp_all add: is_digit_def word_le_nat_alt del: of_nat_unat)
  ultimately show ?thesis
    using assms(1,4) by (simp add: load_cell_def sample_at_def gs_cell_set_def gs_in_bounds_def make_cell_index_def
        word_less_nat_alt Let_def del: of_nat_unat)
qed

lemma sample_cells:
  "for_opt [(0, 0), (0, 1), (0, 2), (0, 3), (0, 4)] load_cell (drop 12 sample_file,
     sample_at (replicate 5 46) (replicate 8 False) (replicate 8 0) (replicate 8 0)) = Some ([], sample_filled)"
proof -
  have cells: "\<not> is_digit 46" "\<not> is_digit 83" "is_supported_cell 46" "is_supported_cell 83"
    by (simp_all add: is_digit_def is_supported_cell_def)
  note c1 = sample_spawn [OF sample_tokens(1), of 0 0, simplified]
  note c2 = sample_cell [OF sample_tokens(2) cells(1,3), of 1, simplified]
  note c3 = sample_cell [OF sample_tokens(3) cells(2,4), of 2, simplified]
  note c4 = sample_cell [OF sample_tokens(4) cells(1,3), of 3, simplified]
  note c5 = sample_spawn [OF sample_tokens(5), of 1 4, simplified]
  show ?thesis by (simp add: c1 c2 c3 c4 c5 sample_filled_def) (simp add: eval_nat_numeral)
qed

lemma sample_load: "server_load_map True sample_file (server_init_context 7777) = Some sample_loaded"
proof -
  have "gs_resize_map True (state (server_init_context 7777)) 1 5 =
      Some (gs_init\<lparr>gs_map := \<lparr>map_rows = 1, map_cols = 5, map_cells = Some (replicate 5 CELL_EMPTY)\<rparr>\<rparr>)"
    by (simp add: gs_resize_map_def server_init_context_def)
  moreover have "(server_init_context 7777)\<lparr>state := gs_init\<lparr>gs_map := \<lparr>map_rows = 1, map_cols = 5,
      map_cells = Some (replicate 5 CELL_EMPTY)\<rparr>\<rparr>, spawn_defined := replicate 8 False\<rparr> =
      sample_at (replicate 5 46) (replicate 8 False) (replicate 8 0) (replicate 8 0)"
    by (simp add: sample_at_def server_init_context_def)
  moreover have "[(r, k). r \<leftarrow> [0..<1], k \<leftarrow> [0..<5 :: nat]] = [(0 :: nat, 0), (0, 1), (0, 2), (0, 3), (0, 4)]"
    by (simp add: upt_5)
  ultimately show ?thesis
    using sample_cells unfolding server_load_map_def sample_header bind.bind_lunit case_prod_conv Let_def sample_loaded_def
    by simp
qed

definition sample_start :: server_sys where
  "sample_start = \<lparr>ctx = sample_loaded, env = \<lparr>env_sent = [], env_rand = \<lambda>_. 0, env_rand_pos = 0,
     env_malloc = \<lambda>_. True, env_malloc_pos = 0\<rparr>\<rparr>"

lemma sample_start_ok: "server_start sample_start"
proof -
  have "ctx sample_start = sample_loaded\<lparr>listen_fd := listen_fd sample_loaded\<rparr>" by (simp add: sample_start_def)
  then show ?thesis using sample_load unfolding server_start_def by blast
qed

lemmas sample_inv = load_map_inv [OF sample_load]


section \<open>A round with two players\<close>

lemma sample_loaded_fields:
  "clients sample_loaded = replicate 8 zero_client" "gs_status (state sample_loaded) = GAME_LOBBY"
  "bombs sample_loaded = replicate 64 zero_bomb" "explosions sample_loaded = replicate 64 zero_explosion"
  "game_map sample_loaded = \<lparr>map_rows = 1, map_cols = 5, map_cells = Some [46, 46, 83, 46, 46]\<rparr>"
  "spawn_defined sample_loaded = [True, True, False, False, False, False, False, False]"
  "spawn_rows sample_loaded = [0, 0, 0, 0, 0, 0, 0, 0]" "spawn_cols sample_loaded = [0, 4, 0, 0, 0, 0, 0, 0]"
  "length (players sample_loaded) = 8"
  "default_bomb_radius sample_loaded = 1" "default_bomb_timer_ticks sample_loaded = 60"
  "default_speed sample_loaded = 3"
proof -
  have len: "length (players sample_filled) = 8"
    by (simp add: sample_filled_def sample_at_def gs_init_def)
  note F = finish_load_fields [OF len, of 3 3 1 60, folded sample_loaded_def]
  show "clients sample_loaded = replicate 8 zero_client" "gs_status (state sample_loaded) = GAME_LOBBY"
    "bombs sample_loaded = replicate 64 zero_bomb" "explosions sample_loaded = replicate 64 zero_explosion"
    "game_map sample_loaded = \<lparr>map_rows = 1, map_cols = 5, map_cells = Some [46, 46, 83, 46, 46]\<rparr>"
    "spawn_defined sample_loaded = [True, True, False, False, False, False, False, False]"
    "spawn_rows sample_loaded = [0, 0, 0, 0, 0, 0, 0, 0]" "spawn_cols sample_loaded = [0, 4, 0, 0, 0, 0, 0, 0]"
    "length (players sample_loaded) = 8"
    unfolding F by (simp_all add: sample_filled_def sample_at_def init_context_fields len gs_init_def server_init_context_def)
  show "default_bomb_radius sample_loaded = 1" "default_bomb_timer_ticks sample_loaded = 60"
    "default_speed sample_loaded = 3"
    using len by (simp_all add: sample_loaded_def finish_load_def Let_def load_players_eq upd_players_def upd_state_def)
qed

lemma sample_loaded_running: "running sample_loaded"
  by (simp add: sample_loaded_def finish_load_def Let_def load_players_eq upd_players_def upd_state_def
      sample_filled_def sample_at_def gs_init_def server_init_context_def)

definition sample_one :: server_ctx_t where "sample_one = connected 0 5 sample_loaded"
definition sample_two :: server_ctx_t where "sample_two = connected 1 6 sample_one"

definition sample_lobby :: server_ctx_t where
  "sample_lobby = upd_player 1 (\<lambda>p. p\<lparr>pl_ready := True\<rparr>) (upd_player 0 (\<lambda>p. p\<lparr>pl_ready := True\<rparr>) sample_two)"

definition sample_round :: server_ctx_t where "sample_round = started sample_lobby"

lemma sample_slots:
  "find_free_client_slot sample_loaded = Some 0" "find_free_client_slot sample_one = Some 1"
proof -
  show "find_free_client_slot sample_loaded = Some 0"
    unfolding find_free_client_slot_def by (rule first_index_eqI) (simp_all add: sample_loaded_fields zero_client_def)
  show "find_free_client_slot sample_one = Some 1"
    unfolding find_free_client_slot_def
    by (rule first_index_eqI) (simp_all add: sample_one_def connected_def replaced_def sample_loaded_fields
        fresh_client_def zero_client_def)
qed

lemma sample_connected_inv: "server_inv sample_one" "server_inv sample_two"
proof -
  show one: "server_inv sample_one"
    unfolding sample_one_def
    by (rule connected_inv [OF sample_inv(1) sample_slots(1)]) (simp_all add: sample_loaded_fields zero_client_def)
  show "server_inv sample_two"
    unfolding sample_two_def
    by (rule connected_inv [OF one sample_slots(2)])
      (auto simp: sample_one_def connected_def replaced_def sample_loaded_fields fresh_client_def zero_client_def
        nth_list_update split: if_splits)
qed

lemma sample_lobby_inv: "server_inv sample_lobby"
  unfolding sample_lobby_def by (intro ready_inv sample_connected_inv) simp_all

lemma sample_spawns:
  "spawn_point (arriving 0 5 sample_loaded) 0 = (0, 0)" "spawn_point (arriving 1 6 sample_one) 1 = (0, 4)"
  by (simp_all add: spawn_point_def arriving_def replaced_def sample_one_def connected_def sample_loaded_fields)

lemma sample_two_players:
  "length (players sample_two) = 8"
  "players sample_two ! 0 = (fresh_player sample_loaded 0 (players sample_loaded ! 0))\<lparr>pl_row := 0, pl_col := 0\<rparr>"
  "players sample_two ! 1 = (fresh_player sample_one 1 (players sample_one ! 1))\<lparr>pl_row := 0, pl_col := 4\<rparr>"
proof -
  have one: "players sample_one = (players sample_loaded)[0 := (fresh_player sample_loaded 0 (players sample_loaded ! 0))
      \<lparr>pl_row := 0, pl_col := 0\<rparr>]"
    by (simp add: sample_one_def connected_def replaced_def sample_spawns)
  have two: "players sample_two = (players sample_one)[1 := (fresh_player sample_one 1 (players sample_one ! 1))
      \<lparr>pl_row := 0, pl_col := 4\<rparr>]"
    unfolding sample_two_def connected_def replaced_def sample_spawns by simp
  show "length (players sample_two) = 8" by (simp add: two one sample_loaded_fields)
  show "players sample_two ! 0 = (fresh_player sample_loaded 0 (players sample_loaded ! 0))\<lparr>pl_row := 0, pl_col := 0\<rparr>"
    by (simp add: two one sample_loaded_fields)
  show "players sample_two ! 1 = (fresh_player sample_one 1 (players sample_one ! 1))\<lparr>pl_row := 0, pl_col := 4\<rparr>"
    unfolding two by (subst nth_list_update_eq) (simp_all add: one sample_loaded_fields)
qed

lemma sample_lobby_fields:
  "clients sample_lobby = (replicate 8 zero_client)[0 := fresh_client 5 0, 1 := fresh_client 6 1]"
  "gs_status (state sample_lobby) = GAME_LOBBY" "bombs sample_lobby = replicate 64 zero_bomb"
  "game_map sample_lobby = game_map sample_loaded"
  by (simp_all add: sample_lobby_def sample_two_def sample_one_def connected_def replaced_def upd_player_def
      upd_state_def sample_loaded_fields)

lemma sample_lobby_players:
  "length (players sample_lobby) = 8"
  "players sample_lobby ! 0 = (players sample_two ! 0)\<lparr>pl_ready := True\<rparr>"
  "players sample_lobby ! 1 = (players sample_two ! 1)\<lparr>pl_ready := True\<rparr>"
proof -
  have "players sample_lobby = (players sample_two)[0 := (players sample_two ! 0)\<lparr>pl_ready := True\<rparr>,
      1 := (players sample_two ! 1)\<lparr>pl_ready := True\<rparr>]"
    by (simp add: sample_lobby_def upd_player_def upd_state_def)
  then show "length (players sample_lobby) = 8"
    "players sample_lobby ! 0 = (players sample_two ! 0)\<lparr>pl_ready := True\<rparr>"
    "players sample_lobby ! 1 = (players sample_two ! 1)\<lparr>pl_ready := True\<rparr>"
    using sample_two_players(1) by (simp_all add: nth_list_update)
qed

lemma sample_active: "active_slots sample_lobby = [0, 1]"
  unfolding active_slots_def upt_8 sample_lobby_fields
  by (simp add: fresh_client_def zero_client_def)

lemma sample_can_start: "can_start sample_lobby"
  by (simp add: can_start_def sample_active sample_lobby_fields sample_lobby_players [unfolded One_nat_def])

lemma sample_round_inv: "server_inv sample_round" "gs_status (state sample_round) = GAME_RUNNING"
  using started_inv [OF sample_lobby_inv] by (simp_all add: sample_round_def sample_lobby_fields started_def)

lemma sample_round_fields:
  "clients sample_round = clients sample_lobby" "game_map sample_round = game_map sample_loaded"
  "bombs sample_round = replicate 64 zero_bomb"
  by (simp_all add: sample_round_def started_def sample_lobby_fields)

lemma sample_round_players:
  "pl_alive (players sample_round ! 0)" "pl_alive (players sample_round ! 1)"
  "pl_row (players sample_round ! 0) = 0" "pl_col (players sample_round ! 0) = 0"
  "pl_row (players sample_round ! 1) = 0" "pl_col (players sample_round ! 1) = 4"
  "pl_bomb_count (players sample_round ! 0) = 1" "pl_bomb_radius (players sample_round ! 0) = 1"
proof -
  have "cl_active (clients sample_lobby ! i)" if "i \<in> set (active_slots sample_lobby)" for i
    using that by (simp add: active_slots_def)
  from this [of 0] this [of 1] have act: "cl_active (clients sample_lobby ! 0)" "cl_active (clients sample_lobby ! 1)"
    by (simp_all add: sample_active)
  have "players sample_round ! 0 = (players sample_lobby ! 0)\<lparr>pl_alive := True, pl_lives := 1\<rparr>"
    "players sample_round ! 1 = (players sample_lobby ! 1)\<lparr>pl_alive := True, pl_lives := 1\<rparr>"
    using act sample_lobby_players(1) by (simp_all add: sample_round_def started_def)
  then show "pl_alive (players sample_round ! 0)" "pl_alive (players sample_round ! 1)"
    "pl_row (players sample_round ! 0) = 0" "pl_col (players sample_round ! 0) = 0"
    "pl_row (players sample_round ! 1) = 0" "pl_col (players sample_round ! 1) = 4"
    "pl_bomb_count (players sample_round ! 0) = 1" "pl_bomb_radius (players sample_round ! 0) = 1"
    by (simp_all only: sample_lobby_players sample_two_players)
      (simp_all add: fresh_player_def reset_player_def sample_loaded_fields)
qed

definition sample_sys :: "server_ctx_t \<Rightarrow> server_sys" where
  "sample_sys c = sample_start\<lparr>ctx := c\<rparr>"

lemma ctx_sample_sys [simp]: "ctx (sample_sys c) = c"
  by (simp add: sample_sys_def)


section \<open>A bomb on the board\<close>

lemma sample_active_clients: "cl_active (clients sample_round ! 0)" "cl_active (clients sample_round ! 1)"
  using server_invD(5) [OF sample_round_inv(1)] sample_round_players(1,2) by (simp_all add: life_ok_def)

lemma sample_may_place: "may_place sample_round 0 0"
  by (simp add: may_place_def Let_def sample_round_inv sample_round_players sample_round_fields
      sample_loaded_fields make_cell_index_def)

definition sample_bombed :: server_ctx_t where
  "sample_bombed = ctx (snd (handle_bomb_attempt 0 (u16_bytes 0) (sample_sys sample_round)))"

lemma sample_bombed_placed: "placed 0 sample_round sample_bombed"
  using handle_bomb_cases(1) [of "sample_sys sample_round" 0 0] sample_round_inv sample_active_clients sample_may_place
  by (simp add: sample_bombed_def)

lemma sample_bombed_inv: "server_inv sample_bombed" "gs_status (state sample_bombed) = GAME_RUNNING"
proof -
  show "server_inv sample_bombed"
    using placed_inv [OF sample_round_inv(1) _ sample_may_place sample_bombed_placed] by simp
  have "rest sample_bombed = rest sample_round" using sample_bombed_placed by (simp add: placed_def Let_def)
  then show "gs_status (state sample_bombed) = GAME_RUNNING"
    using rest_fields(2) sample_round_inv(2) by metis
qed

lemma sample_bomb: "\<exists>k < 64. bm_owner_id (bombs sample_bombed ! k) = 1"
proof -
  obtain k where k: "k < 64" "bombs sample_bombed = (bombs sample_round)[k := bomb_of (players sample_round ! 0)]"
    using sample_bombed_placed unfolding placed_def Let_def by blast
  have "pl_id (players sample_round ! 0) = 1" using server_invD(3) [OF sample_round_inv(1)] by (simp add: ids_ok_def)
  then show ?thesis using k by (intro exI [of _ k]) (simp add: bomb_of_def sample_round_fields)
qed

text \<open>The same server when the round is over.\<close>

definition sample_end :: server_ctx_t where
  "sample_end = upd_state (\<lambda>g. g\<lparr>gs_status := GAME_END\<rparr>) sample_round"

lemma sample_end_inv: "server_inv sample_end" "gs_status (state sample_end) = GAME_END"
  using server_inv_status_end [OF sample_round_inv(1)] by (simp_all add: sample_end_def upd_state_def)

lemma sample_reachable: "server_reachable sample_start"
  by (rule server_reachable.start [OF sample_start_ok])

end
