(* ===== verification/Handler_Wire.thy ===== *)
theory Handler_Wire
  imports Board_Messages
begin

text \<open>
  What a move and a bomb put on the wire: the packets of the accepting branches of
  \<open>handle_move_attempt\<close> and \<open>handle_bomb_attempt\<close>, in order.
\<close>

definition bomb_packets :: "nat \<Rightarrow> u16 \<Rightarrow> server_ctx_t \<Rightarrow> packet list" where
  "bomb_packets i idx c = to_all c (msg_code MSG_BOMB) (of_nat (Suc i))
     (bomb_wire \<lparr>bomb_player_id = of_nat (Suc i), bomb_cell_index = idx\<rparr>) @ sync_packets c"

definition moved_packets :: "nat \<Rightarrow> server_ctx_t \<Rightarrow> packet list" where
  "moved_packets i c = to_all c (msg_code MSG_MOVED) (of_nat (Suc i))
     (moved_wire \<lparr>moved_player_id = of_nat (Suc i),
        moved_cell_index = make_cell_index (pl_row (players c ! i)) (pl_col (players c ! i)) (map_cols (game_map c))\<rparr>)"

definition bonus_packets :: "nat \<Rightarrow> server_ctx_t \<Rightarrow> packet list" where
  "bonus_packets i c = to_all c (msg_code MSG_BONUS_RETRIEVED) (of_nat (Suc i))
     (bonus_retrieved_wire \<lparr>br_player_id = of_nat (Suc i),
        br_cell_index = make_cell_index (pl_row (players c ! i)) (pl_col (players c ! i)) (map_cols (game_map c))\<rparr>) @ sync_packets c"

lemma env_cell_set [simp]: "env (cell_set r k v s) = env s"
  by (simp add: cell_set_def split: option.split)

lemma clients_cell_set [simp]: "clients (ctx (cell_set r k v s)) = clients (ctx s)"
  by (simp add: cell_set_ctx split: option.split)

lemma fds_ok_cong: "clients c' = clients c \<Longrightarrow> fds_ok c' = fds_ok c"
  by (simp add: fds_ok_def)

lemma clients_upd [simp]: "clients (upd_state f c) = clients c" "clients (upd_player i g c) = clients c"
  by (simp_all add: upd_state_def upd_player_def)

lemma broadcast_payload:
  assumes "fds_ok (ctx s)"
  shows "broadcast_encoded t sid (Some p) (-1) s = emit (to_all (ctx s) t sid p) s"
  using broadcast_to_all [OF assms] by (simp add: broadcast_encoded_def)

lemma bomb_sent:
  fixes s :: server_sys and i :: nat and idx :: u16
  defines "r \<equiv> snd (handle_bomb_attempt i (u16_bytes idx) s)"
  assumes inv: "server_inv (ctx s)" and i: "i < MAX_PLAYERS" "cl_active (clients (ctx s) ! i)" and may: "may_place (ctx s) i idx"
  shows "env_sent (env r) = env_sent (env s) @ bomb_packets i idx (ctx r)"
proof -
  let ?c = "ctx s" and ?p = "players (ctx s) ! i"
  note I = server_invD [OF inv]
  note sl = slot_of_client [OF I(3) i]
  have dec: "proto_decode_bomb_attempt_payload m0 (u16_bytes idx) = Some \<lparr>bomb_attempt_cell_index = idx\<rparr>" for m0
    by (simp add: bomb_attempt.dec_iff bomb_attempt_wire_def)
  obtain k where k: "first_index 64 (\<lambda>j. bm_owner_id (bombs ?c ! j) = 0) = Some k"
    using bomb_storage_free [OF I(6,7,1)] by blast
  then have add: "gs_add_bomb (state ?c) b = Some (k, (state ?c)\<lparr>gs_bombs := (bombs ?c)[k := b]\<rparr>)" for b
    by (simp add: gs_add_bomb_def)
  have M: "gs_status (state ?c) = GAME_RUNNING" "pl_alive ?p" "pl_bomb_count ?p \<noteq> 0"
      "make_cell_index (pl_row ?p) (pl_col ?p) (map_cols (game_map ?c)) = idx"
      "first_index 64 (\<lambda>j. bm_owner_id (bombs ?c ! j) \<noteq> 0 \<and> bm_row (bombs ?c ! j) = pl_row ?p \<and>
        bm_col (bombs ?c ! j) = pl_col ?p) = None"
    using may by (auto simp: may_place_def Let_def first_index_None_iff)
  let ?u = "upd_ctx (upd_player i (\<lambda>p. p\<lparr>pl_bomb_count := pl_bomb_count p - 1\<rparr>)) (cell_set (pl_row ?p) (pl_col ?p) CELL_BOMB
    (upd_ctx (upd_state (\<lambda>_. (state ?c)\<lparr>gs_bombs := (bombs ?c)[k := bomb_of ?p]\<rparr>)) s))"
  have id: "pl_id ?p = of_nat (Suc i)" using I(3) i(1) by (simp add: ids_ok_def del: of_nat_Suc)
  have "fds_ok (ctx ?u)" using I(11) fds_ok_cong [of "ctx ?u" ?c] by simp
  note emits = broadcast_payload [OF this] send_sync_emit
  have pay: "payload_of proto_encode_bomb_payload 16 m = Some (bomb_wire m)" for m
    by (simp add: bomb.payload_eq bomb_wire_def u16_bytes_def)
  have "r = server_send_sync_to_all (broadcast_encoded (msg_code MSG_BOMB) (of_nat (Suc i))
      (payload_of proto_encode_bomb_payload 16 \<lparr>bomb_player_id = of_nat (Suc i), bomb_cell_index = idx\<rparr>) (-1) ?u)"
    using M unfolding r_def handle_bomb_attempt_def Let_def dec option.case sl add prod.case msg_bomb_attempt_t.select_convs
      bomb_of_def [symmetric] id by simp
  also have "\<dots> = emit (bomb_packets i idx (ctx ?u)) ?u"
    unfolding pay emits by (simp add: bomb_packets_def del: msg_code.simps of_nat_Suc)
  finally show ?thesis by simp
qed

lemma take_bonus_sent:
  fixes s :: server_sys and i :: nat
  defines "r \<equiv> take_bonus i i s"
  defines "p \<equiv> players (ctx s) ! i"
  assumes inv: "arrays_ok (ctx s)" "ids_ok (ctx s)" "fds_ok (ctx s)" "wf_map (game_map (ctx s))"
    and i: "i < MAX_PLAYERS" "cl_active (clients (ctx s) ! i)"
  shows "env_sent (env r) = env_sent (env s) @
    (if is_bonus_cell (gs_cell_get (state (ctx s)) (pl_row p) (pl_col p)) then bonus_packets i (ctx r) else [])"
proof (cases "is_bonus_cell (gs_cell_get (state (ctx s)) (pl_row p) (pl_col p))")
  case False
  then show ?thesis by (simp add: r_def p_def take_bonus_def Let_def)
next
  case True
  note sl = slot_of_client [OF inv(2) i]
  have id: "pl_id p = of_nat (Suc i)" using inv(2) i(1) by (simp add: p_def ids_ok_def del: of_nat_Suc)
  have pay: "payload_of proto_encode_bonus_retrieved_payload 16 m = Some (bonus_retrieved_wire m)" for m
    by (simp add: bonus_retrieved.payload_eq bonus_retrieved_wire_def u16_bytes_def)
  let ?cell = "gs_cell_get (state (ctx s)) (pl_row p) (pl_col p)"
  let ?f = "\<lambda>p. if ?cell = CELL_BONUS_SPEED then p\<lparr>pl_speed := pl_speed p + 1\<rparr>
    else if ?cell = CELL_BONUS_RADIUS then p\<lparr>pl_bomb_radius := pl_bomb_radius p + 1\<rparr>
    else p\<lparr>pl_bomb_timer_ticks := pl_bomb_timer_ticks p + 1\<rparr>"
  let ?u = "cell_set (pl_row p) (pl_col p) CELL_EMPTY (upd_ctx (upd_player i ?f) s)"
  have "fds_ok (ctx ?u)" using inv(3) fds_ok_cong [of "ctx ?u" "ctx s"] by simp
  note emits = broadcast_payload [OF this] send_sync_emit
  let ?idx = "make_cell_index (pl_row p) (pl_col p) (map_cols (game_map (ctx ?u)))"
  have "r = server_send_sync_to_all (broadcast_encoded (msg_code MSG_BONUS_RETRIEVED) (of_nat (Suc i))
      (payload_of proto_encode_bonus_retrieved_payload 16 \<lparr>br_player_id = of_nat (Suc i), br_cell_index = ?idx\<rparr>) (-1) ?u)"
    using True unfolding r_def take_bonus_def Let_def p_def [symmetric] id clients_cell_set ctx_upd_ctx clients_upd sl by simp
  also have "\<dots> = emit (to_all (ctx ?u) (msg_code MSG_BONUS_RETRIEVED) (of_nat (Suc i))
      (bonus_retrieved_wire \<lparr>br_player_id = of_nat (Suc i), br_cell_index = ?idx\<rparr>) @ sync_packets (ctx ?u)) ?u"
    unfolding pay emits by (simp del: msg_code.simps of_nat_Suc)
  finally have r: "r = \<dots>" .
  have "players (ctx r) = (players (ctx s))[i := bonus_applied ?cell p]"
    using take_bonus_effect(1) [OF inv(4), of i i] by (simp add: r_def p_def)
  then have "pl_row (players (ctx r) ! i) = pl_row p" "pl_col (players (ctx r) ! i) = pl_col p"
    using inv(1) i(1) by (simp_all add: arrays_ok_def)
  then show ?thesis using True by (simp add: r bonus_packets_def del: msg_code.simps of_nat_Suc)
qed

lemma move_sent:
  fixes s :: server_sys and i :: nat and d :: u8
  defines "r \<equiv> snd (handle_move_attempt i [d] s)"
  assumes inv: "server_inv (ctx s)" and i: "i < MAX_PLAYERS" "cl_active (clients (ctx s) ! i)" and may: "may_move (ctx s) i d"
  shows "env_sent (env r) = env_sent (env s) @ moved_packets i (stepped i d (ctx s)) @
    (if is_bonus_cell (cell_at (ctx s) (move_target d (players (ctx s) ! i))) then bonus_packets i (ctx r) else [])"
proof -
  let ?c = "ctx s" and ?p = "players (ctx s) ! i" and ?q = "move_target d (players (ctx s) ! i)" and ?c1 = "stepped i d (ctx s)"
  note I = server_invD [OF inv]
  note sl = slot_of_client [OF I(3) i]
  have dec: "proto_decode_move_attempt_payload m0 [d] = Some \<lparr>move_direction = d\<rparr>" for m0
    by (simp add: move_attempt.dec_iff move_attempt_wire_def)
  have g: "d \<le> DIR_RIGHT" "gs_status (state ?c) = GAME_RUNNING" "pl_alive ?p" "on_board ?c ?q"
    using may by (simp_all add: may_move_def Let_def)
  have len: "i < length (players ?c)" using I(1) i by (simp add: arrays_ok_def)
  have id: "pl_id (players ?c1 ! i) = of_nat (Suc i)"
    using I(3) i(1) len unfolding stepped_fields by (simp add: ids_ok_def del: of_nat_Suc)
  have on: "\<not> (fst ?q < 0 \<or> snd ?q < 0 \<or> fst ?q \<ge> int (unat (map_rows (game_map ?c))) \<or> snd ?q \<ge> int (unat (map_cols (game_map ?c))))"
    using g(4) by (auto simp: on_board_def)
  have free: "\<not> (server_cell_blocked ?c (of_int (fst ?q)) (of_int (snd ?q)) \<or>
      occupied_by_other_player ?c (cl_id (clients ?c ! i)) (of_int (fst ?q)) (of_int (snd ?q)))"
    using cell_blocked_iff [OF I(2) g(4)] occupied_iff [OF I(3) i(1) g(4)] may
    unfolding sl(2) may_move_def Let_def by blast
  have fds: "fds_ok (ctx (upd_ctx (stepped i d) s))" using I(11) fds_ok_cong [OF stepped_fields(3)] by simp
  have pay: "payload_of proto_encode_moved_payload 16 m = Some (moved_wire m)" for m
    by (simp add: moved.payload_eq moved_wire_def u16_bytes_def)
  have step: "upd_ctx (stepped i d) s = upd_ctx (upd_player i (\<lambda>p. p\<lparr>pl_row := of_int (fst ?q), pl_col := of_int (snd ?q)\<rparr>)) s"
    by (simp add: upd_ctx_def stepped_def)
  have "\<not> DIR_RIGHT < d" using g(1) by simp
  then have "r = take_bonus i i (broadcast_encoded (msg_code MSG_MOVED) (of_nat (Suc i))
      (payload_of proto_encode_moved_payload 16 \<lparr>moved_player_id = pl_id (players ?c1 ! i), moved_cell_index =
        make_cell_index (pl_row (players ?c1 ! i)) (pl_col (players ?c1 ! i)) (map_cols (game_map ?c1))\<rparr>) (-1)
      (upd_ctx (stepped i d) s))"
    using g(2,3) on free unfolding r_def handle_move_attempt_def Let_def dec option.case sl(1) case_prod_beta
      msg_move_attempt_t.select_convs by (simp add: sl(2) step stepped_def)
  also have "\<dots> = take_bonus i i (emit (moved_packets i ?c1) (upd_ctx (stepped i d) s))"
    unfolding pay broadcast_payload [OF fds] id by (simp add: moved_packets_def del: msg_code.simps of_nat_Suc)
  finally have r: "r = \<dots>" .
  let ?s1 = "emit (moved_packets i ?c1) (upd_ctx (stepped i d) s)"
  have c1: "ctx ?s1 = ?c1" by simp
  have "arrays_ok ?c1" "ids_ok ?c1" "wf_map (game_map ?c1)" "fds_ok ?c1"
    using I(1-3) fds by (auto simp: arrays_ok_def ids_ok_def board_ok_def stepped_def upd_player_def upd_state_def nth_update_cases)
  moreover have "clients ?c1 = clients ?c" by (rule stepped_fields(3))
  moreover have "gs_cell_get (state ?c1) (pl_row (players ?c1 ! i)) (pl_col (players ?c1 ! i)) = cell_at ?c ?q"
    using len unfolding stepped_cell_get stepped_fields by (simp add: cell_at_def)
  ultimately show ?thesis using take_bonus_sent [of ?s1 i] i unfolding r [symmetric] c1 by simp
qed

end
