(* ===== verification/Client_State.thy ===== *)
theory Client_State
  imports Codec Game_State
begin

text \<open>
  \<open>client/client.h\<close> and \<open>qlogf\<close> of \<open>client/client.c\<close>: the context of a client and its message log.

  A client system is the context and its environment: the messages handed to \<open>sock_send_message\<close>
  and the results that \<open>calloc\<close> will have.  Output to \<open>stderr\<close> is left out.  An operation of the
  client has the result \<open>None\<close> where the C code has undefined behaviour: a division by zero or an
  access outside an array.
\<close>

section \<open>State\<close>

record timespec =
  tv_sec :: int
  tv_nsec :: int

abbreviation (input) MAX_CLIENT_LOG_COUNT :: nat where "MAX_CLIENT_LOG_COUNT \<equiv> 16"
abbreviation (input) MAX_CLIENT_LOG_STRLEN :: nat where "MAX_CLIENT_LOG_STRLEN \<equiv> 512"

record client_ctx_t =
  cc_fd :: int
  cc_player_id :: u8
  cc_has_welcome :: bool
  cc_running :: bool
  cc_state :: game_state_t
  cc_explosions :: "u16 list"
  cc_ts_last_move :: timespec
  cc_qlog :: "u8 list list"
  cc_qlog_beg :: nat
  cc_qlog_end :: nat
  cc_player_name :: "u8 list"

datatype client_build_command_err_t = CLIENT_BUILD_COMMAND_ERR_OK | CLIENT_BUILD_COMMAND_ERR_FAIL |
  CLIENT_BUILD_COMMAND_ERR_INVALID_INPUT | CLIENT_BUILD_COMMAND_ERR_NO_COMMAND

record client_sys =
  cctx :: client_ctx_t
  cs_sent :: "(msg_header_t \<times> u8 list) list"
  cs_calloc :: "nat \<Rightarrow> bool"
  cs_calloc_pos :: nat

definition upd_cctx :: "(client_ctx_t \<Rightarrow> client_ctx_t) \<Rightarrow> client_sys \<Rightarrow> client_sys" where
  "upd_cctx f s = s\<lparr>cctx := f (cctx s)\<rparr>"

definition upd_cstate :: "(game_state_t \<Rightarrow> game_state_t) \<Rightarrow> client_ctx_t \<Rightarrow> client_ctx_t" where
  "upd_cstate f c = c\<lparr>cc_state := f (cc_state c)\<rparr>"

definition upd_cplayer :: "nat \<Rightarrow> (player_t \<Rightarrow> player_t) \<Rightarrow> client_ctx_t \<Rightarrow> client_ctx_t" where
  "upd_cplayer i f = upd_cstate (\<lambda>st. st\<lparr>gs_players := (gs_players st)[i := f (gs_players st ! i)]\<rparr>)"

definition is_player_id :: "u8 \<Rightarrow> bool" where
  "is_player_id i \<longleftrightarrow> i \<ge> 1 \<and> unat i \<le> MAX_PLAYERS"

definition client_send :: "u8 \<Rightarrow> u8 \<Rightarrow> u8 \<Rightarrow> u8 list \<Rightarrow> client_sys \<Rightarrow> client_sys" where
  "client_send t sid tgt payload s =
     s\<lparr>cs_sent := cs_sent s @ [(\<lparr>h_msg_type = t, h_sender_id = sid, h_target_id = tgt\<rparr>, payload)]\<rparr>"

definition c_calloc :: "client_sys \<Rightarrow> bool \<times> client_sys" where
  "c_calloc s = (cs_calloc s (cs_calloc_pos s), s\<lparr>cs_calloc_pos := cs_calloc_pos s + 1\<rparr>)"

lemma upd_cctx_simps [simp]: "cctx (upd_cctx f s) = f (cctx s)" "cs_sent (upd_cctx f s) = cs_sent s"
  by (simp_all add: upd_cctx_def)

lemma client_send_simps [simp]: "cctx (client_send t sid tgt p s) = cctx s"
  "cs_sent (client_send t sid tgt p s) = cs_sent s @ [(\<lparr>h_msg_type = t, h_sender_id = sid, h_target_id = tgt\<rparr>, p)]"
  by (simp_all add: client_send_def)

section \<open>Text\<close>

text \<open>The pieces \<open>vsnprintf\<close> puts together: literal text, \<open>%u\<close> and \<open>%s\<close>.\<close>

definition text_of :: "string \<Rightarrow> u8 list" where
  "text_of t = map (\<lambda>ch. of_nat (of_char ch)) t"

fun decimal :: "nat \<Rightarrow> u8 list" where
  "decimal n = (if n < 10 then [of_nat (48 + n)] else decimal (n div 10) @ [of_nat (48 + n mod 10)])"

declare decimal.simps [simp del]

definition c_string :: "u8 list \<Rightarrow> u8 list" where
  "c_string s = takeWhile (\<lambda>b. b \<noteq> 0) s"

section \<open>The message log\<close>

definition qlogf :: "u8 list \<Rightarrow> client_ctx_t \<Rightarrow> client_ctx_t" where
  "qlogf line c =
     (let buf = take (MAX_CLIENT_LOG_STRLEN - 1) line @ [0];
          c = c\<lparr>cc_qlog := (cc_qlog c)[cc_qlog_end c := blit 0 buf (cc_qlog c ! cc_qlog_end c)]\<rparr>;
          c = c\<lparr>cc_qlog_end := (cc_qlog_end c + 1) mod MAX_CLIENT_LOG_COUNT\<rparr>
      in if cc_qlog_beg c = cc_qlog_end c
         then c\<lparr>cc_qlog_beg := (cc_qlog_beg c + 1) mod MAX_CLIENT_LOG_COUNT\<rparr> else c)"

definition qlog_ok :: "client_ctx_t \<Rightarrow> bool" where
  "qlog_ok c \<longleftrightarrow> length (cc_qlog c) = MAX_CLIENT_LOG_COUNT \<and> cc_qlog_beg c < MAX_CLIENT_LOG_COUNT \<and>
     cc_qlog_end c < MAX_CLIENT_LOG_COUNT \<and> (\<forall>buf \<in> set (cc_qlog c). length buf = MAX_CLIENT_LOG_STRLEN)"

text \<open>The lines the user sees, oldest first: the slots from \<open>qlog_beg\<close> up to \<open>qlog_end\<close>, around the ring.\<close>

definition log_count :: "client_ctx_t \<Rightarrow> nat" where
  "log_count c = (cc_qlog_end c + MAX_CLIENT_LOG_COUNT - cc_qlog_beg c) mod MAX_CLIENT_LOG_COUNT"

definition log_lines :: "client_ctx_t \<Rightarrow> u8 list list" where
  "log_lines c = map (\<lambda>i. c_string (cc_qlog c ! ((cc_qlog_beg c + i) mod MAX_CLIENT_LOG_COUNT))) [0..<log_count c]"

definition log_entry :: "u8 list \<Rightarrow> u8 list" where
  "log_entry line = c_string (take (MAX_CLIENT_LOG_STRLEN - 1) line)"

section \<open>The log is the list of the last fifteen lines\<close>

definition last_n :: "nat \<Rightarrow> 'a list \<Rightarrow> 'a list" where
  "last_n n xs = drop (length xs - n) xs"

lemma last_n_append: "last_n n (last_n n xs @ ys) = last_n n (xs @ ys)"
proof (cases "length xs \<le> n")
  case False
  then have "length xs - n + (length ys + n - n) = length xs + length ys - n" by simp
  then show ?thesis using False by (simp add: last_n_def drop_drop add.commute)
qed (simp add: last_n_def)

lemma last_n_short: "length xs \<le> n \<Longrightarrow> last_n n xs = xs"
  by (simp add: last_n_def)

text \<open>A log that keeps the last \<open>cap\<close> entries of what is added to it.\<close>

locale bounded_log =
  fixes add :: "'x \<Rightarrow> 'q \<Rightarrow> 'q" and contents :: "'q \<Rightarrow> 'e list" and entry :: "'x \<Rightarrow> 'e"
    and ok :: "'q \<Rightarrow> bool" and cap :: nat
  assumes add_ok: "ok q \<Longrightarrow> ok (add x q)"
    and add_contents: "ok q \<Longrightarrow> contents (add x q) = last_n cap (contents q @ [entry x])"
    and contents_cap: "ok q \<Longrightarrow> length (contents q) \<le> cap"
begin

lemma add_all_ok: "ok q \<Longrightarrow> ok (fold add xs q)"
  by (induction xs arbitrary: q) (simp_all add: add_ok)

lemma add_all_contents: "ok q \<Longrightarrow> contents (fold add xs q) = last_n cap (contents q @ map entry xs)"
proof (induction xs arbitrary: q)
  case Nil
  then show ?case using contents_cap by (simp add: last_n_short)
next
  case (Cons x xs)
  then show ?case using last_n_append [of cap "contents q @ [entry x]" "map entry xs"] by (simp add: add_ok add_contents)
qed

end

lemma qlogf_ok: "qlog_ok c \<Longrightarrow> qlog_ok (qlogf line c)"
  by (auto simp: qlog_ok_def qlogf_def Let_def dest!: set_update_subset_insert [THEN subsetD])

lemma c_string_entry:
  assumes "length buf = MAX_CLIENT_LOG_STRLEN"
  shows "c_string (blit 0 (take (MAX_CLIENT_LOG_STRLEN - 1) line @ [0]) buf) = log_entry line"
proof -
  have "takeWhile (\<lambda>b. b \<noteq> 0) (xs @ 0 # ys) = takeWhile (\<lambda>b. b \<noteq> 0) xs" for xs ys :: "u8 list"
    by (induction xs) simp_all
  then show ?thesis by (simp add: c_string_def log_entry_def blit_def)
qed

lemma length_log_lines [simp]: "length (log_lines c) = log_count c"
  by (simp add: log_lines_def)

lemma nth_log_lines: "i < log_count c \<Longrightarrow>
    log_lines c ! i = c_string (cc_qlog c ! ((cc_qlog_beg c + i) mod MAX_CLIENT_LOG_COUNT))"
  by (simp add: log_lines_def)

lemma log_count_less: "log_count c < MAX_CLIENT_LOG_COUNT"
  by (simp add: log_count_def)

text \<open>\<open>qlog_end\<close> is the slot \<open>log_count\<close> places behind \<open>qlog_beg\<close>.\<close>

lemma log_end:
  assumes "qlog_ok c"
  shows "(cc_qlog_beg c + log_count c) mod MAX_CLIENT_LOG_COUNT = cc_qlog_end c"
  using assms by (cases "cc_qlog_beg c \<le> cc_qlog_end c") (auto simp: log_count_def qlog_ok_def mod_if)

text \<open>One step around the ring, for all positions of its two ends.\<close>

lemma ring_step:
  assumes "b < MAX_CLIENT_LOG_COUNT" "e < MAX_CLIENT_LOG_COUNT"
  shows "let n = (e + 16 - b) mod 16 in
    ((e + 1) mod 16 + 16 - (if n = 15 then (b + 1) mod 16 else b)) mod 16 = min (n + 1) 15"
proof -
  have "\<forall>b \<in> set [0..<16]. \<forall>e \<in> set [0..<16]. let n = (e + 16 - b) mod 16 in
    ((e + 1) mod 16 + 16 - (if n = 15 then (b + 1) mod 16 else b)) mod 16 = min (n + 1) (15 :: nat)"
    by code_simp
  then show ?thesis using assms by (metis atLeastLessThan_iff set_upt zero_le)
qed

lemma qlogf_fields:
  assumes "qlog_ok c"
  shows "log_count (qlogf line c) = min (log_count c + 1) 15"
    and "cc_qlog_beg (qlogf line c) = (cc_qlog_beg c + (log_count c + 1 - 15)) mod MAX_CLIENT_LOG_COUNT"
    and "j < MAX_CLIENT_LOG_COUNT \<Longrightarrow> c_string (cc_qlog (qlogf line c) ! j) =
      (if j = cc_qlog_end c then log_entry line else c_string (cc_qlog c ! j))"
proof -
  let ?b = "cc_qlog_beg c" and ?e = "cc_qlog_end c"
  have be: "?b < 16" "?e < 16" using assms by (simp_all add: qlog_ok_def)
  have full: "?b = (?e + 1) mod 16 \<longleftrightarrow> log_count c = 15"
    using be by (cases "?b \<le> ?e") (auto simp: log_count_def mod_if)
  have beg: "cc_qlog_beg (qlogf line c) = (if log_count c = 15 then (?b + 1) mod 16 else ?b)"
    using full by (simp add: qlogf_def Let_def)
  then show "cc_qlog_beg (qlogf line c) = (?b + (log_count c + 1 - 15)) mod 16"
    using be log_count_less [of c] by auto
  show "log_count (qlogf line c) = min (log_count c + 1) 15"
  proof -
    have "cc_qlog_end (qlogf line c) = (?e + 1) mod 16" by (simp add: qlogf_def Let_def)
    then have "log_count (qlogf line c) = ((?e + 1) mod 16 + 16 - (if log_count c = 15 then (?b + 1) mod 16 else ?b)) mod 16"
      using beg by (simp add: log_count_def)
    also have "\<dots> = min (log_count c + 1) 15"
      using ring_step [OF be] by (simp only: log_count_def Let_def)
    finally show ?thesis .
  qed
  show "c_string (cc_qlog (qlogf line c) ! j) = (if j = ?e then log_entry line else c_string (cc_qlog c ! j))" if "j < 16"
    using that assms be c_string_entry [of "cc_qlog c ! ?e" line]
    by (simp add: qlogf_def Let_def qlog_ok_def)
qed


lemma mod_apart: "b < 16 \<Longrightarrow> x < y \<Longrightarrow> y < 16 \<Longrightarrow> (b + x) mod 16 \<noteq> (b + y) mod (16 :: nat)"
  by (auto simp: mod_if split: if_splits)

lemma qlogf_lines:
  assumes ok: "qlog_ok c"
  shows "log_lines (qlogf line c) = last_n 15 (log_lines c @ [log_entry line])"
proof (rule nth_equalityI)
  note F = qlogf_fields [OF ok, where line = line]
  have n: "log_count c \<le> 15" using log_count_less [of c] by simp
  show "length (log_lines (qlogf line c)) = length (last_n 15 (log_lines c @ [log_entry line]))"
    using n by (simp add: F(1) last_n_def)
  fix i assume "i < length (log_lines (qlogf line c))"
  then have i: "i < min (log_count c + 1) 15" by (simp add: F(1))
  let ?d = "log_count c + 1 - 15"
  have slot: "(cc_qlog_beg (qlogf line c) + i) mod 16 = (cc_qlog_beg c + (?d + i)) mod 16"
    unfolding F(2) by (metis (no_types) add.assoc mod_add_left_eq)
  have "log_lines (qlogf line c) ! i =
      (if (cc_qlog_beg c + (?d + i)) mod 16 = cc_qlog_end c then log_entry line
       else c_string (cc_qlog c ! ((cc_qlog_beg c + (?d + i)) mod 16)))"
    using i F(1) F(3) [of "(cc_qlog_beg c + (?d + i)) mod 16"] by (simp add: nth_log_lines slot)
  also have "\<dots> = (log_lines c @ [log_entry line]) ! (?d + i)"
  proof (cases "?d + i = log_count c")
    case True
    then show ?thesis using log_end [OF ok] by (simp add: nth_append)
  next
    case False
    then have less: "?d + i < log_count c" using i n by auto
    then have "(cc_qlog_beg c + (?d + i)) mod 16 \<noteq> (cc_qlog_beg c + log_count c) mod 16"
      using n ok by (intro mod_apart) (simp_all add: qlog_ok_def)
    then show ?thesis using less log_end [OF ok] by (simp add: nth_append nth_log_lines)
  qed
  finally show "log_lines (qlogf line c) ! i = last_n 15 (log_lines c @ [log_entry line]) ! i"
    unfolding last_n_def by (subst nth_drop) (use n in simp_all)
qed

interpretation qlog: bounded_log qlogf log_lines log_entry qlog_ok 15
  by unfold_locales (simp_all add: qlogf_ok qlogf_lines less_Suc_eq_le [symmetric] log_count_less)

end
