(* ===== verification/Client_Comms.thy ===== *)
theory Client_Comms
  imports Client_State
begin

text \<open>
  \<open>client/client_comms.c\<close>: what a client does with a message from the server, one definition per
  case of the \<open>switch\<close>.  A local struct that the code leaves uninitialised before decoding into it
  holds zeros here; the decoders overwrite every field they report.
\<close>

section \<open>Uninitialised messages\<close>

definition blank_hello :: msg_hello_t where
  "blank_hello = \<lparr>hello_client_id = replicate (MAX_ID_LEN + 1) 0, hello_player_name = replicate (MAX_NAME_LEN + 1) 0\<rparr>"

definition blank_welcome :: msg_welcome_t where
  "blank_welcome = \<lparr>welcome_server_id = replicate (MAX_ID_LEN + 1) 0, welcome_game_status = 0, welcome_player_count = 0,
     welcome_players = replicate MAX_PLAYERS \<lparr>ps_id = 0, ps_ready = False, ps_name = replicate (MAX_NAME_LEN + 1) 0\<rparr>\<rparr>"

definition blank_map :: msg_map_t where
  "blank_map = \<lparr>mm_rows = 0, mm_cols = 0, mm_cell_count = 0, mm_cells = replicate MAX_MAP_CELLS 0\<rparr>"

definition blank_sync :: msg_sync_board_t where
  "blank_sync = \<lparr>sync_status = 0, sync_player_count = 0, sync_players = replicate MAX_PLAYERS
     \<lparr>sp_id = 0, sp_lives = 0, sp_cell_index = 0, sp_alive = False, sp_ready = False, sp_bomb_count = 0,
      sp_bomb_radius = 0, sp_bomb_timer_ticks = 0, sp_speed = 0\<rparr>\<rparr>"

definition blank_error :: msg_error_t where
  "blank_error = \<lparr>err_len = 0, err_text = replicate (MAX_ERROR_LEN + 1) 0\<rparr>"

section \<open>Players\<close>

text \<open>\<open>strncpy (player->name, name, MAX_NAME_LEN)\<close> and the terminating zero.\<close>

definition set_name :: "u8 list \<Rightarrow> player_t \<Rightarrow> player_t" where
  "set_name name p = p\<lparr>pl_name := (strncpy (pl_name p) name MAX_NAME_LEN)[MAX_NAME_LEN := 0]\<rparr>"

definition on_hello :: "msg_header_t \<Rightarrow> u8 list \<Rightarrow> client_ctx_t \<Rightarrow> client_ctx_t" where
  "on_hello h payload c =
     (case proto_decode_hello_payload blank_hello payload of
        None \<Rightarrow> c
      | Some hello \<Rightarrow>
          let c = (if is_player_id (h_sender_id h)
                   then upd_cplayer (unat (h_sender_id h) - 1)
                          (\<lambda>p. set_name (hello_player_name hello) (p\<lparr>pl_id := h_sender_id h\<rparr>)) c
                   else c)
          in qlogf (text_of ''[server] player joined: '' @ c_string (hello_player_name hello)) c)"

definition on_welcome :: "msg_header_t \<Rightarrow> u8 list \<Rightarrow> client_ctx_t \<Rightarrow> int \<times> client_ctx_t" where
  "on_welcome h payload c =
     (case proto_decode_welcome_payload blank_welcome payload of
        None \<Rightarrow> (-1, c)
      | Some welcome \<Rightarrow>
          let c = c\<lparr>cc_player_id := h_sender_id h, cc_has_welcome := True\<rparr>;
              c = upd_cstate (\<lambda>st. st\<lparr>gs_status := ucast (welcome_game_status welcome)\<rparr>) c;
              c = (if is_player_id (cc_player_id c)
                   then upd_cplayer (unat (cc_player_id c) - 1)
                          (\<lambda>p. set_name (cc_player_name c) (p\<lparr>pl_id := cc_player_id c\<rparr>)) c
                   else c);
              c = for_range (unat (welcome_player_count welcome)) (\<lambda>i c.
                    let q = welcome_players welcome ! i in
                    if is_player_id (ps_id q)
                    then upd_cplayer (unat (ps_id q) - 1)
                           (\<lambda>p. set_name (ps_name q) (p\<lparr>pl_id := ps_id q, pl_ready := ps_ready q\<rparr>)) c
                    else c) c
          in (0, qlogf (text_of ''[server] welcome, assigned id='' @ decimal (unat (cc_player_id c)) @
                   text_of '' status='' @ decimal (unat (welcome_game_status welcome))) c))"

definition on_set_status :: "u8 list \<Rightarrow> client_ctx_t \<Rightarrow> client_ctx_t" where
  "on_set_status payload c =
     (case proto_decode_set_status_payload \<lparr>set_status_status = 0\<rparr> payload of
        None \<Rightarrow> c
      | Some m \<Rightarrow> qlogf (text_of ''[server] status changed to '' @ decimal (unat (set_status_status m)))
                   (upd_cstate (\<lambda>st. st\<lparr>gs_status := ucast (set_status_status m)\<rparr>) c))"

definition on_set_ready :: "msg_header_t \<Rightarrow> client_ctx_t \<Rightarrow> client_ctx_t" where
  "on_set_ready h c =
     (if is_player_id (h_sender_id h)
      then qlogf (text_of ''[server] player '' @ decimal (unat (h_sender_id h)) @ text_of '' is ready'')
             (upd_cplayer (unat (h_sender_id h) - 1) (\<lambda>p. p\<lparr>pl_id := h_sender_id h, pl_ready := True\<rparr>) c)
      else c)"

definition on_death :: "u8 list \<Rightarrow> client_ctx_t \<Rightarrow> client_ctx_t" where
  "on_death payload c =
     (case proto_decode_death_payload \<lparr>death_player_id = 0\<rparr> payload of
        None \<Rightarrow> c
      | Some m \<Rightarrow>
          if is_player_id (death_player_id m)
          then qlogf (text_of ''[server] player '' @ decimal (unat (death_player_id m)) @ text_of '' died'')
                 (upd_cplayer (unat (death_player_id m) - 1) (\<lambda>p. p\<lparr>pl_alive := False, pl_lives := 0\<rparr>) c)
          else c)"

definition on_leave :: "msg_header_t \<Rightarrow> client_ctx_t \<Rightarrow> client_ctx_t" where
  "on_leave h c =
     (if is_player_id (h_sender_id h)
      then qlogf (text_of ''[server] player '' @ decimal (unat (h_sender_id h)) @ text_of '' left'')
             (upd_cplayer (unat (h_sender_id h) - 1)
               (\<lambda>p. p\<lparr>pl_alive := False, pl_ready := False, pl_name := (pl_name p)[0 := 0]\<rparr>) c)
      else c)"

section \<open>The board\<close>

definition apply_map_payload :: "msg_map_t \<Rightarrow> client_sys \<Rightarrow> client_sys" where
  "apply_map_payload map_msg s =
     (let (ok, s) = c_calloc s in
      case gs_resize_map ok (cc_state (cctx s)) (ucast (mm_rows map_msg)) (ucast (mm_cols map_msg)) of
        None \<Rightarrow> s
      | Some st \<Rightarrow> upd_cctx (upd_cstate (\<lambda>_. st\<lparr>gs_map := (gs_map st)\<lparr>map_cells := map_option
          (blit 0 (take (unat (mm_cell_count map_msg)) (mm_cells map_msg))) (map_cells (gs_map st))\<rparr>\<rparr>)) s)"

definition on_map :: "u8 list \<Rightarrow> client_sys \<Rightarrow> client_sys" where
  "on_map payload s =
     (case proto_decode_map_payload blank_map payload of
        None \<Rightarrow> s
      | Some map_msg \<Rightarrow> apply_map_payload map_msg s)"

text \<open>One round of the second loop: what the message says of one player.\<close>

definition sync_player :: "msg_sync_player_t \<Rightarrow> client_ctx_t \<Rightarrow> client_ctx_t" where
  "sync_player q c =
     (if \<not> is_player_id (sp_id q) \<or> map_cols (gs_map (cc_state c)) = 0 then c
      else upd_cplayer (unat (sp_id q) - 1) (\<lambda>p.
        let (row, col) = the (split_cell_index (sp_cell_index q) (map_cols (gs_map (cc_state c)))) in
        p\<lparr>pl_id := sp_id q, pl_row := row, pl_col := col, pl_alive := sp_alive q, pl_ready := sp_ready q,
          pl_lives := sp_lives q, pl_bomb_count := sp_bomb_count q, pl_bomb_radius := sp_bomb_radius q,
          pl_bomb_timer_ticks := sp_bomb_timer_ticks q, pl_speed := sp_speed q\<rparr>) c)"

definition on_sync_board :: "u8 list \<Rightarrow> client_ctx_t \<Rightarrow> client_ctx_t" where
  "on_sync_board payload c =
     (case proto_decode_sync_board_payload blank_sync payload of
        None \<Rightarrow> c
      | Some sync \<Rightarrow>
          let c = upd_cstate (\<lambda>st. st\<lparr>gs_status := ucast (sync_status sync)\<rparr>) c;
              c = for_range MAX_PLAYERS (\<lambda>i. upd_cplayer i (\<lambda>p. p\<lparr>pl_alive := False, pl_ready := False\<rparr>)) c
          in for_range (unat (sync_player_count sync)) (\<lambda>i. sync_player (sync_players sync ! i)) c)"

definition on_moved :: "u8 list \<Rightarrow> client_ctx_t \<Rightarrow> client_ctx_t" where
  "on_moved payload c =
     (case proto_decode_moved_payload \<lparr>moved_player_id = 0, moved_cell_index = 0\<rparr> payload of
        None \<Rightarrow> c
      | Some m \<Rightarrow>
          if is_player_id (moved_player_id m) \<and> map_cols (gs_map (cc_state c)) > 0
          then let (row, col) = the (split_cell_index (moved_cell_index m) (map_cols (gs_map (cc_state c)))) in
            upd_cplayer (unat (moved_player_id m) - 1) (\<lambda>p. p\<lparr>pl_row := row, pl_col := col\<rparr>) c
          else c)"

text \<open>\<open>split_cell_index\<close> and \<open>gs_cell_set\<close>, whose result is ignored, under the guard \<open>cols > 0\<close>.\<close>

definition set_cell_at :: "u16 \<Rightarrow> u8 \<Rightarrow> client_ctx_t \<Rightarrow> client_ctx_t" where
  "set_cell_at index v c =
     (if map_cols (gs_map (cc_state c)) > 0
      then let (row, col) = the (split_cell_index index (map_cols (gs_map (cc_state c)))) in
        case gs_cell_set (cc_state c) row col v of
          None \<Rightarrow> c
        | Some st \<Rightarrow> upd_cstate (\<lambda>_. st) c
      else c)"

definition on_bomb :: "u8 list \<Rightarrow> client_ctx_t \<Rightarrow> client_ctx_t" where
  "on_bomb payload c =
     (case proto_decode_bomb_payload \<lparr>bomb_player_id = 0, bomb_cell_index = 0\<rparr> payload of
        None \<Rightarrow> c
      | Some m \<Rightarrow> set_cell_at (bomb_cell_index m) CELL_BOMB c)"

definition on_bonus_available :: "u8 list \<Rightarrow> client_ctx_t \<Rightarrow> client_ctx_t" where
  "on_bonus_available payload c =
     (case proto_decode_bonus_available_payload \<lparr>ba_bonus_type = 0, ba_cell_index = 0\<rparr> payload of
        None \<Rightarrow> c
      | Some m \<Rightarrow>
          let cell = (if unat (ba_bonus_type m) = BONUS_RADIUS then CELL_BONUS_RADIUS
                      else if unat (ba_bonus_type m) = BONUS_TIMER then CELL_BONUS_TIMER else CELL_BONUS_SPEED)
          in set_cell_at (ba_cell_index m) cell c)"

definition on_bonus_retrieved :: "u8 list \<Rightarrow> client_ctx_t \<Rightarrow> client_ctx_t" where
  "on_bonus_retrieved payload c =
     (case proto_decode_bonus_retrieved_payload \<lparr>br_player_id = 0, br_cell_index = 0\<rparr> payload of
        None \<Rightarrow> c
      | Some m \<Rightarrow> set_cell_at (br_cell_index m) CELL_EMPTY c)"

definition on_block_destroyed :: "u8 list \<Rightarrow> client_ctx_t \<Rightarrow> client_ctx_t" where
  "on_block_destroyed payload c =
     (case proto_decode_block_destroyed_payload \<lparr>bd_cell_index = 0\<rparr> payload of
        None \<Rightarrow> c
      | Some m \<Rightarrow> set_cell_at (bd_cell_index m) CELL_EMPTY c)"

text \<open>\<open>explosions[row * MAX_MAP_SIDE + col] = value\<close>: undefined outside the array.\<close>

definition set_explosion :: "u16 \<Rightarrow> u16 \<Rightarrow> u16 \<Rightarrow> client_ctx_t \<Rightarrow> client_ctx_t option" where
  "set_explosion row col v c =
     (let i = unat row * MAX_MAP_SIDE + unat col in
      if i < MAX_MAP_CELLS then Some (c\<lparr>cc_explosions := (cc_explosions c)[i := v]\<rparr>) else None)"

definition on_explosion_start :: "u8 list \<Rightarrow> client_ctx_t \<Rightarrow> client_ctx_t option" where
  "on_explosion_start payload c =
     (case proto_decode_explosion_start_payload \<lparr>es_radius = 0, es_cell_index = 0\<rparr> payload of
        None \<Rightarrow> Some c
      | Some m \<Rightarrow> do {
          (row, col) \<leftarrow> split_cell_index (es_cell_index m) (map_cols (gs_map (cc_state c)));
          set_explosion row col (ucast (es_radius m)) c
        })"

definition on_explosion_end :: "u8 list \<Rightarrow> client_ctx_t \<Rightarrow> client_ctx_t option" where
  "on_explosion_end payload c =
     (case proto_decode_explosion_end_payload \<lparr>ee_cell_index = 0\<rparr> payload of
        None \<Rightarrow> Some c
      | Some m \<Rightarrow>
          if map_cols (gs_map (cc_state c)) > 0
          then do {
            (row, col) \<leftarrow> split_cell_index (ee_cell_index m) (map_cols (gs_map (cc_state c)));
            set_explosion row col 0 (set_cell_at (ee_cell_index m) CELL_EMPTY c)
          }
          else Some c)"

section \<open>Messages for the user\<close>

definition on_winner :: "u8 list \<Rightarrow> client_ctx_t \<Rightarrow> client_ctx_t" where
  "on_winner payload c =
     (case proto_decode_winner_payload \<lparr>winner_winner_id = 0\<rparr> payload of
        None \<Rightarrow> c
      | Some m \<Rightarrow> qlogf (text_of ''[server] winner is player '' @ decimal (unat (winner_winner_id m))) c)"

definition on_error :: "u8 list \<Rightarrow> client_ctx_t \<Rightarrow> client_ctx_t" where
  "on_error payload c =
     (case proto_decode_error_payload blank_error payload of
        None \<Rightarrow> c
      | Some m \<Rightarrow> qlogf (text_of ''[server][error] '' @ c_string (err_text m)) c)"

section \<open>Dispatch\<close>

definition client_handle_server_message ::
  "msg_header_t \<Rightarrow> u8 list \<Rightarrow> client_sys \<Rightarrow> (int \<times> client_sys) option" where
  "client_handle_server_message h payload s =
     (let ok = (\<lambda>f. Some (0, upd_cctx f s)) in
      case msg_type_of (h_msg_type h) of
        Some MSG_HELLO \<Rightarrow> ok (on_hello h payload)
      | Some MSG_WELCOME \<Rightarrow> (case on_welcome h payload (cctx s) of (rc, c) \<Rightarrow> Some (rc, upd_cctx (\<lambda>_. c) s))
      | Some MSG_SET_STATUS \<Rightarrow> ok (on_set_status payload)
      | Some MSG_SET_READY \<Rightarrow> ok (on_set_ready h)
      | Some MSG_MAP \<Rightarrow> Some (0, on_map payload s)
      | Some MSG_SYNC_BOARD \<Rightarrow> ok (on_sync_board payload)
      | Some MSG_MOVED \<Rightarrow> ok (on_moved payload)
      | Some MSG_BOMB \<Rightarrow> ok (on_bomb payload)
      | Some MSG_EXPLOSION_START \<Rightarrow> map_option (\<lambda>c. (0, upd_cctx (\<lambda>_. c) s)) (on_explosion_start payload (cctx s))
      | Some MSG_EXPLOSION_END \<Rightarrow> map_option (\<lambda>c. (0, upd_cctx (\<lambda>_. c) s)) (on_explosion_end payload (cctx s))
      | Some MSG_DEATH \<Rightarrow> ok (on_death payload)
      | Some MSG_BONUS_AVAILABLE \<Rightarrow> ok (on_bonus_available payload)
      | Some MSG_BONUS_RETRIEVED \<Rightarrow> ok (on_bonus_retrieved payload)
      | Some MSG_BLOCK_DESTROYED \<Rightarrow> ok (on_block_destroyed payload)
      | Some MSG_WINNER \<Rightarrow> ok (on_winner payload)
      | Some MSG_ERROR \<Rightarrow> ok (on_error payload)
      | Some MSG_DISCONNECT \<Rightarrow>
          Some (1, upd_cctx (\<lambda>c. (qlogf (text_of ''[server] disconnect requested'') c)\<lparr>cc_running := False\<rparr>) s)
      | Some MSG_LEAVE \<Rightarrow> ok (on_leave h)
      | Some MSG_PING \<Rightarrow>
          Some (0, client_send (msg_code MSG_PONG) (cc_player_id (cctx s)) SERVER_ENDPOINT_ID [] s)
      | Some MSG_PONG \<Rightarrow> ok (qlogf (text_of ''[server] pong''))
      | _ \<Rightarrow> ok (qlogf (text_of ''[server] unhandled message type='' @ decimal (unat (h_msg_type h)))))"

end
