(* ===== verification/Client_Spec.thy ===== *)
theory Client_Spec
  imports Client_Comms
begin

text \<open>
  What holds of a client whatever its server sends: the invariant of its context, and which messages
  lead it outside its arrays.
\<close>

section \<open>The invariant\<close>

text \<open>The client's map: none yet, or one that \<open>gs_resize_map\<close> made for a message, so with byte-sized sides.\<close>

definition client_map_ok :: "map_t \<Rightarrow> bool" where
  "client_map_ok m \<longleftrightarrow> (wf_map m \<and> unat (map_rows m) \<le> MAX_MAP_SIDE \<and> unat (map_cols m) \<le> MAX_MAP_SIDE) \<or>
     (map_rows m = 0 \<and> map_cols m = 0 \<and> map_cells m = None)"

definition client_ok :: "client_ctx_t \<Rightarrow> bool" where
  "client_ok c \<longleftrightarrow> length (gs_players (cc_state c)) = MAX_PLAYERS \<and>
     (\<forall>i < MAX_PLAYERS. length (pl_name (gs_players (cc_state c) ! i)) = MAX_NAME_LEN + 1 \<and>
        unat (pl_id (gs_players (cc_state c) ! i)) = Suc i) \<and>
     client_map_ok (gs_map (cc_state c)) \<and> length (cc_explosions c) = MAX_MAP_CELLS \<and>
     qlog_ok c \<and> length (cc_player_name c) = MAX_NAME_LEN + 1"

named_theorems ok_intros \<open>operations that keep the client's invariant\<close>

lemma qlog_ok_cong:
  "cc_qlog c' = cc_qlog c \<Longrightarrow> cc_qlog_beg c' = cc_qlog_beg c \<Longrightarrow> cc_qlog_end c' = cc_qlog_end c \<Longrightarrow> qlog_ok c' = qlog_ok c"
  by (simp add: qlog_ok_def)

lemma qlogf_frame [simp]:
  "cc_state (qlogf line c) = cc_state c" "cc_explosions (qlogf line c) = cc_explosions c"
  "cc_player_name (qlogf line c) = cc_player_name c" "cc_player_id (qlogf line c) = cc_player_id c"
  "cc_has_welcome (qlogf line c) = cc_has_welcome c" "cc_running (qlogf line c) = cc_running c"
  "cc_ts_last_move (qlogf line c) = cc_ts_last_move c" "cc_fd (qlogf line c) = cc_fd c"
  by (simp_all add: qlogf_def Let_def)

lemma ok_qlogf [ok_intros]: "client_ok c \<Longrightarrow> client_ok (qlogf line c)"
  by (simp add: client_ok_def qlogf_ok)

lemma ok_upd_cplayer [ok_intros]:
  assumes "client_ok c" "\<And>p. length (pl_name p) = MAX_NAME_LEN + 1 \<Longrightarrow> length (pl_name (f p)) = MAX_NAME_LEN + 1"
    and "\<And>p. unat (pl_id p) = Suc i \<Longrightarrow> unat (pl_id (f p)) = Suc i"
  shows "client_ok (upd_cplayer i f c)"
  using assms
  by (auto simp: client_ok_def upd_cplayer_def upd_cstate_def qlog_ok_def nth_update_cases)

lemma set_name_id [simp]: "pl_id (set_name name p) = pl_id p"
  by (simp add: set_name_def)

lemma player_id_slot: "is_player_id i \<Longrightarrow> unat i - Suc 0 < MAX_PLAYERS \<and> Suc (unat i - Suc 0) = unat i"
  by (auto simp: is_player_id_def word_le_nat_alt)

lemma length_set_name: "length (pl_name p) = MAX_NAME_LEN + 1 \<Longrightarrow> length (pl_name (set_name name p)) = MAX_NAME_LEN + 1"
  by (simp add: set_name_def)

lemma ok_status [ok_intros]: "client_ok c \<Longrightarrow> client_ok (upd_cstate (\<lambda>st. st\<lparr>gs_status := v\<rparr>) c)"
  by (simp add: client_ok_def upd_cstate_def qlog_ok_def)

lemma ok_map:
  assumes "client_ok c" "gs_players st = gs_players (cc_state c)" "client_map_ok (gs_map st)"
  shows "client_ok (upd_cstate (\<lambda>_. st) c)"
  using assms by (simp add: client_ok_def upd_cstate_def qlog_ok_def)

lemma ok_set_cell_at [ok_intros]:
  assumes "client_ok c"
  shows "client_ok (set_cell_at index v c)"
proof -
  have "client_ok (upd_cstate (\<lambda>_. st) c)" if set: "gs_cell_set (cc_state c) row col v = Some st" for row col st
  proof (rule ok_map [OF assms gs_cell_set_frame(1) [OF set]])
    have "map_cells (gs_map (cc_state c)) \<noteq> None"
      using set by (auto simp: gs_cell_set_def gs_in_bounds_def split: if_splits)
    then show "client_map_ok (gs_map st)"
      using assms gs_cell_set_wf [OF _ set] gs_cell_set_frame(5,6) [OF set]
      by (auto simp: client_ok_def client_map_ok_def)
  qed
  then show ?thesis using assms by (auto simp: set_cell_at_def Let_def split: option.split prod.split)
qed

lemma ok_set_explosion: "client_ok c \<Longrightarrow> set_explosion row col v c = Some c' \<Longrightarrow> client_ok c'"
  by (auto simp: set_explosion_def Let_def client_ok_def qlog_ok_def split: if_splits)

lemma ok_for_range [ok_intros]:
  "client_ok c \<Longrightarrow> (\<And>i c. client_ok c \<Longrightarrow> client_ok (body i c)) \<Longrightarrow> client_ok (for_range n body c)"
  by (rule for_range_inv) simp_all

lemma ok_sync_player [ok_intros]: "client_ok c \<Longrightarrow> client_ok (sync_player q c)"
  by (auto simp: sync_player_def Let_def split_beta player_id_slot intro!: ok_upd_cplayer)

lemma ok_welcome_fields [ok_intros]:
  "client_ok c \<Longrightarrow> client_ok (c\<lparr>cc_player_id := i, cc_has_welcome := b\<rparr>)"
  "client_ok c \<Longrightarrow> client_ok (c\<lparr>cc_running := b\<rparr>)"
  by (simp_all add: client_ok_def qlog_ok_def)

lemma decode_map_count:
  assumes "proto_decode_map_payload m0 bs = Some m"
  shows "mm_rows m \<noteq> 0" "mm_cols m \<noteq> 0" "unat (mm_cell_count m) = unat (mm_rows m) * unat (mm_cols m)"
    "take (unat (mm_cell_count m)) (mm_cells m) = drop 2 bs" "length bs = 2 + unat (mm_cell_count m)"
proof -
  obtain r c rest where bs: "bs = r # c # rest"
    using assms by (cases bs rule: list.exhaust [case_names Nil Cons]; cases "tl bs") (auto simp: proto_decode_map_payload_def)
  let ?m = "m0\<lparr>mm_rows := r, mm_cols := c\<rparr>"
  have m: "map_expected_count ?m \<noteq> 0" "length rest = unat (map_expected_count ?m)"
    "m = ?m\<lparr>mm_cell_count := map_expected_count ?m, mm_cells := blit 0 rest (mm_cells m0)\<rparr>"
    using assms by (auto simp: proto_decode_map_payload_def bs read_u8_drop Let_def split: if_splits)
  have "map_count ?m = unat r * unat c" by (simp add: map_count_def)
  then have n: "unat (map_expected_count ?m) = unat r * unat c" by (simp add: unat_map_expected_count)
  have "map_valid ?m" using m(1) map_expected_count_0 by blast
  then show "mm_rows m \<noteq> 0" "mm_cols m \<noteq> 0" by (simp_all add: m(3) map_valid_def)
  show "unat (mm_cell_count m) = unat (mm_rows m) * unat (mm_cols m)" by (simp add: m(3) n)
  show "take (unat (mm_cell_count m)) (mm_cells m) = drop 2 bs"
    using m(2) take_blit_0 [of rest "mm_cells m0"] by (simp add: m(3) bs)
  show "length bs = 2 + unat (mm_cell_count m)" using m(2) by (simp add: m(3) bs)
qed

text \<open>After \<open>apply_map_payload\<close> the client has the map of the message, if the allocation succeeds.\<close>

lemma on_map_done:
  assumes "proto_decode_map_payload blank_map payload = Some m" "cs_calloc s (cs_calloc_pos s)"
  shows "cctx (on_map payload s) = upd_cstate (\<lambda>st. st\<lparr>gs_map := \<lparr>map_rows = ucast (mm_rows m),
    map_cols = ucast (mm_cols m), map_cells = Some (drop 2 payload)\<rparr>\<rparr>) (cctx s)"
proof -
  note D = decode_map_count [OF assms(1)]
  let ?count = "unat (mm_rows m) * unat (mm_cols m)"
  have "?count \<le> 255 * 255" by (intro mult_le_mono) simp_all
  moreover have "blit 0 (drop 2 payload) (replicate ?count CELL_EMPTY) = drop 2 payload"
    using D(3,5) by (intro blit_same_length) simp
  moreover have "ucast (mm_rows m) \<noteq> (0 :: u16)" "ucast (mm_cols m) \<noteq> (0 :: u16)"
    using D(1,2) unat_ucast_u8_u16 [of "mm_rows m"] unat_ucast_u8_u16 [of "mm_cols m"] by (metis unat_eq_zero)+
  ultimately show ?thesis
    using assms(2) D(4) by (simp add: on_map_def assms(1) apply_map_payload_def c_calloc_def gs_resize_map_def
        Let_def D(3) upd_cctx_def upd_cstate_def)
qed

lemma on_map_cases:
  obtains "cctx (on_map payload s) = cctx s"
  | m where "proto_decode_map_payload blank_map payload = Some m" "cs_calloc s (cs_calloc_pos s)"
proof (cases "proto_decode_map_payload blank_map payload")
  case None
  then show thesis by (intro that(1)) (simp add: on_map_def)
next
  case (Some m)
  show thesis
  proof (cases "cs_calloc s (cs_calloc_pos s)")
    case False
    then show thesis
      by (intro that(1)) (simp add: on_map_def Some apply_map_payload_def c_calloc_def gs_resize_map_def Let_def split: if_splits)
  qed (rule that(2) [OF Some])
qed

lemma ok_on_map:
  assumes "client_ok (cctx s)"
  shows "client_ok (cctx (on_map payload s))"
proof (cases rule: on_map_cases [of payload s])
  case (2 m)
  note D = decode_map_count [OF 2(1)]
  have "unat (mm_rows m) * unat (mm_cols m) \<le> 255 * 255" by (intro mult_le_mono) simp_all
  moreover have "0 < unat (mm_rows m)" "0 < unat (mm_cols m)" using D(1,2) by (simp_all add: unat_gt_0)
  ultimately have "client_map_ok \<lparr>map_rows = ucast (mm_rows m), map_cols = ucast (mm_cols m), map_cells = Some (drop 2 payload)\<rparr>"
    using D(3,5) by (simp add: client_map_ok_def wf_map_def word_less_nat_alt)
  then show ?thesis using assms by (simp add: on_map_done [OF 2] client_ok_def upd_cstate_def qlog_ok_def)
qed (simp add: assms)

lemmas on_defs = on_hello_def on_set_status_def on_set_ready_def on_sync_board_def on_moved_def on_bomb_def
  on_death_def on_bonus_available_def on_bonus_retrieved_def on_block_destroyed_def on_winner_def on_error_def on_leave_def

lemma ok_ons:
  assumes "client_ok c"
  shows "client_ok (on_hello h p c)" "client_ok (snd (on_welcome h p c))" "client_ok (on_set_status p c)"
    "client_ok (on_set_ready h c)" "client_ok (on_sync_board p c)" "client_ok (on_moved p c)" "client_ok (on_bomb p c)"
    "client_ok (on_death p c)" "client_ok (on_bonus_available p c)" "client_ok (on_bonus_retrieved p c)"
    "client_ok (on_block_destroyed p c)" "client_ok (on_winner p c)" "client_ok (on_error p c)" "client_ok (on_leave h c)"
  using assms
  by (auto simp: on_defs on_welcome_def Let_def split_beta length_set_name player_id_slot split: option.split intro!: ok_intros)

lemma ok_explosions:
  assumes "client_ok c"
  shows "on_explosion_start p c = Some c' \<Longrightarrow> client_ok c'" "on_explosion_end p c = Some c' \<Longrightarrow> client_ok c'"
  using assms
  by (auto simp: on_explosion_start_def on_explosion_end_def bind_eq_Some_conv split: option.splits if_splits
      dest!: ok_set_explosion [rotated] intro: ok_set_cell_at)

theorem message_keeps_ok:
  assumes "client_handle_server_message h p s = Some (rc, t)" "client_ok (cctx s)"
  shows "client_ok (cctx t)"
proof (cases "msg_type_of (h_msg_type h)")
  case None
  then show ?thesis using assms by (auto simp: client_handle_server_message_def Let_def intro: ok_intros)
next
  case (Some m)
  have welcome_ok: "client_ok c'" if "on_welcome h p (cctx s) = (r, c')" for r c'
    using ok_ons(2) [OF assms(2), of h p] that by simp
  show ?thesis using assms(1) Some ok_ons [OF assms(2)] ok_explosions [OF assms(2)] ok_on_map [OF assms(2)]
    by (cases m) (auto simp: client_handle_server_message_def Let_def welcome_ok split: prod.splits intro!: ok_intros assms(2))
qed

section \<open>When a message is undefined behaviour\<close>

lemma set_explosion_defined:
  assumes "split_cell_index index cols = Some (row, col)" "unat cols \<le> MAX_MAP_SIDE"
  shows "set_explosion row col v c \<noteq> None \<longleftrightarrow> unat index < MAX_MAP_SIDE * unat cols"
proof -
  have rc: "0 < unat cols" "unat row = unat index div unat cols" "unat col = unat index mod unat cols"
    using assms(1) by (auto simp: split_cell_index_def unat_div unat_mod unat_gt_0 split: if_splits)
  have "unat col < 255" using rc(1,3) assms(2) by (metis mod_less_divisor order_less_le_trans)
  then have "unat row * 255 + unat col < 65025 \<longleftrightarrow> unat row < 255" by auto
  also have "\<dots> \<longleftrightarrow> unat index < 255 * unat cols" using rc(1,2) by (simp add: div_less_iff_less_mult)
  finally show ?thesis by (simp add: set_explosion_def Let_def)
qed

text \<open>The cell that an explosion message names, when the payload has its two or three bytes.\<close>

definition explosion_cell :: "u8 \<Rightarrow> u8 list \<Rightarrow> u16 option" where
  "explosion_cell t payload =
     (if t = msg_code MSG_EXPLOSION_START
      then map_option es_cell_index (proto_decode_explosion_start_payload \<lparr>es_radius = 0, es_cell_index = 0\<rparr> payload)
      else if t = msg_code MSG_EXPLOSION_END
      then map_option ee_cell_index (proto_decode_explosion_end_payload \<lparr>ee_cell_index = 0\<rparr> payload)
      else None)"

definition safe_message :: "msg_header_t \<Rightarrow> u8 list \<Rightarrow> client_ctx_t \<Rightarrow> bool" where
  "safe_message h payload c \<longleftrightarrow>
     (let cols = map_cols (gs_map (cc_state c)) in
      case explosion_cell (h_msg_type h) payload of
        None \<Rightarrow> True
      | Some index \<Rightarrow>
          (cols = 0 \<longrightarrow> h_msg_type h \<noteq> msg_code MSG_EXPLOSION_START) \<and>
          (cols \<noteq> 0 \<longrightarrow> unat index < MAX_MAP_SIDE * unat cols))"

lemma client_cols_le: "client_ok c \<Longrightarrow> unat (map_cols (gs_map (cc_state c))) \<le> MAX_MAP_SIDE"
  by (auto simp: client_ok_def client_map_ok_def)

lemma explosion_start_defined:
  assumes "client_ok c"
  shows "on_explosion_start p c \<noteq> None \<longleftrightarrow>
    (case proto_decode_explosion_start_payload \<lparr>es_radius = 0, es_cell_index = 0\<rparr> p of
       None \<Rightarrow> True
     | Some m \<Rightarrow> map_cols (gs_map (cc_state c)) \<noteq> 0 \<and>
         unat (es_cell_index m) < MAX_MAP_SIDE * unat (map_cols (gs_map (cc_state c))))"
  using set_explosion_defined [OF _ client_cols_le [OF assms]]
  by (auto simp: on_explosion_start_def split_cell_index_def split: option.splits)

lemma explosion_end_defined:
  assumes "client_ok c"
  shows "on_explosion_end p c \<noteq> None \<longleftrightarrow>
    (case proto_decode_explosion_end_payload \<lparr>ee_cell_index = 0\<rparr> p of
       None \<Rightarrow> True
     | Some m \<Rightarrow> map_cols (gs_map (cc_state c)) \<noteq> 0 \<longrightarrow>
         unat (ee_cell_index m) < MAX_MAP_SIDE * unat (map_cols (gs_map (cc_state c))))"
  using set_explosion_defined [OF _ client_cols_le [OF assms]]
  by (auto simp: on_explosion_end_def split_cell_index_def word_neq_0_conv split: option.splits)

lemma message_defined:
  assumes "client_ok (cctx s)"
  shows "client_handle_server_message h p s \<noteq> None \<longleftrightarrow> safe_message h p (cctx s)"
proof (cases "msg_type_of (h_msg_type h)")
  case None
  then have "h_msg_type h \<noteq> msg_code m" for m by auto
  then show ?thesis using None by (simp add: client_handle_server_message_def Let_def safe_message_def explosion_cell_def del: msg_code.simps)
next
  case (Some m)
  then have "h_msg_type h = msg_code m" by (rule msg_type_of_SomeD)
  then show ?thesis using Some explosion_start_defined [OF assms, of p] explosion_end_defined [OF assms, of p]
    by (cases m) (auto simp: client_handle_server_message_def Let_def safe_message_def explosion_cell_def split: option.splits prod.splits)
qed

end
