(* ===== verification/Input_Handler.thy ===== *)
theory Input_Handler
  imports Client_State
begin

text \<open>
  \<open>client/input_handler.c\<close>: elapsed time and the command that a key stands for.

  The fields of a \<open>timespec\<close> are integers here; a monotonic clock stays far inside the C types.
  \<open>client_build_command\<close> takes the time that \<open>clock_gettime\<close> reports and what its output
  parameters held before; its result is \<open>None\<close> when it reads \<open>players[player_id - 1]\<close> outside the
  array, undefined in C.
\<close>

section \<open>Time\<close>

abbreviation (input) SECOND_NS :: int where "SECOND_NS \<equiv> 1000000000"

definition ts_cmp :: "timespec \<Rightarrow> timespec \<Rightarrow> int" where
  "ts_cmp a b =
     (if tv_sec a < tv_sec b then -1
      else if tv_sec a > tv_sec b then 1
      else if tv_nsec a < tv_nsec b then -1
      else if tv_nsec a > tv_nsec b then 1
      else 0)"

definition ts_norm :: "timespec \<Rightarrow> timespec" where
  "ts_norm ts =
     (if tv_nsec ts \<ge> SECOND_NS
      then ts\<lparr>tv_sec := tv_sec ts + tv_nsec ts div SECOND_NS, tv_nsec := tv_nsec ts mod SECOND_NS\<rparr>
      else if tv_nsec ts < 0
      then let sec = (- tv_nsec ts) div SECOND_NS + 1 in
        ts\<lparr>tv_sec := tv_sec ts - sec, tv_nsec := tv_nsec ts + sec * SECOND_NS\<rparr>
      else ts)"

definition ts_diff :: "timespec \<Rightarrow> timespec \<Rightarrow> timespec" where
  "ts_diff a b = ts_norm (a\<lparr>tv_sec := tv_sec a - tv_sec b, tv_nsec := tv_nsec a - tv_nsec b\<rparr>)"

section \<open>Commands\<close>

record command_out =
  co_msg_type :: u8
  co_sender_id :: u8
  co_target_id :: u8
  co_payload :: "u8 list"
  co_payload_len :: nat
  co_should_quit :: bool

definition CONTROLS_STR :: string where
  "CONTROLS_STR = ''controls: r (ready), w/a/s/d (move), b (bomb), p (ping), l (lobby), q (quit)''"

definition key :: "char \<Rightarrow> u8" where
  "key ch = of_nat (of_char ch)"

type_synonym build_result = "client_build_command_err_t \<times> command_out \<times> client_ctx_t"

text \<open>Storing what an encoder wrote, the common end of the branches with a payload.\<close>

definition with_payload :: "wstate option \<Rightarrow> command_out \<Rightarrow> client_ctx_t \<Rightarrow> client_ctx_t \<Rightarrow> build_result" where
  "with_payload enc out c c_ok =
     (case enc of
        None \<Rightarrow> (CLIENT_BUILD_COMMAND_ERR_FAIL, out, c)
      | Some (buffer, n) \<Rightarrow> (CLIENT_BUILD_COMMAND_ERR_OK, out\<lparr>co_payload := buffer, co_payload_len := n\<rparr>, c_ok))"

definition build_ready :: "command_out \<Rightarrow> client_ctx_t \<Rightarrow> build_result" where
  "build_ready out c =
     (if gs_status (cc_state c) \<noteq> GAME_LOBBY
      then (CLIENT_BUILD_COMMAND_ERR_INVALID_INPUT, out, qlogf (text_of ''cannot get ready when not in the lobby'') c)
      else (CLIENT_BUILD_COMMAND_ERR_OK, out\<lparr>co_msg_type := msg_code MSG_SET_READY\<rparr>, c))"

definition direction_of :: "u8 \<Rightarrow> u8" where
  "direction_of cmd =
     (if cmd = key CHR ''w'' then DIR_UP
      else if cmd = key CHR ''s'' then DIR_DOWN
      else if cmd = key CHR ''a'' then DIR_LEFT
      else DIR_RIGHT)"

definition build_move :: "u8 \<Rightarrow> timespec \<Rightarrow> command_out \<Rightarrow> client_ctx_t \<Rightarrow> build_result option" where
  "build_move cmd now out c =
     (if cc_player_id c = 0 \<or> unat (cc_player_id c) > MAX_PLAYERS then None
      else Some (
        let speed = unat (pl_speed (gs_players (cc_state c) ! (unat (cc_player_id c) - 1)));
            ts_min_interval = \<lparr>tv_sec = 0, tv_nsec = SECOND_NS div (if speed = 0 then 1 else int speed)\<rparr>
        in
        if gs_status (cc_state c) \<noteq> GAME_RUNNING
        then (CLIENT_BUILD_COMMAND_ERR_INVALID_INPUT, out, qlogf (text_of ''cannot move when game is not running'') c)
        else if speed = 0 then (CLIENT_BUILD_COMMAND_ERR_INVALID_INPUT, out, c)
        else if ts_cmp (ts_diff now (cc_ts_last_move c)) ts_min_interval < 0
        then (CLIENT_BUILD_COMMAND_ERR_INVALID_INPUT, out, c)
        else with_payload
          (proto_encode_move_attempt_payload \<lparr>move_direction = direction_of cmd\<rparr> (co_payload out))
          (out\<lparr>co_msg_type := msg_code MSG_MOVE_ATTEMPT\<rparr>) c (c\<lparr>cc_ts_last_move := now\<rparr>)))"

definition build_bomb :: "command_out \<Rightarrow> client_ctx_t \<Rightarrow> build_result" where
  "build_bomb out c =
     (if \<not> cc_has_welcome c then (CLIENT_BUILD_COMMAND_ERR_FAIL, out, c)
      else if gs_status (cc_state c) \<noteq> GAME_RUNNING
      then (CLIENT_BUILD_COMMAND_ERR_INVALID_INPUT, out, qlogf (text_of ''cannot place bombs when game is not running'') c)
      else case gs_find_player_slot_by_id (cc_state c) (cc_player_id c) of
        None \<Rightarrow> (CLIENT_BUILD_COMMAND_ERR_FAIL, out, c)
      | Some slot \<Rightarrow>
          let p = gs_players (cc_state c) ! slot;
              bomb = \<lparr>bomb_attempt_cell_index = make_cell_index (pl_row p) (pl_col p) (map_cols (gs_map (cc_state c)))\<rparr>
          in with_payload (proto_encode_bomb_attempt_payload bomb (co_payload out))
               (out\<lparr>co_msg_type := msg_code MSG_BOMB_ATTEMPT\<rparr>) c c)"

definition build_lobby :: "command_out \<Rightarrow> client_ctx_t \<Rightarrow> build_result" where
  "build_lobby out c =
     (if gs_status (cc_state c) = GAME_LOBBY
      then (CLIENT_BUILD_COMMAND_ERR_INVALID_INPUT, out, qlogf (text_of ''already in lobby'') c)
      else with_payload (proto_encode_set_status_payload \<lparr>set_status_status = 0\<rparr> (co_payload out))
             (out\<lparr>co_msg_type := msg_code MSG_SET_STATUS\<rparr>) c c)"

text \<open>What the output parameters hold after the first four assignments.\<close>

definition command_start :: "client_ctx_t \<Rightarrow> command_out \<Rightarrow> command_out" where
  "command_start c out = out\<lparr>
     co_sender_id := (if cc_has_welcome c then cc_player_id c else SERVER_ENDPOINT_ID),
     co_target_id := SERVER_ENDPOINT_ID, co_payload_len := 0, co_should_quit := False\<rparr>"

definition client_build_command :: "u8 \<Rightarrow> timespec \<Rightarrow> command_out \<Rightarrow> client_ctx_t \<Rightarrow> build_result option" where
  "client_build_command cmd now out c =
     (let out = command_start c out in
      if cmd = key CHR ''r'' then Some (build_ready out c)
      else if cmd = key CHR ''w'' \<or> cmd = key CHR ''a'' \<or> cmd = key CHR ''s'' \<or> cmd = key CHR ''d''
      then build_move cmd now out c
      else if cmd = key CHR ''b'' then Some (build_bomb out c)
      else if cmd = key CHR ''l'' then Some (build_lobby out c)
      else if cmd = key CHR ''p''
      then Some (CLIENT_BUILD_COMMAND_ERR_OK, out\<lparr>co_msg_type := msg_code MSG_PING\<rparr>, c)
      else if cmd = key CHR ''q''
      then Some (CLIENT_BUILD_COMMAND_ERR_NO_COMMAND, out\<lparr>co_should_quit := True\<rparr>, c)
      else if cmd = key CHR ''h''
      then Some (CLIENT_BUILD_COMMAND_ERR_NO_COMMAND, out, qlogf (text_of CONTROLS_STR) c)
      else Some (CLIENT_BUILD_COMMAND_ERR_INVALID_INPUT, out,
        qlogf (text_of ''invalid command: '' @ [39, cmd, 39]) c))"

section \<open>Elapsed time\<close>

definition ts_total :: "timespec \<Rightarrow> int" where
  "ts_total t = tv_sec t * SECOND_NS + tv_nsec t"

definition ts_normal :: "timespec \<Rightarrow> bool" where
  "ts_normal t \<longleftrightarrow> 0 \<le> tv_nsec t \<and> tv_nsec t < SECOND_NS"

lemma ts_norm_total: "ts_total (ts_norm ts) = ts_total ts"
  by (simp add: ts_total_def ts_norm_def Let_def algebra_simps)

lemma ts_norm_normal: "ts_normal (ts_norm ts) \<longleftrightarrow> \<not> (tv_nsec ts < 0 \<and> SECOND_NS dvd tv_nsec ts)"
proof (cases "tv_nsec ts < 0")
  case True
  let ?n = "- tv_nsec ts"
  have "tv_nsec (ts_norm ts) = SECOND_NS - ?n mod SECOND_NS"
    using True by (simp add: ts_norm_def Let_def minus_mod_eq_div_mult [symmetric] algebra_simps)
  moreover have "0 \<le> ?n mod SECOND_NS" "?n mod SECOND_NS < SECOND_NS" by simp_all
  moreover have "SECOND_NS dvd tv_nsec ts \<longleftrightarrow> ?n mod SECOND_NS = 0"
    by (simp add: mod_eq_0_iff_dvd)
  ultimately show ?thesis using True unfolding ts_normal_def by linarith
qed (simp add: ts_norm_def ts_normal_def)

lemma ts_diff_exact:
  assumes "ts_normal a" "ts_normal b"
  shows "ts_total (ts_diff a b) = ts_total a - ts_total b" "ts_normal (ts_diff a b)"
proof -
  show "ts_total (ts_diff a b) = ts_total a - ts_total b"
    unfolding ts_diff_def ts_norm_total by (simp add: ts_total_def algebra_simps)
  have "\<not> SECOND_NS dvd tv_nsec a - tv_nsec b" if "tv_nsec a - tv_nsec b < 0"
    using that assms zdvd_imp_le [of SECOND_NS "tv_nsec b - tv_nsec a"]
    by (auto simp: ts_normal_def dvd_diff_commute [of _ "tv_nsec a"])
  then show "ts_normal (ts_diff a b)" by (auto simp: ts_diff_def ts_norm_normal)
qed

text \<open>An interval of up to one second, as \<open>client_build_command\<close> makes it, need not be normalised.\<close>

lemma ts_cmp_interval:
  assumes "ts_normal t" "0 \<le> n" "n \<le> SECOND_NS"
  shows "ts_cmp t \<lparr>tv_sec = 0, tv_nsec = n\<rparr> < 0 \<longleftrightarrow> ts_total t < n"
  using assms by (auto simp: ts_cmp_def ts_total_def ts_normal_def)

definition move_interval :: "nat \<Rightarrow> int" where
  "move_interval speed = SECOND_NS div int speed"

lemma throttle:
  assumes "ts_normal now" "ts_normal before" "0 < speed"
  shows "ts_cmp (ts_diff now before) \<lparr>tv_sec = 0, tv_nsec = SECOND_NS div int speed\<rparr> < 0 \<longleftrightarrow>
    ts_total now - ts_total before < move_interval speed"
proof -
  have "0 \<le> SECOND_NS div int speed" "SECOND_NS div int speed \<le> SECOND_NS"
    using assms(3) zdiv_mono2 [of SECOND_NS 1 "int speed"] by (simp_all add: pos_imp_zdiv_nonneg_iff)
  then show ?thesis
    using ts_cmp_interval [OF ts_diff_exact(2) [OF assms(1,2)]] ts_diff_exact(1) [OF assms(1,2)]
    by (simp add: move_interval_def)
qed

end
