(* ===== verification/Socket_IO.thy ===== *)
theory Socket_IO
  imports Codec
begin

text \<open>
  \<open>common/src/socket_io.c\<close>: whole messages over a stream socket.

  What the operating system answers to \<open>poll\<close>, \<open>recv\<close> and \<open>send\<close> is an input: a list of answers,
  consumed one per call.  A receiving end also holds the bytes that the peer has sent and that are
  not read yet; a successful \<open>recv\<close> returns between one and the requested number of them, from the
  front, as many as the answer says.  A call that has not returned when the answers run out, or that
  waits for bytes when none are left, has the result \<open>None\<close>: it blocks.
\<close>

section \<open>The operating system\<close>

datatype poll_answer = Poll_Ready | Poll_Timeout | Poll_Interrupted | Poll_Failed

datatype recv_answer = Recv_Data nat | Recv_End | Recv_Interrupted | Recv_Again | Recv_Error

datatype send_answer = Send_Data nat | Send_Nothing | Send_Interrupted | Send_Error

record inbox =
  in_stream :: "u8 list"
  in_polls :: "poll_answer list"
  in_recvs :: "recv_answer list"

record outbox =
  out_stream :: "u8 list"
  out_sends :: "send_answer list"

datatype received_chunk = Chunk "u8 list" | Closed | Again | Broken

text \<open>\<open>EINTR\<close>, \<open>EAGAIN\<close> and \<open>EWOULDBLOCK\<close> are all \<open>Again\<close>: the code treats them alike.\<close>

definition os_recv :: "nat \<Rightarrow> inbox \<Rightarrow> (received_chunk \<times> inbox) option" where
  "os_recv want c =
     (case in_recvs c of
        [] \<Rightarrow> None
      | Recv_Data k # as \<Rightarrow>
          if in_stream c = [] then None
          else let n = min (max 1 k) want in
            Some (Chunk (take n (in_stream c)), c\<lparr>in_stream := drop n (in_stream c), in_recvs := as\<rparr>)
      | Recv_End # as \<Rightarrow> Some (Closed, c\<lparr>in_recvs := as\<rparr>)
      | Recv_Interrupted # as \<Rightarrow> Some (Again, c\<lparr>in_recvs := as\<rparr>)
      | Recv_Again # as \<Rightarrow> Some (Again, c\<lparr>in_recvs := as\<rparr>)
      | Recv_Error # as \<Rightarrow> Some (Broken, c\<lparr>in_recvs := as\<rparr>))"

section \<open>Receiving\<close>

fun poll_loop :: "poll_answer list \<Rightarrow> (int \<times> poll_answer list) option" where
  "poll_loop [] = None"
| "poll_loop (Poll_Ready # as) = Some (0, as)"
| "poll_loop (Poll_Timeout # as) = Some (2, as)"
| "poll_loop (Poll_Interrupted # as) = poll_loop as"
| "poll_loop (Poll_Failed # as) = Some (-1, as)"

definition wait_for_readable :: "int \<Rightarrow> inbox \<Rightarrow> (int \<times> inbox) option" where
  "wait_for_readable timeout_ms c =
     (if timeout_ms < 0 then Some (0, c)
      else map_option (\<lambda>(rv, as). (rv, c\<lparr>in_polls := as\<rparr>)) (poll_loop (in_polls c)))"

lemma wait_recvs: "wait_for_readable timeout_ms c = Some (rv, c') \<Longrightarrow> in_recvs c' = in_recvs c \<and> in_stream c' = in_stream c"
  by (auto simp: wait_for_readable_def split: if_splits)

lemma os_recv_recvs: "os_recv want c = Some (r, c') \<Longrightarrow> length (in_recvs c') < length (in_recvs c)"
  by (auto simp: os_recv_def Let_def split: list.splits recv_answer.splits if_splits)

text \<open>
  The loop of \<open>sock_recv_all\<close>.  \<open>buffer\<close> is the memory the caller provides, \<open>off\<close> the place in it
  where this call writes.
\<close>

function recv_loop :: "int \<Rightarrow> nat \<Rightarrow> nat \<Rightarrow> nat \<Rightarrow> u8 list \<Rightarrow> inbox \<Rightarrow> (int \<times> u8 list \<times> inbox) option" where
  "recv_loop timeout_ms off len got buffer c =
     (if \<not> got < len then Some (0, buffer, c)
      else case wait_for_readable timeout_ms c of
        None \<Rightarrow> None
      | Some (wait_status, c1) \<Rightarrow>
          if wait_status \<noteq> 0 then Some (wait_status, buffer, c1)
          else case os_recv (len - got) c1 of
            None \<Rightarrow> None
          | Some (Chunk bs, c2) \<Rightarrow> recv_loop timeout_ms off len (got + length bs) (blit (off + got) bs buffer) c2
          | Some (Closed, c2) \<Rightarrow> Some (1, buffer, c2)
          | Some (Again, c2) \<Rightarrow> recv_loop timeout_ms off len got buffer c2
          | Some (Broken, c2) \<Rightarrow> Some (-1, buffer, c2))"
  by pat_completeness auto
termination
  by (relation "measure (\<lambda>(_, _, _, _, _, c). length (in_recvs c))")
    (auto dest!: wait_recvs os_recv_recvs)

declare recv_loop.simps [simp del]

definition sock_recv_all :: "nat \<Rightarrow> nat \<Rightarrow> int \<Rightarrow> u8 list \<Rightarrow> inbox \<Rightarrow> (int \<times> u8 list \<times> inbox) option" where
  "sock_recv_all off len timeout_ms buffer c = recv_loop timeout_ms off len 0 buffer c"

definition sock_recv_header :: "msg_header_t \<Rightarrow> int \<Rightarrow> inbox \<Rightarrow> (int \<times> msg_header_t \<times> inbox) option" where
  "sock_recv_header header timeout_ms c =
     (case sock_recv_all 0 HEADER_SIZE timeout_ms (replicate HEADER_SIZE 0) c of
        None \<Rightarrow> None
      | Some (rc, header_buf, c) \<Rightarrow>
          if rc \<noteq> 0 then Some (rc, header, c)
          else case proto_read_header header header_buf of
            None \<Rightarrow> Some (-1, header, c)
          | Some header \<Rightarrow> Some (0, header, c))"

section \<open>Payloads\<close>

text \<open>\<open>read_u16_be\<close> of this file reads two bytes at a pointer.\<close>

definition sock_read_u16_be :: "u8 list \<Rightarrow> u16" where
  "sock_read_u16_be bytes = push_bit 8 (ucast (bytes ! 0)) OR ucast (bytes ! 1)"

text \<open>
  The end that all branches share: the remaining bytes, if there are any, go behind the first
  \<open>base_len\<close> ones.  The results are the code's \<open>int\<close>, the memory, \<open>*payload_len\<close> and the socket.
\<close>

definition recv_rest :: "nat \<Rightarrow> nat \<Rightarrow> int \<Rightarrow> u8 list \<Rightarrow> inbox \<Rightarrow> (int \<times> u8 list \<times> nat \<times> inbox) option" where
  "recv_rest base_len extra_len timeout_ms payload c =
     (if extra_len = 0 then Some (0, payload, base_len, c)
      else case sock_recv_all base_len extra_len timeout_ms payload c of
        None \<Rightarrow> None
      | Some (rc, payload, c) \<Rightarrow>
          if rc \<noteq> 0 then Some (-1, payload, 0, c) else Some (0, payload, base_len + extra_len, c))"

text \<open>
  The four branches for variable payloads read a base part, compute the length of the rest from it,
  refuse some lengths, and read the rest.
\<close>

definition recv_variable :: "nat \<Rightarrow> (u8 list \<Rightarrow> nat) \<Rightarrow> (u8 list \<Rightarrow> nat \<Rightarrow> bool) \<Rightarrow> u8 list \<Rightarrow> nat \<Rightarrow> int \<Rightarrow> inbox \<Rightarrow>
    (int \<times> u8 list \<times> nat \<times> inbox) option" where
  "recv_variable base_len extra_of refuse payload max_len timeout_ms c =
     (if base_len > max_len then Some (-1, payload, 0, c)
      else case sock_recv_all 0 base_len timeout_ms payload c of
        None \<Rightarrow> None
      | Some (rc, payload, c) \<Rightarrow>
          if rc \<noteq> 0 then Some (-1, payload, 0, c)
          else let extra_len = extra_of payload in
            if refuse payload extra_len \<or> base_len + extra_len > max_len then Some (-1, payload, 0, c)
            else recv_rest base_len extra_len timeout_ms payload c)"

definition sock_recv_payload_by_type :: "u8 \<Rightarrow> u8 list \<Rightarrow> nat \<Rightarrow> int \<Rightarrow> inbox \<Rightarrow> (int \<times> u8 list \<times> nat \<times> inbox) option" where
  "sock_recv_payload_by_type msg_type payload max_len timeout_ms c =
     (let fixed = msg_type_fixed_payload_size msg_type in
      if \<not> msg_type_variable_payload msg_type then
        if fixed = SIZE_MAX then Some (-1, payload, 0, c)
        else if fixed > max_len then Some (-1, payload, 0, c)
        else recv_rest 0 fixed timeout_ms payload c
      else if msg_type = msg_code MSG_WELCOME then
        recv_variable (MAX_ID_LEN + 1 + 1) (\<lambda>p. unat (p ! (MAX_ID_LEN + 1)) * (1 + 1 + MAX_NAME_LEN))
          (\<lambda>p extra_len. unat (p ! (MAX_ID_LEN + 1)) > MAX_PLAYERS) payload max_len timeout_ms c
      else if msg_type = msg_code MSG_MAP then
        recv_variable 2 (\<lambda>p. unat (p ! 0) * unat (p ! 1))
          (\<lambda>p cells_len. cells_len = 0 \<or> cells_len > MAX_MAP_CELLS) payload max_len timeout_ms c
      else if msg_type = msg_code MSG_ERROR then
        recv_variable 2 (\<lambda>p. unat (sock_read_u16_be p))
          (\<lambda>p text_len. text_len > MAX_ERROR_LEN) payload max_len timeout_ms c
      else if msg_type = msg_code MSG_SYNC_BOARD then
        recv_variable 2 (\<lambda>p. unat (p ! 1) * 12)
          (\<lambda>p extra_len. unat (p ! 1) > MAX_PLAYERS) payload max_len timeout_ms c
      else Some (-1, payload, 0, c))"

section \<open>Sending\<close>

fun send_loop :: "u8 list \<Rightarrow> u8 list \<Rightarrow> send_answer list \<Rightarrow> (int \<times> u8 list \<times> send_answer list) option" where
  "send_loop [] out as = Some (0, out, as)"
| "send_loop (b # bs) out [] = None"
| "send_loop (b # bs) out (Send_Data k # as) =
     (let n = min (max 1 k) (length (b # bs)) in send_loop (drop n (b # bs)) (out @ take n (b # bs)) as)"
| "send_loop (b # bs) out (Send_Interrupted # as) = send_loop (b # bs) out as"
| "send_loop (b # bs) out (Send_Nothing # as) = Some (-1, out, as)"
| "send_loop (b # bs) out (Send_Error # as) = Some (-1, out, as)"

definition sock_send_all :: "u8 list \<Rightarrow> outbox \<Rightarrow> (int \<times> outbox) option" where
  "sock_send_all buffer ob =
     map_option (\<lambda>(rv, out, as). (rv, ob\<lparr>out_stream := out, out_sends := as\<rparr>))
       (send_loop buffer (out_stream ob) (out_sends ob))"

definition sock_send_message :: "u8 \<Rightarrow> u8 \<Rightarrow> u8 \<Rightarrow> u8 list \<Rightarrow> outbox \<Rightarrow> (int \<times> outbox) option" where
  "sock_send_message msg_type sender_id target_id payload ob =
     (case proto_write_header \<lparr>h_msg_type = msg_type, h_sender_id = sender_id, h_target_id = target_id\<rparr>
             (replicate HEADER_SIZE 0) of
        None \<Rightarrow> Some (-1, ob)
      | Some header_buf \<Rightarrow>
          (case sock_send_all header_buf ob of
             None \<Rightarrow> None
           | Some (rv, ob) \<Rightarrow>
               if rv \<noteq> 0 then Some (-1, ob)
               else if payload = [] then Some (0, ob)
               else case sock_send_all payload ob of
                 None \<Rightarrow> None
               | Some (rv, ob) \<Rightarrow> Some (if rv \<noteq> 0 then -1 else 0, ob)))"

end
