(* ===== verification/Socket_Spec.thy ===== *)
theory Socket_Spec
  imports Socket_IO
begin

text \<open>
  What the stream routines of \<open>socket_io.c\<close> guarantee: the bytes that come out are the bytes that
  went in, in order and without gaps, however the operating system cuts, delays or interrupts the
  calls; and a message whose payload has the length its type demands is received whole.
\<close>

section \<open>Receiving a fixed number of bytes\<close>

lemma blit_blit:
  assumes "off + length xs + length ys \<le> length buffer"
  shows "blit (off + length xs) ys (blit off xs buffer) = blit off (xs @ ys) buffer"
  using assms by (simp add: blit_def add.assoc min_absorb2 drop_drop add.commute [of "length ys"])

lemma blit_Nil [simp]: "blit off [] buffer = buffer"
  by (simp add: blit_def)

lemma os_recv_chunk:
  assumes "os_recv want c = Some (Chunk bs, c')" "0 < want"
  shows "\<exists>n. 1 \<le> n \<and> n \<le> want \<and> bs = take n (in_stream c) \<and> in_stream c' = drop n (in_stream c)"
proof -
  obtain k where "bs = take (min (max 1 k) want) (in_stream c)" "in_stream c' = drop (min (max 1 k) want) (in_stream c)"
    using assms(1) by (auto simp: os_recv_def Let_def split: list.splits recv_answer.splits if_splits)
  then show ?thesis using assms(2) by (intro exI [of _ "min (max 1 k) want"]) simp
qed

lemma os_recv_other:
  assumes "os_recv want c = Some (r, c')" "\<forall>bs. r \<noteq> Chunk bs"
  shows "in_stream c' = in_stream c"
  using assms by (auto simp: os_recv_def Let_def split: list.splits recv_answer.splits if_splits)

text \<open>A chunk of \<open>n\<close> bytes followed by \<open>m\<close> more is one longer chunk.\<close>

lemma chunk_join:
  assumes "bs = take n s" and "m \<le> length (drop n s)" and "off + length bs + m \<le> length buffer"
  shows "blit (off + length bs) (take m (drop n s)) (blit off bs buffer) = blit off (take (length bs + m) s) buffer"
    "drop m (drop n s) = drop (length bs + m) s" "length bs + m \<le> length s"
proof -
  have dr: "drop n s = drop (length bs) s" "bs = take (length bs) s"
    using assms(1) by (cases "n \<le> length s"; simp)+
  have "take (length bs + m) s = bs @ take m (drop n s)"
    unfolding dr(1) by (subst take_add) (use dr(2) in simp)
  then show "blit (off + length bs) (take m (drop n s)) (blit off bs buffer) = blit off (take (length bs + m) s) buffer"
    using assms(2,3) blit_blit [of off bs "take m (drop n s)" buffer] by simp
  show "drop m (drop n s) = drop (length bs + m) s" unfolding dr(1) by (simp add: add.commute)
  show "length bs + m \<le> length s" using assms(2) unfolding dr(1) using assms(1) by simp
qed

lemma wait_status_values:
  assumes "wait_for_readable timeout_ms c = Some (w, c')"
  shows "w \<in> {0, 2, -1}"
proof -
  have "poll_loop as = Some (rv, bs) \<Longrightarrow> rv \<in> {0, 2, -1}" for as rv bs
    by (induction as rule: poll_loop.induct) auto
  then show ?thesis using assms by (auto simp: wait_for_readable_def split: if_splits)
qed

text \<open>Whatever the call returns, what it took from the stream is what it wrote, in order.\<close>

lemma recv_loop_safe:
  assumes "recv_loop timeout_ms off len got buffer c = Some (rc, buffer', c')"
    and "got \<le> len" "off + len \<le> length buffer"
  shows "\<exists>n. got + n \<le> len \<and> n \<le> length (in_stream c) \<and> in_stream c' = drop n (in_stream c) \<and>
    buffer' = blit (off + got) (take n (in_stream c)) buffer \<and>
    rc \<in> {0, 1, 2, -1} \<and> (rc = 0 \<longleftrightarrow> got + n = len)"
  using assms
proof (induction timeout_ms off len got buffer c rule: recv_loop.induct)
  case (1 timeout_ms off len got buffer c)
  note unfold = recv_loop.simps [of timeout_ms off len got buffer c]
  show ?case
  proof (cases "got < len")
    case False
    then have "recv_loop timeout_ms off len got buffer c = Some (0, buffer, c)" by (simp add: unfold)
    then show ?thesis using 1(3,4) False by (intro exI [of _ 0]) simp
  next
    case less: True
    then obtain w c1 where w: "wait_for_readable timeout_ms c = Some (w, c1)"
      using 1(3) by (auto simp: unfold split: option.splits)
    note same = wait_recvs [OF w]
    show ?thesis
    proof (cases "w = 0")
      case False
      then have "w \<in> {2, -1}" using wait_status_values [OF w] by simp
      then show ?thesis using 1(3) less w False same by (intro exI [of _ 0]) (auto simp: unfold)
    next
      case ready: True
      then obtain r c2 where r: "os_recv (len - got) c1 = Some (r, c2)"
        using 1(3) less w by (auto simp: unfold split: option.splits)
      show ?thesis
      proof (cases r)
        case (Chunk bs)
        obtain n where n: "1 \<le> n" "n \<le> len - got" "bs = take n (in_stream c)" "in_stream c2 = drop n (in_stream c)"
          using os_recv_chunk [OF r [unfolded Chunk]] less same by auto
        have run: "recv_loop timeout_ms off len (got + length bs) (blit (off + got) bs buffer) c2 = Some (rc, buffer', c')"
          using 1(3) less w ready r Chunk by (simp add: unfold)
        have bs: "length bs \<le> len - got" using n by simp
        then have len: "got + length bs \<le> len" "off + len \<le> length (blit (off + got) bs buffer)"
          using less 1(5) by simp_all
        obtain m where m: "got + length bs + m \<le> len" "m \<le> length (in_stream c2)" "in_stream c' = drop m (in_stream c2)"
          "buffer' = blit (off + (got + length bs)) (take m (in_stream c2)) (blit (off + got) bs buffer)"
          "rc \<in> {0, 1, 2, -1}" "rc = 0 \<longleftrightarrow> got + length bs + m = len"
          using 1(1) [OF _ w refl _ r refl Chunk run len] less ready by auto
        have "off + got + length bs + m \<le> length buffer" using m(1) 1(5) by simp
        note join = chunk_join [OF n(3) m(2) [unfolded n(4)] this]
        have "buffer' = blit (off + got) (take (length bs + m) (in_stream c)) buffer"
          using join(1) m(4) by (simp add: n(4) add.assoc)
        then show ?thesis
          using join(2,3) m(1,3,5,6) by (intro exI [of _ "length bs + m"]) (simp add: n(4) add.assoc)
      next
        case Closed
        then show ?thesis
          using 1(3) less w ready r os_recv_other [OF r] same by (intro exI [of _ 0]) (auto simp: unfold)
      next
        case Again
        have run: "recv_loop timeout_ms off len got buffer c2 = Some (rc, buffer', c')"
          using 1(3) less w ready r Again by (simp add: unfold)
        show ?thesis
          using 1(2) [OF _ w refl _ r refl Again run 1(4,5)] less ready os_recv_other [OF r] Again same by auto
      next
        case Broken
        then show ?thesis
          using 1(3) less w ready r os_recv_other [OF r] same by (intro exI [of _ 0]) (auto simp: unfold)
      qed
    qed
  qed
qed

lemma recv_all_safe:
  assumes "sock_recv_all off len timeout_ms buffer c = Some (rc, buffer', c')" "off + len \<le> length buffer"
  shows "\<exists>n \<le> len. n \<le> length (in_stream c) \<and> in_stream c' = drop n (in_stream c) \<and>
    buffer' = blit off (take n (in_stream c)) buffer \<and> rc \<in> {0, 1, 2, -1} \<and> (rc = 0 \<longleftrightarrow> n = len)"
  using recv_loop_safe [OF assms(1) [unfolded sock_recv_all_def] _ assms(2)] by auto


section \<open>It returns\<close>

text \<open>
  Answers that bring the bytes: no end of the stream, no error, no timeout, at least \<open>need\<close> calls to
  \<open>recv\<close> that deliver something, and a \<open>poll\<close> that reports readiness for each of them.  Interruptions
  and spurious wake-ups may come in between, as many as they like.
\<close>

definition delivers :: "recv_answer \<Rightarrow> bool" where
  "delivers a \<longleftrightarrow> (case a of Recv_Data k \<Rightarrow> True | _ \<Rightarrow> False)"

definition steady :: "int \<Rightarrow> nat \<Rightarrow> inbox \<Rightarrow> bool" where
  "steady timeout_ms need c \<longleftrightarrow>
     Recv_End \<notin> set (in_recvs c) \<and> Recv_Error \<notin> set (in_recvs c) \<and>
     need \<le> length (filter delivers (in_recvs c)) \<and>
     (timeout_ms \<ge> 0 \<longrightarrow> Poll_Timeout \<notin> set (in_polls c) \<and> Poll_Failed \<notin> set (in_polls c) \<and>
        length (in_recvs c) \<le> length (filter (\<lambda>a. a = Poll_Ready) (in_polls c)))"

lemma poll_loop_ready:
  assumes "Poll_Timeout \<notin> set as" "Poll_Failed \<notin> set as" "0 < length (filter (\<lambda>a. a = Poll_Ready) as)"
  shows "\<exists>bs. poll_loop as = Some (0, bs) \<and> set bs \<subseteq> set as \<and>
    Suc (length (filter (\<lambda>a. a = Poll_Ready) bs)) = length (filter (\<lambda>a. a = Poll_Ready) as)"
  using assms by (induction as rule: poll_loop.induct) auto

lemma steady_wait:
  assumes "steady timeout_ms need c" "in_recvs c \<noteq> []"
  shows "\<exists>c1. wait_for_readable timeout_ms c = Some (0, c1) \<and> in_stream c1 = in_stream c \<and> in_recvs c1 = in_recvs c \<and>
    (timeout_ms \<ge> 0 \<longrightarrow> Poll_Timeout \<notin> set (in_polls c1) \<and> Poll_Failed \<notin> set (in_polls c1) \<and>
       length (in_recvs c) \<le> Suc (length (filter (\<lambda>a. a = Poll_Ready) (in_polls c1))))"
proof (cases "timeout_ms < 0")
  case True
  then show ?thesis by (simp add: wait_for_readable_def)
next
  case False
  then have p: "Poll_Timeout \<notin> set (in_polls c)" "Poll_Failed \<notin> set (in_polls c)"
    "length (in_recvs c) \<le> length (filter (\<lambda>a. a = Poll_Ready) (in_polls c))"
    using assms(1) by (simp_all add: steady_def)
  then have "0 < length (filter (\<lambda>a. a = Poll_Ready) (in_polls c))"
    using assms(2) by (metis length_greater_0_conv less_le_trans)
  then obtain as where "poll_loop (in_polls c) = Some (0, as)" "set as \<subseteq> set (in_polls c)"
    "Suc (length (filter (\<lambda>a. a = Poll_Ready) as)) = length (filter (\<lambda>a. a = Poll_Ready) (in_polls c))"
    using poll_loop_ready [OF p(1,2)] by blast
  then show ?thesis using False p by (auto simp: wait_for_readable_def)
qed

lemma recv_loop_live:
  assumes "steady timeout_ms (len - got + extra) c" "len - got \<le> length (in_stream c)" "got \<le> len"
    and "off + len \<le> length buffer"
  shows "\<exists>c'. recv_loop timeout_ms off len got buffer c =
      Some (0, blit (off + got) (take (len - got) (in_stream c)) buffer, c') \<and>
    in_stream c' = drop (len - got) (in_stream c) \<and> steady timeout_ms extra c'"
  using assms
proof (induction timeout_ms off len got buffer c rule: recv_loop.induct)
  case (1 timeout_ms off len got buffer c)
  note unfold = recv_loop.simps [of timeout_ms off len got buffer c]
  show ?case
  proof (cases "got < len")
    case False
    then show ?thesis using 1(3) by (simp add: unfold)
  next
    case less: True
    then obtain a as where a: "in_recvs c = a # as" using 1(3) by (cases "in_recvs c") (auto simp: steady_def)
    obtain c1 where w: "wait_for_readable timeout_ms c = Some (0, c1)" "in_stream c1 = in_stream c" "in_recvs c1 = a # as"
      "timeout_ms \<ge> 0 \<longrightarrow> Poll_Timeout \<notin> set (in_polls c1) \<and> Poll_Failed \<notin> set (in_polls c1) \<and>
         length as \<le> length (filter (\<lambda>a. a = Poll_Ready) (in_polls c1))"
      using steady_wait [OF 1(3)] a by auto
    show ?thesis
    proof (cases "delivers a")
      case False
      then have r: "os_recv (len - got) c1 = Some (Again, c1\<lparr>in_recvs := as\<rparr>)"
        using 1(3) a w(3) by (cases a) (auto simp: os_recv_def steady_def delivers_def)
      have "steady timeout_ms (len - got + extra) (c1\<lparr>in_recvs := as\<rparr>)"
        using 1(3) a w(4) False by (simp add: steady_def)
      then show ?thesis
        using 1(2) [OF _ w(1) refl _ r refl refl] 1(4,5,6) less w(1,2) r by (simp add: unfold)
    next
      case True
      then obtain k where k: "a = Recv_Data k" by (cases a) (auto simp: delivers_def)
      define n where "n = min (max 1 k) (len - got)"
      have n: "1 \<le> n" "n \<le> len - got" using less by (simp_all add: n_def)
      let ?bs = "take n (in_stream c)" and ?c2 = "c1\<lparr>in_stream := drop n (in_stream c), in_recvs := as\<rparr>"
      have r: "os_recv (len - got) c1 = Some (Chunk ?bs, ?c2)"
        using 1(4) less w(2,3) k by (auto simp: os_recv_def Let_def n_def)
      have lb: "length ?bs = n" using n 1(4) by simp
      have "steady timeout_ms (len - (got + length ?bs) + extra) ?c2"
        using 1(3) a w(4) True n less unfolding lb by (auto simp: steady_def)
      moreover have "len - (got + length ?bs) \<le> length (in_stream ?c2)" "got + length ?bs \<le> len"
        "off + len \<le> length (blit (off + got) ?bs buffer)"
        using 1(4-6) n unfolding lb by simp_all
      ultimately obtain c' where run: "recv_loop timeout_ms off len (got + length ?bs) (blit (off + got) ?bs buffer) ?c2 =
          Some (0, blit (off + (got + length ?bs)) (take (len - (got + length ?bs)) (in_stream ?c2))
            (blit (off + got) ?bs buffer), c')"
        "in_stream c' = drop (len - (got + length ?bs)) (in_stream ?c2)" "steady timeout_ms extra c'"
        using 1(1) [OF _ w(1) refl _ r refl refl] less by auto
      have "off + got + length ?bs + (len - (got + n)) \<le> length buffer" using 1(6) n lb by simp
      note join = chunk_join [OF refl _ this]
      have "len - (got + n) \<le> length (drop n (in_stream c))" using 1(4) n by simp
      note join = join [OF this]
      have "n + (len - (got + n)) = len - got" using n by simp
      then show ?thesis
        using run join less w(1) r unfolding lb by (simp add: unfold add.assoc lb)
    qed
  qed
qed

lemma recv_all_live:
  assumes "steady timeout_ms (len + extra) c" "len \<le> length (in_stream c)" "off + len \<le> length buffer"
  shows "\<exists>c'. sock_recv_all off len timeout_ms buffer c = Some (0, blit off (take len (in_stream c)) buffer, c') \<and>
    in_stream c' = drop len (in_stream c) \<and> steady timeout_ms extra c'"
  using recv_loop_live [of timeout_ms len 0 extra c off buffer] assms by (simp add: sock_recv_all_def)

end
