(* ===== verification/Frames.thy ===== *)
theory Frames
  imports Socket_Spec
begin

text \<open>
  Framing: the length of a payload is known from its type and, for the four variable types, from its
  first bytes.  \<open>sock_recv_payload_by_type\<close> takes exactly that many bytes from the stream, and every
  message the program encodes has that length, so a stream of messages never gets out of step.
\<close>

section \<open>The length a payload announces\<close>

definition announced :: "u8 \<Rightarrow> u8 list \<Rightarrow> nat option" where
  "announced t p = (case msg_type_of t of
     Some MSG_WELCOME \<Rightarrow>
       if MAX_ID_LEN + 2 \<le> length p \<and> unat (p ! (MAX_ID_LEN + 1)) \<le> MAX_PLAYERS
       then Some (MAX_ID_LEN + 2 + unat (p ! (MAX_ID_LEN + 1)) * (MAX_NAME_LEN + 2)) else None
   | Some MSG_MAP \<Rightarrow>
       if 2 \<le> length p \<and> p ! 0 \<noteq> 0 \<and> p ! 1 \<noteq> 0 then Some (2 + unat (p ! 0) * unat (p ! 1)) else None
   | Some MSG_ERROR \<Rightarrow>
       if 2 \<le> length p \<and> unat (sock_read_u16_be p) \<le> MAX_ERROR_LEN
       then Some (2 + unat (sock_read_u16_be p)) else None
   | Some MSG_SYNC_BOARD \<Rightarrow>
       if 2 \<le> length p \<and> unat (p ! 1) \<le> MAX_PLAYERS then Some (2 + unat (p ! 1) * 12) else None
   | Some _ \<Rightarrow> Some (msg_type_fixed_payload_size t)
   | None \<Rightarrow> None)"

definition well_framed :: "u8 \<Rightarrow> u8 list \<Rightarrow> bool" where
  "well_framed t p \<longleftrightarrow> announced t p = Some (length p)"

lemma nth_of_take: "take n p = take n q \<Longrightarrow> i < n \<Longrightarrow> p ! i = q ! i"
  by (metis nth_take)

lemma read_u16_of_take: "take 2 p = take 2 q \<Longrightarrow> sock_read_u16_be p = sock_read_u16_be q"
  using nth_of_take [of 2 p q 0] nth_of_take [of 2 p q 1] by (simp add: sock_read_u16_be_def)

lemma bytes_of_take: "take 2 p = take 2 q \<Longrightarrow> p ! 0 = q ! 0 \<and> p ! 1 = q ! 1"
  using nth_of_take [of 2 p q 0] nth_of_take [of 2 p q 1] by simp

lemma announced_append: "announced t p = Some k \<Longrightarrow> announced t (p @ r) = Some k"
proof -
  assume ann: "announced t p = Some k"
  have at: "2 \<le> length p \<Longrightarrow> (p @ r) ! 0 = p ! 0 \<and> (p @ r) ! 1 = p ! 1" "22 \<le> length p \<Longrightarrow> (p @ r) ! 21 = p ! 21"
    by (auto simp: nth_append)
  have u16: "2 \<le> length p \<Longrightarrow> sock_read_u16_be (p @ r) = sock_read_u16_be p"
    by (rule read_u16_of_take) simp
  obtain m where m: "msg_type_of t = Some m" using ann by (auto simp: announced_def split: option.splits)
  show ?thesis
    using ann at u16
    by (cases m) (simp_all add: announced_def m split: if_splits)
qed

lemma well_framed_unique:
  assumes "well_framed t p" "well_framed t q" "p @ r = q @ r'"
  shows "p = q"
proof -
  have "announced t (p @ r) = Some (length p)" "announced t (q @ r') = Some (length q)"
    using assms(1,2) announced_append unfolding well_framed_def by blast+
  then show ?thesis using assms(3) by (auto simp: append_eq_append_conv)
qed

section \<open>The shared end\<close>

lemma recv_rest_safe:
  assumes "recv_rest base extra_len timeout_ms buf c = Some (0, buf', n, c')" "base + extra_len \<le> length buf"
  shows "n = base + extra_len \<and> extra_len \<le> length (in_stream c) \<and> in_stream c' = drop extra_len (in_stream c) \<and>
    buf' = blit base (take extra_len (in_stream c)) buf"
proof (cases "extra_len = 0")
  case True
  then show ?thesis using assms(1) by (simp add: recv_rest_def)
next
  case False
  then have "sock_recv_all base extra_len timeout_ms buf c = Some (0, buf', c')" "n = base + extra_len"
    using assms(1) by (auto simp: recv_rest_def split: option.splits if_splits)
  then show ?thesis using recv_all_safe [OF _ assms(2)] by fastforce
qed

lemma recv_rest_live:
  assumes "steady timeout_ms (extra_len + extra) c" "extra_len \<le> length (in_stream c)" "base + extra_len \<le> length buf"
  shows "\<exists>c'. recv_rest base extra_len timeout_ms buf c =
      Some (0, blit base (take extra_len (in_stream c)) buf, base + extra_len, c') \<and>
    in_stream c' = drop extra_len (in_stream c) \<and> steady timeout_ms extra c'"
proof (cases "extra_len = 0")
  case True
  then show ?thesis using assms(1) by (simp add: recv_rest_def)
next
  case False
  then show ?thesis using recv_all_live [OF assms] by (auto simp: recv_rest_def)
qed

section \<open>The contract of a variable payload\<close>

text \<open>
  The base part alone decides how long the rest is and whether the message is refused.
\<close>

locale variable_frame =
  fixes base :: nat and extra_of :: "u8 list \<Rightarrow> nat" and refuse :: "u8 list \<Rightarrow> nat \<Rightarrow> bool"
  assumes extra_local: "base \<le> length p \<Longrightarrow> base \<le> length q \<Longrightarrow> take base p = take base q \<Longrightarrow> extra_of p = extra_of q"
    and refuse_local: "base \<le> length p \<Longrightarrow> base \<le> length q \<Longrightarrow> take base p = take base q \<Longrightarrow>
      refuse p (extra_of p) = refuse q (extra_of q)"
begin

lemma base_read:
  assumes "base \<le> length s" "base \<le> length buf"
  shows "extra_of (blit 0 (take base s) buf) = extra_of s"
    "refuse (blit 0 (take base s) buf) (extra_of s) = refuse s (extra_of s)"
proof -
  have "base \<le> length (blit 0 (take base s) buf)" "take base (blit 0 (take base s) buf) = take base s"
    using assms by (simp_all add: blit_def)
  then show "extra_of (blit 0 (take base s) buf) = extra_of s"
    "refuse (blit 0 (take base s) buf) (extra_of s) = refuse s (extra_of s)"
    using extra_local [OF _ assms(1)] refuse_local [OF _ assms(1)] by metis+
qed

lemma variable_safe:
  assumes run: "recv_variable base extra_of refuse buf max_len timeout_ms c = Some (0, buf', n, c')"
    and "max_len \<le> length buf"
  shows "n = base + extra_of (in_stream c) \<and> \<not> refuse (in_stream c) (extra_of (in_stream c)) \<and> n \<le> max_len \<and>
    n \<le> length (in_stream c) \<and> in_stream c' = drop n (in_stream c) \<and> take n buf' = take n (in_stream c)"
proof -
  let ?s = "in_stream c"
  have max: "base \<le> max_len" using run by (auto simp: recv_variable_def split: if_splits)
  then obtain rc b1 c1 where one: "sock_recv_all 0 base timeout_ms buf c = Some (rc, b1, c1)"
    using run by (auto simp: recv_variable_def split: option.splits)
  with run max have rc: "rc = 0" by (auto simp: recv_variable_def split: if_splits)
  have "base \<le> length buf" using max assms(2) by simp
  then obtain m where m: "m = base" "base \<le> length ?s" "in_stream c1 = drop base ?s" "b1 = blit 0 (take base ?s) buf"
    using recv_all_safe [OF one] rc by auto
  note read = base_read [OF m(2) \<open>base \<le> length buf\<close>, folded m(4)]
  have two: "recv_rest base (extra_of ?s) timeout_ms b1 c1 = Some (0, buf', n, c')"
    "\<not> refuse ?s (extra_of ?s)" "base + extra_of ?s \<le> max_len"
    using run max one rc read by (auto simp: recv_variable_def Let_def split: if_splits)
  have "base + extra_of ?s \<le> length b1" using two(3) assms(2) m(2,4) \<open>base \<le> length buf\<close> by simp
  note rest = recv_rest_safe [OF two(1) this]
  have "take n buf' = take base ?s @ take (extra_of ?s) (drop base ?s)"
    using rest m(2-4) \<open>base \<le> length buf\<close> by (simp add: blit_def min_absorb2)
  then have "take n buf' = take n ?s" using rest by (simp add: take_add)
  then show ?thesis using rest m(2,3) two by (simp add: add.commute le_diff_conv2)
qed

lemma variable_live:
  fixes c :: inbox
  defines "n \<equiv> base + extra_of (in_stream c)"
  assumes "steady timeout_ms (n + extra) c" "n \<le> length (in_stream c)" "n \<le> max_len" "max_len \<le> length buf"
    and "\<not> refuse (in_stream c) (extra_of (in_stream c))"
  shows "\<exists>buf' c'. recv_variable base extra_of refuse buf max_len timeout_ms c = Some (0, buf', n, c') \<and>
    take n buf' = take n (in_stream c) \<and> in_stream c' = drop n (in_stream c) \<and> steady timeout_ms extra c'"
proof -
  let ?s = "in_stream c"
  have len: "base \<le> length ?s" "base \<le> length buf" "base \<le> max_len" using assms(3-5) by (simp_all add: n_def)
  have "steady timeout_ms (base + (extra_of ?s + extra)) c" using assms(2) by (simp add: n_def add.assoc)
  from recv_all_live [OF this len(1), of 0 buf] len(2)
  obtain c1 where one: "sock_recv_all 0 base timeout_ms buf c = Some (0, blit 0 (take base ?s) buf, c1)"
    "in_stream c1 = drop base ?s" "steady timeout_ms (extra_of ?s + extra) c1" by auto
  let ?b1 = "blit 0 (take base ?s) buf"
  have "extra_of ?s \<le> length (in_stream c1)" "base + extra_of ?s \<le> length ?b1"
    using assms(3-5) one(2) len by (simp_all add: n_def)
  from recv_rest_live [OF one(3) this]
  obtain c2 where two: "recv_rest base (extra_of ?s) timeout_ms ?b1 c1 =
      Some (0, blit base (take (extra_of ?s) (in_stream c1)) ?b1, n, c2)"
    "in_stream c2 = drop (extra_of ?s) (in_stream c1)" "steady timeout_ms extra c2" unfolding n_def by blast
  have run: "recv_variable base extra_of refuse buf max_len timeout_ms c =
      Some (0, blit base (take (extra_of ?s) (in_stream c1)) ?b1, n, c2)"
    using len(3) one(1) two(1) base_read [OF len(1,2)] assms(4,6)
    by (simp add: recv_variable_def Let_def n_def not_le)
  have "take n (blit base (take (extra_of ?s) (in_stream c1)) ?b1) = take base ?s @ take (extra_of ?s) (drop base ?s)"
    using len assms(3) one(2) by (simp add: blit_def n_def min_absorb2)
  then have "take n (blit base (take (extra_of ?s) (in_stream c1)) ?b1) = take n ?s"
    by (simp add: n_def take_add)
  then show ?thesis using run two(2,3) one(2) by (simp add: n_def add.commute)
qed

end


interpretation welcome_frame: variable_frame "MAX_ID_LEN + 1 + 1" "\<lambda>p. unat (p ! (MAX_ID_LEN + 1)) * (1 + 1 + MAX_NAME_LEN)"
  "\<lambda>p extra_len. unat (p ! (MAX_ID_LEN + 1)) > MAX_PLAYERS"
  by unfold_locales (auto dest: nth_of_take [where i = 21])

interpretation map_frame: variable_frame 2 "\<lambda>p. unat (p ! 0) * unat (p ! 1)"
  "\<lambda>p cells_len. cells_len = 0 \<or> cells_len > MAX_MAP_CELLS"
  by unfold_locales (use bytes_of_take in metis)+

interpretation error_frame: variable_frame 2 "\<lambda>p. unat (sock_read_u16_be p)" "\<lambda>p text_len. text_len > MAX_ERROR_LEN"
  by unfold_locales (use read_u16_of_take in metis)+

interpretation sync_frame: variable_frame 2 "\<lambda>p. unat (p ! 1) * 12" "\<lambda>p extra_len. unat (p ! 1) > MAX_PLAYERS"
  by unfold_locales (use bytes_of_take in metis)+

section \<open>Any payload\<close>

lemma map_cells_bound: "unat (a :: u8) * unat (b :: u8) \<le> MAX_MAP_CELLS"
  using mult_le_mono [of "unat a" 255 "unat b" 255] by simp

lemma product_zero: "unat (a :: u8) * unat (b :: u8) = 0 \<longleftrightarrow> a = 0 \<or> b = 0"
  by (simp add: unat_eq_zero)

lemma payload_branches:
  "sock_recv_payload_by_type (msg_code MSG_WELCOME) = recv_variable (MAX_ID_LEN + 1 + 1)
     (\<lambda>p. unat (p ! (MAX_ID_LEN + 1)) * (1 + 1 + MAX_NAME_LEN)) (\<lambda>p extra_len. unat (p ! (MAX_ID_LEN + 1)) > MAX_PLAYERS)"
  "sock_recv_payload_by_type (msg_code MSG_MAP) = recv_variable 2 (\<lambda>p. unat (p ! 0) * unat (p ! 1))
     (\<lambda>p cells_len. cells_len = 0 \<or> cells_len > MAX_MAP_CELLS)"
  "sock_recv_payload_by_type (msg_code MSG_ERROR) = recv_variable 2 (\<lambda>p. unat (sock_read_u16_be p))
     (\<lambda>p text_len. text_len > MAX_ERROR_LEN)"
  "sock_recv_payload_by_type (msg_code MSG_SYNC_BOARD) = recv_variable 2 (\<lambda>p. unat (p ! 1) * 12)
     (\<lambda>p extra_len. unat (p ! 1) > MAX_PLAYERS)"
  by (intro ext, simp only: sock_recv_payload_by_type_def Let_def variable_payload_code msg_code_inj, simp)+

lemma recv_payload_safe:
  assumes run: "sock_recv_payload_by_type t buf max_len timeout_ms c = Some (0, buf', n, c')" and "max_len \<le> length buf"
  shows "well_framed t (take n (in_stream c)) \<and> n \<le> length (in_stream c) \<and> n \<le> max_len \<and>
    in_stream c' = drop n (in_stream c) \<and> take n buf' = take n (in_stream c)"
proof -
  let ?fixed = "msg_type_fixed_payload_size t"
  show ?thesis
  proof (cases "msg_type_variable_payload t")
    case False
    then have r: "?fixed \<noteq> SIZE_MAX" "?fixed \<le> max_len" "recv_rest 0 ?fixed timeout_ms buf c = Some (0, buf', n, c')"
      using run by (auto simp: sock_recv_payload_by_type_def Let_def split: if_splits)
    have "0 + ?fixed \<le> length buf" using r(2) assms(2) by simp
    note s = recv_rest_safe [OF r(3) this]
    have "announced t q = Some ?fixed" for q
      using False r(1) by (auto simp: announced_def msg_type_variable_payload_def msg_type_fixed_payload_size_def
          split: option.splits msg_type_t.splits)
    then show ?thesis using s r(2) assms(2) by (auto simp: well_framed_def blit_def min_absorb2)
  next
    case True
    then consider (w) "msg_type_of t = Some MSG_WELCOME" | (m) "msg_type_of t = Some MSG_MAP"
      | (e) "msg_type_of t = Some MSG_ERROR" | (s) "msg_type_of t = Some MSG_SYNC_BOARD"
      by (auto simp: msg_type_variable_payload_def split: option.splits msg_type_t.splits)
    then show ?thesis
    proof cases
      case w
      note s = welcome_frame.variable_safe [OF run [unfolded msg_type_of_SomeD [OF w] payload_branches] assms(2)]
      then show ?thesis by (auto simp: well_framed_def announced_def w add.commute)
    next
      case m
      note s = map_frame.variable_safe [OF run [unfolded msg_type_of_SomeD [OF m] payload_branches] assms(2)]
      then show ?thesis by (auto simp: well_framed_def announced_def m)
    next
      case e
      note s = error_frame.variable_safe [OF run [unfolded msg_type_of_SomeD [OF e] payload_branches] assms(2)]
      then have "sock_read_u16_be (take n (in_stream c)) = sock_read_u16_be (in_stream c)"
        by (intro read_u16_of_take) (simp add: numeral_2_eq_2)
      then show ?thesis using s by (auto simp: well_framed_def announced_def e)
    next
      case s
      note s = s sync_frame.variable_safe [OF run [unfolded msg_type_of_SomeD [OF s] payload_branches] assms(2)]
      then show ?thesis by (auto simp: well_framed_def announced_def)
    qed
  qed
qed

lemma recv_payload_live:
  assumes wf: "well_framed t p" and s: "in_stream c = p @ r" and st: "steady timeout_ms (length p + extra) c"
    and len: "length p \<le> max_len" "max_len \<le> length buf"
  shows "\<exists>buf' c'. sock_recv_payload_by_type t buf max_len timeout_ms c = Some (0, buf', length p, c') \<and>
    take (length p) buf' = p \<and> in_stream c' = r \<and> steady timeout_ms extra c'"
proof -
  have ann: "announced t (in_stream c) = Some (length p)"
    using wf announced_append unfolding well_framed_def s by blast
  have whole: "length p \<le> length (in_stream c)" "take (length p) (in_stream c) = p" "drop (length p) (in_stream c) = r"
    using s by simp_all
  show ?thesis
  proof (cases "msg_type_variable_payload t")
    case False
    then have n: "msg_type_fixed_payload_size t = length p" "msg_type_of t \<noteq> None"
      using ann by (auto simp: announced_def msg_type_variable_payload_def split: option.splits msg_type_t.splits)
    then have "length p \<noteq> SIZE_MAX" using False payload_tables_agree [of t] by auto
    moreover have "0 + length p \<le> length buf" using len by simp
    ultimately show ?thesis
      using recv_rest_live [OF st whole(1), of 0 buf] whole len False n
      by (auto simp: sock_recv_payload_by_type_def Let_def blit_def)
  next
    case True
    then consider (w) "msg_type_of t = Some MSG_WELCOME" | (m) "msg_type_of t = Some MSG_MAP"
      | (e) "msg_type_of t = Some MSG_ERROR" | (s) "msg_type_of t = Some MSG_SYNC_BOARD"
      by (auto simp: msg_type_variable_payload_def split: option.splits msg_type_t.splits)
    then show ?thesis
    proof cases
      case w
      then have n: "length p = MAX_ID_LEN + 1 + 1 + unat (in_stream c ! (MAX_ID_LEN + 1)) * (1 + 1 + MAX_NAME_LEN)"
        "\<not> MAX_PLAYERS < unat (in_stream c ! (MAX_ID_LEN + 1))"
        using ann by (auto simp: announced_def split: if_splits)
      show ?thesis
        unfolding msg_type_of_SomeD [OF w] payload_branches
        using welcome_frame.variable_live [where c = c and buf = buf and max_len = max_len and timeout_ms = timeout_ms and extra = extra,
            folded n(1)] st whole len n(2) by auto
    next
      case m
      then have n: "length p = 2 + unat (in_stream c ! 0) * unat (in_stream c ! 1)"
        "\<not> (unat (in_stream c ! 0) * unat (in_stream c ! 1) = 0 \<or> MAX_MAP_CELLS < unat (in_stream c ! 0) * unat (in_stream c ! 1))"
        using ann map_cells_bound [of "in_stream c ! 0" "in_stream c ! 1"]
        by (auto simp: announced_def unat_eq_zero split: if_splits)
      show ?thesis
        unfolding msg_type_of_SomeD [OF m] payload_branches
        using map_frame.variable_live [where c = c and buf = buf and max_len = max_len and timeout_ms = timeout_ms and extra = extra,
            folded n(1)] st whole len n(2) by auto
    next
      case e
      then have n: "length p = 2 + unat (sock_read_u16_be (in_stream c))" "\<not> MAX_ERROR_LEN < unat (sock_read_u16_be (in_stream c))"
        using ann by (auto simp: announced_def split: if_splits)
      show ?thesis
        unfolding msg_type_of_SomeD [OF e] payload_branches
        using error_frame.variable_live [where c = c and buf = buf and max_len = max_len and timeout_ms = timeout_ms and extra = extra,
            folded n(1)] st whole len n(2) by auto
    next
      case s
      then have n: "length p = 2 + unat (in_stream c ! 1) * 12" "\<not> MAX_PLAYERS < unat (in_stream c ! 1)"
        using ann by (auto simp: announced_def split: if_splits)
      show ?thesis
        unfolding msg_type_of_SomeD [OF s] payload_branches
        using sync_frame.variable_live [where c = c and buf = buf and max_len = max_len and timeout_ms = timeout_ms and extra = extra,
            folded n(1)] st whole len n(2) by auto
    qed
  qed
qed


section \<open>Every encoded message is well framed\<close>

lemma framed_fixed:
  "well_framed (msg_code MSG_HELLO) (hello_wire m1)"
  "well_framed (msg_code MSG_SET_STATUS) (set_status_wire m2)"
  "well_framed (msg_code MSG_MOVE_ATTEMPT) (move_attempt_wire m3)"
  "well_framed (msg_code MSG_BOMB_ATTEMPT) (bomb_attempt_wire m4)"
  "well_framed (msg_code MSG_MOVED) (moved_wire m5)"
  "well_framed (msg_code MSG_BOMB) (bomb_wire m6)"
  "well_framed (msg_code MSG_EXPLOSION_START) (explosion_start_wire m7)"
  "well_framed (msg_code MSG_EXPLOSION_END) (explosion_end_wire m8)"
  "well_framed (msg_code MSG_DEATH) (death_wire m9)"
  "well_framed (msg_code MSG_BONUS_AVAILABLE) (bonus_available_wire m10)"
  "well_framed (msg_code MSG_BONUS_RETRIEVED) (bonus_retrieved_wire m11)"
  "well_framed (msg_code MSG_BLOCK_DESTROYED) (block_destroyed_wire m12)"
  "well_framed (msg_code MSG_WINNER) (winner_wire m13)"
  by (simp_all add: well_framed_def announced_def msg_type_fixed_payload_size_def fixed_wires del: msg_code.simps)

lemma framed_empty:
  "m \<in> {MSG_DISCONNECT, MSG_PING, MSG_PONG, MSG_LEAVE, MSG_SET_READY, MSG_SYNC_REQUEST} \<Longrightarrow>
     well_framed (msg_code m) []"
  by (auto simp: well_framed_def announced_def msg_type_fixed_payload_size_def simp del: msg_code.simps)

lemma read_u16_bytes: "sock_read_u16_be (u16_bytes v @ r) = v"
  using u16_bytes_join [of v] by (simp add: sock_read_u16_be_def u16_bytes_def)

lemma framed_variable:
  "welcome_shaped w \<Longrightarrow> welcome_valid w \<Longrightarrow> well_framed (msg_code MSG_WELCOME) (welcome_wire w)"
  "map_shaped m \<Longrightarrow> map_valid m \<Longrightarrow> well_framed (msg_code MSG_MAP) (map_wire m)"
  "error_shaped e \<Longrightarrow> error_valid e \<Longrightarrow> well_framed (msg_code MSG_ERROR) (error_wire e)"
  "sync_shaped s \<Longrightarrow> sync_valid s \<Longrightarrow> well_framed (msg_code MSG_SYNC_BOARD) (sync_board_wire s)"
proof -
  show "well_framed (msg_code MSG_WELCOME) (welcome_wire w)" if "welcome_shaped w" "welcome_valid w"
  proof -
    have "welcome_wire w ! 21 = welcome_player_count w" by (simp add: welcome_wire_def nth_append)
    then show ?thesis using length_welcome_wire [OF that] that(2)
      by (simp add: well_framed_def announced_def welcome_valid_def del: msg_code.simps)
  qed
  show "well_framed (msg_code MSG_MAP) (map_wire m)" if "map_shaped m" "map_valid m"
    using that map_count_le [of m]
    by (simp add: well_framed_def announced_def map_wire_def map_valid_def map_shaped_def map_count_def del: msg_code.simps)
  show "well_framed (msg_code MSG_ERROR) (error_wire e)" if "error_shaped e" "error_valid e"
  proof -
    have "unat (of_nat (error_length e) :: u16) = error_length e"
      using that(2) by (intro unat_of_nat_u16) (simp add: error_valid_def)
    then show ?thesis using that
      by (simp add: well_framed_def announced_def error_wire_def read_u16_bytes error_valid_def error_shaped_def del: msg_code.simps)
  qed
  show "well_framed (msg_code MSG_SYNC_BOARD) (sync_board_wire s)" if "sync_shaped s" "sync_valid s"
  proof -
    have "sync_board_wire s ! 1 = sync_player_count s" by (simp add: sync_board_wire_def)
    then show ?thesis using length_sync_board_wire [OF that] that(2)
      by (simp add: well_framed_def announced_def sync_valid_def del: msg_code.simps)
  qed
qed

end
