(* ===== verification/Streams.thy ===== *)
theory Streams
  imports Frames
begin

text \<open>
  Messages end to end: one message from a socket, a stream of messages, and the sending side.
\<close>

section \<open>One message\<close>

text \<open>
  What the server's loop and the client do with a readable socket: the header, then the payload into
  a buffer of 65536 bytes.  The inner \<open>None\<close> is the failure of either call.
\<close>

definition receive_message :: "int \<Rightarrow> inbox \<Rightarrow> ((msg_header_t \<times> u8 list) option \<times> inbox) option" where
  "receive_message timeout_ms c =
     (case sock_recv_header \<lparr>h_msg_type = 0, h_sender_id = 0, h_target_id = 0\<rparr> timeout_ms c of
        None \<Rightarrow> None
      | Some (rc, header, c) \<Rightarrow>
          if rc \<noteq> 0 then Some (None, c)
          else case sock_recv_payload_by_type (h_msg_type header) (replicate 65536 0) 65536 timeout_ms c of
            None \<Rightarrow> None
          | Some (rc, payload, payload_len, c) \<Rightarrow>
              if rc \<noteq> 0 then Some (None, c) else Some (Some (header, take payload_len payload), c))"

definition frame :: "msg_header_t \<times> u8 list \<Rightarrow> u8 list" where
  "frame m = header_wire (fst m) @ snd m"

definition sendable :: "msg_header_t \<times> u8 list \<Rightarrow> bool" where
  "sendable m \<longleftrightarrow> well_framed (h_msg_type (fst m)) (snd m) \<and> length (snd m) \<le> 65536"

lemma length_header_wire [simp]: "length (header_wire h) = HEADER_SIZE"
  by (simp add: header_wire_def)

lemma recv_header_safe:
  assumes "sock_recv_header h0 timeout_ms c = Some (0, h, c')" "in_stream c = header_wire g @ s"
  shows "h = g \<and> in_stream c' = s"
proof -
  obtain rc buf where one: "sock_recv_all 0 HEADER_SIZE timeout_ms (replicate HEADER_SIZE 0) c = Some (rc, buf, c')"
    "rc = 0" "proto_read_header h0 buf = Some h"
    using assms(1) by (auto simp: sock_recv_header_def split: option.splits if_splits)
  then have "in_stream c' = drop HEADER_SIZE (in_stream c)" "buf = take HEADER_SIZE (in_stream c)"
    using recv_all_safe [OF one(1)] by (auto simp: blit_def)
  then show ?thesis
    using one(3) proto_read_header_wire [of h0 g "[]"] assms(2) by simp
qed

lemma recv_header_live:
  assumes "steady timeout_ms (HEADER_SIZE + extra) c" "in_stream c = header_wire g @ s"
  shows "\<exists>c'. sock_recv_header h0 timeout_ms c = Some (0, g, c') \<and> in_stream c' = s \<and> steady timeout_ms extra c'"
proof -
  obtain c' where "sock_recv_all 0 HEADER_SIZE timeout_ms (replicate HEADER_SIZE 0) c =
      Some (0, blit 0 (take HEADER_SIZE (in_stream c)) (replicate HEADER_SIZE 0), c')"
    "in_stream c' = drop HEADER_SIZE (in_stream c)" "steady timeout_ms extra c'"
    using recv_all_live [OF assms(1), of 0 "replicate HEADER_SIZE 0"] assms(2) by auto
  then show ?thesis
    using assms(2) proto_read_header_wire [of h0 g "[]"] by (simp add: sock_recv_header_def blit_def)
qed

lemma receive_message_safe:
  assumes "in_stream c = frame m @ r" "sendable m" "receive_message timeout_ms c = Some (res, c')"
  shows "res = None \<or> res = Some m \<and> in_stream c' = r"
proof (cases res)
  case (Some m')
  obtain h c1 payload n where one: "sock_recv_header \<lparr>h_msg_type = 0, h_sender_id = 0, h_target_id = 0\<rparr> timeout_ms c = Some (0, h, c1)"
    "sock_recv_payload_by_type (h_msg_type h) (replicate 65536 0) 65536 timeout_ms c1 = Some (0, payload, n, c')"
    "m' = (h, take n payload)"
    using assms(3) Some by (auto simp: receive_message_def split: option.splits if_splits)
  have h: "h = fst m" "in_stream c1 = snd m @ r"
    using recv_header_safe [OF one(1), of "fst m" "snd m @ r"] assms(1) by (simp_all add: frame_def)
  have safe: "well_framed (h_msg_type h) (take n (in_stream c1))" "in_stream c' = drop n (in_stream c1)"
    "take n payload = take n (in_stream c1)"
    using recv_payload_safe [OF one(2)] by simp_all
  have whole: "take n (in_stream c1) @ drop n (in_stream c1) = snd m @ r" using h(2) append_take_drop_id by metis
  have "well_framed (h_msg_type h) (snd m)" using assms(2) h(1) by (simp add: sendable_def)
  then have "take n (in_stream c1) = snd m" by (rule well_framed_unique [OF safe(1) _ whole])
  then have "take n payload = snd m" "in_stream c' = r" using safe whole by simp_all
  then show ?thesis using one(3) h(1) Some by simp
qed simp

lemma receive_message_live:
  assumes "in_stream c = frame m @ r" "sendable m" "steady timeout_ms (length (frame m) + extra) c"
  shows "\<exists>c'. receive_message timeout_ms c = Some (Some m, c') \<and> in_stream c' = r \<and> steady timeout_ms extra c'"
proof -
  let ?h0 = "\<lparr>h_msg_type = 0, h_sender_id = 0, h_target_id = 0\<rparr>"
  have "in_stream c = header_wire (fst m) @ snd m @ r" using assms(1) by (simp add: frame_def)
  moreover have "steady timeout_ms (HEADER_SIZE + (length (snd m) + extra)) c" using assms(3) by (simp add: frame_def add.assoc)
  ultimately obtain c1 where one: "sock_recv_header ?h0 timeout_ms c = Some (0, fst m, c1)" "in_stream c1 = snd m @ r"
    "steady timeout_ms (length (snd m) + extra) c1"
    using recv_header_live [of timeout_ms "length (snd m) + extra" c "fst m" "snd m @ r" ?h0] by blast
  have "length (snd m) \<le> 65536" "65536 \<le> length (replicate 65536 (0 :: u8))" "well_framed (h_msg_type (fst m)) (snd m)"
    using assms(2) by (simp_all add: sendable_def)
  from recv_payload_live [OF this(3) one(2,3) this(1,2)]
  obtain buf c2 where "sock_recv_payload_by_type (h_msg_type (fst m)) (replicate 65536 0) 65536 timeout_ms c1 =
      Some (0, buf, length (snd m), c2)" "take (length (snd m)) buf = snd m" "in_stream c2 = r" "steady timeout_ms extra c2"
    by blast
  then show ?thesis using one(1) by (auto simp: receive_message_def)
qed

section \<open>A stream of messages\<close>

fun receive_messages :: "nat \<Rightarrow> int \<Rightarrow> inbox \<Rightarrow> ((msg_header_t \<times> u8 list) list \<times> inbox) option" where
  "receive_messages 0 timeout_ms c = Some ([], c)"
| "receive_messages (Suc k) timeout_ms c =
     (case receive_message timeout_ms c of
        None \<Rightarrow> None
      | Some (None, c) \<Rightarrow> Some ([], c)
      | Some (Some m, c) \<Rightarrow> map_option (\<lambda>(ms, c). (m # ms, c)) (receive_messages k timeout_ms c))"

lemma receive_messages_safe:
  assumes "in_stream c = concat (map frame ms) @ r" "\<forall>m \<in> set ms. sendable m" "k \<le> length ms"
    and "receive_messages k timeout_ms c = Some (got, c')"
  shows "got = take (length got) ms \<and> length got \<le> k"
  using assms
proof (induction k arbitrary: ms c got c')
  case 0
  then show ?case by simp
next
  case (Suc k)
  then obtain m ms' where ms: "ms = m # ms'" by (cases ms) auto
  obtain res c1 where one: "receive_message timeout_ms c = Some (res, c1)"
    using Suc.prems(4) by (auto split: option.splits)
  show ?case
  proof (cases res)
    case None
    then show ?thesis using Suc.prems(4) one by simp
  next
    case (Some m')
    have "in_stream c = frame m @ (concat (map frame ms') @ r)" "sendable m" using Suc.prems(1,2) ms by simp_all
    from receive_message_safe [OF this one] Some have "m' = m" "in_stream c1 = concat (map frame ms') @ r" by simp_all
    moreover obtain got' where got: "receive_messages k timeout_ms c1 = Some (got', c')" "got = m' # got'"
      using Suc.prems(4) one Some by auto
    ultimately show ?thesis using Suc.IH [OF _ _ _ got(1), of ms'] Suc.prems(2,3) ms got(2) by simp
  qed
qed

lemma receive_messages_live:
  assumes "in_stream c = concat (map frame ms) @ r" "\<forall>m \<in> set ms. sendable m"
    and "steady timeout_ms (length (concat (map frame ms)) + extra) c"
  shows "\<exists>c'. receive_messages (length ms) timeout_ms c = Some (ms, c') \<and> in_stream c' = r"
  using assms
proof (induction ms arbitrary: c)
  case (Cons m ms)
  have "in_stream c = frame m @ (concat (map frame ms) @ r)" "sendable m"
    "steady timeout_ms (length (frame m) + (length (concat (map frame ms)) + extra)) c"
    using Cons.prems by (simp_all add: add.assoc)
  from receive_message_live [OF this]
  obtain c1 where "receive_message timeout_ms c = Some (Some m, c1)" "in_stream c1 = concat (map frame ms) @ r"
    "steady timeout_ms (length (concat (map frame ms)) + extra) c1" by blast
  then show ?case using Cons.IH [of c1] Cons.prems(2) by auto
qed simp

section \<open>Sending\<close>

lemma send_loop_safe:
  assumes "send_loop bs out as = Some (rv, out', as')"
  shows "\<exists>n \<le> length bs. out' = out @ take n bs \<and> rv \<in> {0, -1} \<and> (rv = 0 \<longleftrightarrow> n = length bs)"
  using assms
proof (induction bs out as rule: send_loop.induct)
  case (3 b bs out k as)
  let ?n = "min (max 1 k) (length (b # bs))"
  obtain m where m: "m \<le> length (drop ?n (b # bs))" "out' = (out @ take ?n (b # bs)) @ take m (drop ?n (b # bs))"
    "rv \<in> {0, -1}" "rv = 0 \<longleftrightarrow> m = length (drop ?n (b # bs))"
    using 3(1) [OF refl] 3(2) by (auto simp: Let_def)
  have "?n + m \<le> length (b # bs)" "rv = 0 \<longleftrightarrow> ?n + m = length (b # bs)" using m(1,4) by auto
  then show ?case using m(2,3) by (intro exI [of _ "?n + m"]) (simp add: take_add)
qed (auto intro: exI [of _ "0 :: nat"])

definition accepts :: "send_answer \<Rightarrow> bool" where
  "accepts a \<longleftrightarrow> (case a of Send_Data k \<Rightarrow> True | _ \<Rightarrow> False)"

lemma accepts_simps [simp]: "accepts (Send_Data k)" "\<not> accepts Send_Interrupted"
  by (simp_all add: accepts_def)

lemma send_loop_live:
  assumes "Send_Nothing \<notin> set as" "Send_Error \<notin> set as" "length bs + extra \<le> length (filter accepts as)"
  shows "\<exists>as'. send_loop bs out as = Some (0, out @ bs, as') \<and> set as' \<subseteq> set as \<and> extra \<le> length (filter accepts as')"
  using assms
proof (induction bs out as rule: send_loop.induct)
  case (3 b bs out k as)
  let ?n = "min (max 1 k) (length (b # bs))"
  have "length (drop ?n (b # bs)) + extra \<le> length (filter accepts as)"
    using 3(4) by auto
  then show ?case using 3(1) [OF refl] 3(2,3) by (auto simp: Let_def)
qed auto

lemma send_all_safe:
  assumes "sock_send_all bs ob = Some (rv, ob')"
  shows "\<exists>n \<le> length bs. out_stream ob' = out_stream ob @ take n bs \<and> rv \<in> {0, -1} \<and> (rv = 0 \<longleftrightarrow> n = length bs)"
  using assms send_loop_safe [of bs "out_stream ob" "out_sends ob"] by (auto simp: sock_send_all_def)

lemma send_message_safe:
  assumes "sock_send_message t sid tgt payload ob = Some (rv, ob')"
  shows "\<exists>n \<le> HEADER_SIZE + length payload. rv \<in> {0, -1} \<and> (rv = 0 \<longleftrightarrow> n = HEADER_SIZE + length payload) \<and>
    out_stream ob' = out_stream ob @
      take n (frame (\<lparr>h_msg_type = t, h_sender_id = sid, h_target_id = tgt\<rparr>, payload))"
proof -
  let ?h = "\<lparr>h_msg_type = t, h_sender_id = sid, h_target_id = tgt\<rparr>"
  have w: "proto_write_header ?h (replicate HEADER_SIZE 0) = Some (header_wire ?h)"
    by (simp add: proto_write_header_wire)
  obtain rv1 ob1 where one: "sock_send_all (header_wire ?h) ob = Some (rv1, ob1)"
    using assms by (auto simp: sock_send_message_def w split: option.splits)
  obtain n where n: "n \<le> HEADER_SIZE" "out_stream ob1 = out_stream ob @ take n (header_wire ?h)"
    "rv1 = 0 \<longleftrightarrow> n = HEADER_SIZE"
    using send_all_safe [OF one] by auto
  show ?thesis
  proof (cases "rv1 = 0")
    case False
    then have "rv = -1" "ob' = ob1" using assms by (simp_all add: sock_send_message_def w one)
    then show ?thesis using n False by (intro exI [of _ n]) (simp add: frame_def)
  next
    case True
    then have hd: "out_stream ob1 = out_stream ob @ header_wire ?h" using n by simp
    show ?thesis
    proof (cases "payload = []")
      case True
      then have "rv = 0" "ob' = ob1" using assms \<open>rv1 = 0\<close> by (simp_all add: sock_send_message_def w one)
      then show ?thesis using hd True by (intro exI [of _ HEADER_SIZE]) (simp add: frame_def)
    next
      case False
      then obtain rv2 where two: "sock_send_all payload ob1 = Some (rv2, ob')" "rv = (if rv2 \<noteq> 0 then -1 else 0)"
        using assms \<open>rv1 = 0\<close> by (auto simp: sock_send_message_def w one split: option.splits)
      obtain m where "m \<le> length payload" "out_stream ob' = out_stream ob1 @ take m payload" "rv2 = 0 \<longleftrightarrow> m = length payload"
        using send_all_safe [OF two(1)] by auto
      then show ?thesis using two(2) hd by (intro exI [of _ "HEADER_SIZE + m"]) (simp add: frame_def)
    qed
  qed
qed

lemma send_message_live:
  assumes "Send_Nothing \<notin> set (out_sends ob)" "Send_Error \<notin> set (out_sends ob)"
    and "HEADER_SIZE + length payload \<le> length (filter accepts (out_sends ob))"
  shows "\<exists>ob'. sock_send_message t sid tgt payload ob = Some (0, ob') \<and>
    out_stream ob' = out_stream ob @ frame (\<lparr>h_msg_type = t, h_sender_id = sid, h_target_id = tgt\<rparr>, payload)"
proof -
  let ?h = "\<lparr>h_msg_type = t, h_sender_id = sid, h_target_id = tgt\<rparr>"
  have w: "proto_write_header ?h (replicate HEADER_SIZE 0) = Some (header_wire ?h)"
    by (simp add: proto_write_header_wire)
  obtain as where one: "send_loop (header_wire ?h) (out_stream ob) (out_sends ob) = Some (0, out_stream ob @ header_wire ?h, as)"
    "set as \<subseteq> set (out_sends ob)" "length payload \<le> length (filter accepts as)"
    using send_loop_live [OF assms(1,2), of "header_wire ?h" "length payload"] assms(3) by auto
  obtain as' where "send_loop payload (out_stream ob @ header_wire ?h) as = Some (0, (out_stream ob @ header_wire ?h) @ payload, as')"
    using send_loop_live [of as payload 0] one(2,3) assms(1,2) by (metis add.right_neutral subset_iff)
  then show ?thesis using one(1) by (auto simp: sock_send_message_def w sock_send_all_def frame_def)
qed

end
