(* ===== verification/Client_Loop.thy ===== *)
theory Client_Loop
  imports Client_Spec Input_Handler Streams
begin

text \<open>
  \<open>client/client.c\<close>: connecting to a game, the event loop and the end of the program.

  The state is the client system and the connection's incoming bytes.  What the operating system
  decides in one iteration is an input: the result of \<open>select\<close>, the signals in the pipe of the
  signal thread, the result of \<open>read\<close> on the terminal, the clock, and what \<open>sock_send_message\<close>
  returns.  Drawing and the terminal mode are left out.  A step ends normally, never returns because
  the socket stays silent in the middle of a message, or is undefined behaviour.
\<close>

datatype 'a outcome = Done 'a | Blocked | Undefined

definition outcome_of :: "'a option \<Rightarrow> 'a outcome" where
  "outcome_of r = (case r of None \<Rightarrow> Undefined | Some x \<Rightarrow> Done x)"

fun and_then :: "'a outcome \<Rightarrow> ('a \<Rightarrow> 'b outcome) \<Rightarrow> 'b outcome" where
  "and_then (Done x) f = f x"
| "and_then Blocked f = Blocked"
| "and_then Undefined f = Undefined"

lemma and_then_Done: "and_then r f = Done y \<longleftrightarrow> (\<exists>x. r = Done x \<and> f x = Done y)"
  by (cases r) simp_all

lemma outcome_of_Done [simp]: "outcome_of r = Done x \<longleftrightarrow> r = Some x"
  by (cases r) (simp_all add: outcome_of_def)

section \<open>Greeting and leaving\<close>

definition client_hello :: "client_ctx_t \<Rightarrow> msg_hello_t" where
  "client_hello c =
     (let hello = \<lparr>hello_client_id = replicate (MAX_ID_LEN + 1) 0, hello_player_name = replicate (MAX_NAME_LEN + 1) 0\<rparr>;
          hello = hello\<lparr>hello_client_id := (strncpy (hello_client_id hello) (text_of ''bomberman-client/1.0'' @ [0]) MAX_ID_LEN)[MAX_ID_LEN := 0]\<rparr>
      in hello\<lparr>hello_player_name := (strncpy (hello_player_name hello) (cc_player_name c) MAX_NAME_LEN)[MAX_NAME_LEN := 0]\<rparr>)"

definition send_hello :: "int \<Rightarrow> client_sys \<Rightarrow> int \<times> client_sys" where
  "send_hello rc s =
     (case payload_of proto_encode_hello_payload 128 (client_hello (cctx s)) of
        None \<Rightarrow> (-1, s)
      | Some payload \<Rightarrow> (rc, client_send (msg_code MSG_HELLO) SERVER_ENDPOINT_ID SERVER_ENDPOINT_ID payload s))"

definition send_leave :: "int \<Rightarrow> client_sys \<Rightarrow> int \<times> client_sys" where
  "send_leave rc s =
     (rc, client_send (msg_code MSG_LEAVE)
            (if cc_has_welcome (cctx s) then cc_player_id (cctx s) else SERVER_ENDPOINT_ID) SERVER_ENDPOINT_ID [] s)"

section \<open>The three descriptors\<close>

definition stop :: "client_sys \<Rightarrow> client_sys" where
  "stop = upd_cctx (\<lambda>c. c\<lparr>cc_running := False\<rparr>)"

abbreviation (input) SIGINT :: int where "SIGINT \<equiv> 2"

definition handle_fd_sigthread :: "int list \<Rightarrow> client_sys \<Rightarrow> client_sys" where
  "handle_fd_sigthread sigs s = fold (\<lambda>sig s. if sig = SIGINT then stop s else s) sigs s"

type_synonym client_io = "client_sys \<times> inbox"

definition handle_fd_server :: "client_io \<Rightarrow> client_io outcome" where
  "handle_fd_server io =
     (case receive_message (-1) (snd io) of
        None \<Rightarrow> Blocked
      | Some (None, inb) \<Rightarrow> Done (stop (fst io), inb)
      | Some (Some (header, payload), inb) \<Rightarrow>
          (case client_handle_server_message header payload (fst io) of
             None \<Rightarrow> Undefined
           | Some (rc, s) \<Rightarrow> Done (if rc \<noteq> 0 then stop s else s, inb)))"

text \<open>\<open>read\<close> may also report the end of the input, leaving the character as it was: then it is any character.\<close>

datatype stdin_answer = Stdin_Error | Stdin_Char u8

definition handle_fd_input :: "stdin_answer \<Rightarrow> timespec \<Rightarrow> int \<Rightarrow> client_sys \<Rightarrow> client_sys outcome" where
  "handle_fd_input answer now rc s =
     (case answer of
        Stdin_Error \<Rightarrow> Done s
      | Stdin_Char ch \<Rightarrow>
          let blank = \<lparr>co_msg_type = 0, co_sender_id = 0, co_target_id = 0, co_payload = replicate 64 0,
                       co_payload_len = 0, co_should_quit = False\<rparr> in
          case client_build_command ch now blank (cctx s) of
            None \<Rightarrow> Undefined
          | Some (build_command_ret, out, c) \<Rightarrow>
              let s = upd_cctx (\<lambda>_. c) s;
                  s = (if co_should_quit out then stop s else s)
              in Done (
                if build_command_ret = CLIENT_BUILD_COMMAND_ERR_FAIL then stop s
                else if build_command_ret \<noteq> CLIENT_BUILD_COMMAND_ERR_OK then s
                else let s = client_send (co_msg_type out) (co_sender_id out) (co_target_id out)
                               (take (co_payload_len out) (co_payload out)) s
                     in if rc \<noteq> 0 then stop s else s))"

section \<open>The event loop\<close>

record client_input =
  ci_select_failed :: bool
  ci_signals :: "int list option"
  ci_server_ready :: bool
  ci_stdin :: "stdin_answer option"
  ci_now :: timespec
  ci_send_rc :: int

text \<open>One iteration; the truth value says that the loop was left by \<open>break\<close>.\<close>

definition client_iteration :: "client_input \<Rightarrow> client_io \<Rightarrow> (bool \<times> client_io) outcome" where
  "client_iteration inp io =
     (if ci_select_failed inp then Done (True, io)
      else let io = (case ci_signals inp of None \<Rightarrow> io | Some sigs \<Rightarrow> (handle_fd_sigthread sigs (fst io), snd io)) in
        and_then (if ci_server_ready inp then handle_fd_server io else Done io) (\<lambda>io.
        and_then (case ci_stdin inp of None \<Rightarrow> Done (fst io)
                  | Some answer \<Rightarrow> handle_fd_input answer (ci_now inp) (ci_send_rc inp) (fst io)) (\<lambda>s.
        Done (False, s, snd io))))"

text \<open>\<open>while (ctx.running)\<close>, for as many iterations as there are inputs; the truth value says that the loop has ended.\<close>

fun client_main_loop :: "client_input list \<Rightarrow> client_io \<Rightarrow> (bool \<times> client_io) outcome" where
  "client_main_loop [] io = Done (\<not> cc_running (cctx (fst io)), io)"
| "client_main_loop (inp # inps) io =
     (if \<not> cc_running (cctx (fst io)) then Done (True, io)
      else and_then (client_iteration inp io) (\<lambda>(left, io). if left then Done (True, io) else client_main_loop inps io))"

section \<open>The program\<close>

definition client_init :: "u8 list \<Rightarrow> int \<Rightarrow> client_ctx_t" where
  "client_init name fd =
     \<lparr>cc_fd = fd, cc_player_id = 0, cc_has_welcome = False, cc_running = True, cc_state = gs_init,
      cc_explosions = replicate MAX_MAP_CELLS 0, cc_ts_last_move = \<lparr>tv_sec = 0, tv_nsec = 0\<rparr>,
      cc_qlog = replicate MAX_CLIENT_LOG_COUNT (replicate MAX_CLIENT_LOG_STRLEN 0), cc_qlog_beg = 0, cc_qlog_end = 0,
      cc_player_name = (strncpy (replicate (MAX_NAME_LEN + 1) 0) name MAX_NAME_LEN)[MAX_NAME_LEN := 0]\<rparr>"

text \<open>
  \<open>main\<close> after the signal thread is set up: the port that \<open>strtol\<close> read, the name argument, the
  descriptor of \<open>connect_to_server\<close>, what the sends of HELLO and LEAVE return, the inputs of the
  loop and the incoming bytes.  The exit code is \<open>None\<close> while the loop still waits for input.
\<close>

record client_args =
  ca_port :: int
  ca_name :: "u8 list"
  ca_fd :: int
  ca_calloc :: "nat \<Rightarrow> bool"
  ca_hello_rc :: int
  ca_leave_rc :: int

definition client_main :: "client_args \<Rightarrow> client_input list \<Rightarrow> inbox \<Rightarrow> (int option \<times> client_io) outcome" where
  "client_main a inps inb =
     (let s = \<lparr>cctx = client_init (ca_name a) (ca_fd a), cs_sent = [], cs_calloc = ca_calloc a, cs_calloc_pos = 0\<rparr> in
      if ca_port a \<le> 0 \<or> ca_port a > 65535 then Done (Some 1, s, inb)
      else if ca_fd a < 0 then Done (Some 1, upd_cctx (upd_cstate gs_free) s, inb)
      else case send_hello (ca_hello_rc a) s of (rc, s) \<Rightarrow>
        if rc \<noteq> 0 then Done (Some 1, upd_cctx (upd_cstate gs_free) s, inb)
        else and_then (client_main_loop inps (upd_cctx (qlogf (text_of ''client started'')) s, inb)) (\<lambda>(ended, s, inb).
          if ended then Done (Some 0, upd_cctx (upd_cstate gs_free) (snd (send_leave (ca_leave_rc a) s)), inb)
          else Done (None, s, inb)))"

end
