(* ===== verification/Client_Run.thy ===== *)
theory Client_Run
  imports Client_Loop
begin

text \<open>
  What holds of a run of the client: the invariant of its context, which keys are undefined
  behaviour, and the shape of what it sends: one HELLO, then commands and answers to pings, each of
  the length its type announces, and at the end one LEAVE.
\<close>

section \<open>Keys\<close>

definition is_move_key :: "u8 \<Rightarrow> bool" where
  "is_move_key ch \<longleftrightarrow> ch \<in> {key CHR ''w'', key CHR ''a'', key CHR ''s'', key CHR ''d''}"

lemma key_values: "key CHR ''w'' = 119" "key CHR ''a'' = 97" "key CHR ''s'' = 115" "key CHR ''d'' = 100" "key CHR ''r'' = 114"
  "key CHR ''b'' = 98" "key CHR ''l'' = 108" "key CHR ''p'' = 112" "key CHR ''q'' = 113" "key CHR ''h'' = 104"
  by (simp_all add: key_def)

lemma player_id_range: "is_player_id i \<longleftrightarrow> \<not> (i = 0 \<or> unat i > MAX_PLAYERS)"
  by (auto simp: is_player_id_def word_le_nat_alt Suc_le_eq unat_gt_0)

lemma ex_triple: "\<exists>a b c. x = (a, b, c)"
  by (cases x) simp

lemma build_command_defined:
  "client_build_command ch now out c = None \<longleftrightarrow> is_move_key ch \<and> \<not> is_player_id (cc_player_id c)"
  by (simp add: client_build_command_def Let_def is_move_key_def build_move_def player_id_range key_values ex_triple)

section \<open>What a client sends\<close>

definition is_request :: "msg_header_t \<times> u8 list \<Rightarrow> bool" where
  "is_request m \<longleftrightarrow> h_target_id (fst m) = SERVER_ENDPOINT_ID \<and> sendable m \<and>
     h_msg_type (fst m) \<in> msg_code ` {MSG_SET_READY, MSG_MOVE_ATTEMPT, MSG_BOMB_ATTEMPT, MSG_SET_STATUS, MSG_PING, MSG_PONG}"

lemma fixed_well_framed:
  assumes "msg_type_of t = Some m" "m \<notin> {MSG_WELCOME, MSG_MAP, MSG_ERROR, MSG_SYNC_BOARD}"
  shows "well_framed t p \<longleftrightarrow> length p = msg_type_fixed_payload_size t"
  using assms by (cases m) (auto simp: well_framed_def announced_def)

lemma request_iff:
  "is_request (\<lparr>h_msg_type = msg_code m, h_sender_id = i, h_target_id = t\<rparr>, p) \<longleftrightarrow>
    t = SERVER_ENDPOINT_ID \<and> (m \<in> {MSG_SET_READY, MSG_PING, MSG_PONG} \<and> p = [] \<or>
      m \<in> {MSG_MOVE_ATTEMPT, MSG_SET_STATUS} \<and> length p = 1 \<or> m = MSG_BOMB_ATTEMPT \<and> length p = 2)"
  by (cases m) (auto simp: is_request_def sendable_def fixed_well_framed msg_code_inj image_iff msg_type_fixed_payload_size_def
      simp del: msg_code.simps)

text \<open>The context after a command differs only in the log and in the time of the last move.\<close>

lemma command_context:
  assumes "client_build_command ch now out c = Some (e, out', c')"
  shows "c' = c \<or> (\<exists>line. c' = qlogf line c) \<or> c' = c\<lparr>cc_ts_last_move := now\<rparr>"
  using assms
  by (auto simp: client_build_command_def build_ready_def build_move_def build_bomb_def build_lobby_def with_payload_def Let_def
      split: if_splits option.splits)

lemma ok_last_move: "client_ok c \<Longrightarrow> client_ok (c\<lparr>cc_ts_last_move := t\<rparr>)"
  by (simp add: client_ok_def qlog_ok_def)

lemma command_keeps_ok: "client_build_command ch now out c = Some (e, out', c') \<Longrightarrow> client_ok c \<Longrightarrow> client_ok c'"
  using command_context [of ch now out c e out' c'] ok_qlogf [of c] ok_last_move [of c now] by auto

definition command_message :: "command_out \<Rightarrow> msg_header_t \<times> u8 list" where
  "command_message out = (\<lparr>h_msg_type = co_msg_type out, h_sender_id = co_sender_id out, h_target_id = co_target_id out\<rparr>,
     take (co_payload_len out) (co_payload out))"

lemma with_payload_OK:
  assumes "with_payload (enc m (co_payload out)) out' c c_ok = (CLIENT_BUILD_COMMAND_ERR_OK, r, c')"
    and "codec enc dec wire any any latest"
  shows "command_message r =
    (\<lparr>h_msg_type = co_msg_type out', h_sender_id = co_sender_id out', h_target_id = co_target_id out'\<rparr>, wire m)"
proof -
  obtain buffer n where "enc m (co_payload out) = Some (buffer, n)" "r = out'\<lparr>co_payload := buffer, co_payload_len := n\<rparr>"
    using assms(1) by (auto simp: with_payload_def split: option.splits)
  then show ?thesis
    using codec.enc_in_bounds [OF assms(2), of m "co_payload out" buffer n] by (auto simp: command_message_def)
qed

lemmas payload_OK = with_payload_OK [OF _ move_attempt.codec_axioms] with_payload_OK [OF _ bomb_attempt.codec_axioms]
  with_payload_OK [OF _ set_status.codec_axioms]

section \<open>What a key asks for\<close>

definition own_player :: "client_ctx_t \<Rightarrow> player_t" where
  "own_player c = gs_players (cc_state c) ! (unat (cc_player_id c) - 1)"

text \<open>A move is allowed when a second divided by the player's speed has passed since the last one.\<close>

definition move_due :: "timespec \<Rightarrow> client_ctx_t \<Rightarrow> bool" where
  "move_due now c \<longleftrightarrow> 0 < unat (pl_speed (own_player c)) \<and>
     move_interval (unat (pl_speed (own_player c))) \<le> ts_total now - ts_total (cc_ts_last_move c)"

definition issued :: "timespec \<Rightarrow> client_ctx_t \<Rightarrow> u8 \<Rightarrow> (msg_type_t \<times> u8 list) option" where
  "issued now c ch =
     (let status = gs_status (cc_state c); p = own_player c in
      if ch = key CHR ''r'' \<and> status = GAME_LOBBY then Some (MSG_SET_READY, [])
      else if is_move_key ch \<and> status = GAME_RUNNING \<and> move_due now c then Some (MSG_MOVE_ATTEMPT, [direction_of ch])
      else if ch = key CHR ''b'' \<and> cc_has_welcome c \<and> status = GAME_RUNNING
      then Some (MSG_BOMB_ATTEMPT, u16_bytes (make_cell_index (pl_row p) (pl_col p) (map_cols (gs_map (cc_state c)))))
      else if ch = key CHR ''l'' \<and> status \<noteq> GAME_LOBBY then Some (MSG_SET_STATUS, [0])
      else if ch = key CHR ''p'' then Some (MSG_PING, [])
      else None)"

lemma own_slot:
  assumes "client_ok c" "is_player_id (cc_player_id c)"
  shows "gs_find_player_slot_by_id (cc_state c) (cc_player_id c) = Some (unat (cc_player_id c) - 1)"
  unfolding gs_find_player_slot_by_id_def
proof (rule first_index_eqI)
  note slot = player_id_slot [OF assms(2)]
  have id: "unat (pl_id (gs_players (cc_state c) ! i)) = Suc i" if "i < 8" for i
    using assms(1) that by (simp add: client_ok_def)
  then have "unat (pl_id (gs_players (cc_state c) ! (unat (cc_player_id c) - 1))) = unat (cc_player_id c)"
    using slot by simp
  then show "pl_id (gs_players (cc_state c) ! (unat (cc_player_id c) - 1)) = cc_player_id c" by (simp add: word_unat_eq_iff)
  show "unat (cc_player_id c) - 1 < 8" using slot by simp
  show "pl_id (gs_players (cc_state c) ! j) \<noteq> cc_player_id c" if "j < unat (cc_player_id c) - 1" for j
    using id [of j] that slot by auto
qed

lemma u16_encoded: "bomb_attempt_wire \<lparr>bomb_attempt_cell_index = v\<rparr> = u16_bytes v"
  by (simp add: bomb_attempt_wire_def)

lemma encoded:
  assumes "2 \<le> length buffer"
  shows "proto_encode_move_attempt_payload m buffer = Some (written (move_attempt_wire m) buffer)"
    "proto_encode_bomb_attempt_payload b buffer = Some (written (bomb_attempt_wire b) buffer)"
    "proto_encode_set_status_payload st buffer = Some (written (set_status_wire st) buffer)"
  using assms by (simp_all add: move_attempt.enc_wire bomb_attempt.enc_wire set_status.enc_wire fixed_wires u16_bytes_def)

lemma take_written: "case_prod (\<lambda>buffer n. take n buffer) (written w buffer) = w"
  by (simp add: written_def)

lemma ex_log: "\<exists>line'. qlogf line c = qlogf line' c"
  by blast

lemma bomb_command:
  fixes c :: client_ctx_t and out :: command_out
  defines "out' \<equiv> command_start c out"
  assumes "client_ok c" "is_player_id (cc_player_id c)" "2 \<le> length (co_payload out)"
  shows "client_build_command (key CHR ''b'') now out c = Some (
    if \<not> cc_has_welcome c then (CLIENT_BUILD_COMMAND_ERR_FAIL, out', c)
    else if gs_status (cc_state c) \<noteq> GAME_RUNNING
    then (CLIENT_BUILD_COMMAND_ERR_INVALID_INPUT, out', qlogf (text_of ''cannot place bombs when game is not running'') c)
    else (CLIENT_BUILD_COMMAND_ERR_OK, out'\<lparr>co_msg_type := msg_code MSG_BOMB_ATTEMPT,
      co_payload := u16_bytes (make_cell_index (pl_row (own_player c)) (pl_col (own_player c)) (map_cols (gs_map (cc_state c)))) @
        drop 2 (co_payload out), co_payload_len := 2\<rparr>, c))"
proof -
  have cap: "2 \<le> length (co_payload out')" "co_payload out' = co_payload out"
    using assms(4) by (simp_all add: out'_def command_start_def)
  have "client_build_command (key CHR ''b'') now out c = Some (build_bomb out' c)"
    by (simp add: client_build_command_def Let_def key_values out'_def)
  then show ?thesis
    using encoded(2) [OF cap(1)] cap(2)
    by (simp add: build_bomb_def own_slot [OF assms(2,3)] own_player_def with_payload_def Let_def u16_encoded written_def)
qed

lemma command_exact:
  assumes ok: "client_ok c" "is_player_id (cc_player_id c)" and out: "2 \<le> length (co_payload out)"
    and time: "ts_normal now" "ts_normal (cc_ts_last_move c)"
  shows "\<exists>e out' c'. client_build_command ch now out c = Some (e, out', c') \<and>
    co_should_quit out' = (ch = key CHR ''q'') \<and>
    (case issued now c ch of
       Some (m, p) \<Rightarrow> e = CLIENT_BUILD_COMMAND_ERR_OK \<and> command_message out' =
         (\<lparr>h_msg_type = msg_code m, h_sender_id = if cc_has_welcome c then cc_player_id c else SERVER_ENDPOINT_ID,
           h_target_id = SERVER_ENDPOINT_ID\<rparr>, p) \<and>
         c' = (if m = MSG_MOVE_ATTEMPT then c\<lparr>cc_ts_last_move := now\<rparr> else c)
     | None \<Rightarrow> e \<noteq> CLIENT_BUILD_COMMAND_ERR_OK \<and> (c' = c \<or> (\<exists>line. c' = qlogf line c)))"
proof -
  let ?s = "unat (pl_speed (own_player c))"
  have id: "\<not> (cc_player_id c = 0 \<or> unat (cc_player_id c) > 8)" using ok(2) by (simp only: player_id_range) simp
  have thr: "ts_cmp (ts_diff now (cc_ts_last_move c)) \<lparr>tv_sec = 0, tv_nsec = SECOND_NS div int ?s\<rparr> < 0 \<longleftrightarrow> \<not> move_due now c"
    if "0 < ?s" using that throttle [OF time that] by (auto simp: move_due_def)
  have "move_due now c \<Longrightarrow> 0 < ?s" by (simp add: move_due_def)
  note due = this
  note enc = encoded [of "co_payload (command_start c out)", unfolded written_def fixed_wires u16_bytes_def]
  have cap: "2 \<le> length (co_payload (command_start c out))" using out by (simp add: command_start_def)
  note D = client_build_command_def issued_def Let_def key_values is_move_key_def command_start_def
  consider "ch = key CHR ''r''" | "is_move_key ch" | "ch = key CHR ''b''" | "ch = key CHR ''l''" |
    "ch \<notin> {key CHR ''r'', key CHR ''b'', key CHR ''l''}" "\<not> is_move_key ch" by blast
  then show ?thesis
  proof cases
    case 1
    then show ?thesis by (cases "gs_status (cc_state c) = GAME_LOBBY") (simp_all add: D build_ready_def command_message_def ex_log)
  next
    case 2
    then have "ch \<noteq> 114" "ch \<noteq> 113" by (auto simp: is_move_key_def key_values)
    with 2 have "client_build_command ch now out c = build_move ch now (command_start c out) c"
      and iss: "issued now c ch = (if gs_status (cc_state c) = GAME_RUNNING \<and> move_due now c
        then Some (MSG_MOVE_ATTEMPT, [direction_of ch]) else None)"
      by (auto simp: client_build_command_def issued_def Let_def is_move_key_def key_values)
    moreover have "build_move ch now (command_start c out) c = Some (
        if gs_status (cc_state c) \<noteq> GAME_RUNNING
        then (CLIENT_BUILD_COMMAND_ERR_INVALID_INPUT, command_start c out, qlogf (text_of ''cannot move when game is not running'') c)
        else if \<not> move_due now c then (CLIENT_BUILD_COMMAND_ERR_INVALID_INPUT, command_start c out, c)
        else (CLIENT_BUILD_COMMAND_ERR_OK, (command_start c out)\<lparr>co_msg_type := msg_code MSG_MOVE_ATTEMPT,
          co_payload := direction_of ch # drop 1 (co_payload (command_start c out)), co_payload_len := 1\<rparr>, c\<lparr>cc_ts_last_move := now\<rparr>))"
      using id thr due enc(1) [OF cap]
      by (cases "?s = 0"; cases "move_due now c") (simp_all add: build_move_def own_player_def with_payload_def Let_def)
    ultimately show ?thesis using \<open>ch \<noteq> 113\<close>
      by (simp add: iss command_message_def command_start_def key_values ex_log)
  next
    case 3
    then have "issued now c ch = (if cc_has_welcome c \<and> gs_status (cc_state c) = GAME_RUNNING
        then Some (MSG_BOMB_ATTEMPT, u16_bytes (make_cell_index (pl_row (own_player c)) (pl_col (own_player c))
          (map_cols (gs_map (cc_state c))))) else None)"
      by (simp add: issued_def Let_def is_move_key_def key_values)
    then show ?thesis using 3
      by (simp add: bomb_command [OF ok out, unfolded key_values] command_message_def command_start_def key_values ex_log)
  next
    case 4
    then show ?thesis using enc(3) [OF cap] 
      by (cases "gs_status (cc_state c) = GAME_LOBBY") (simp_all add: D build_lobby_def with_payload_def command_message_def ex_log)
  next
    case 5
    then show ?thesis by (simp add: D command_message_def ex_log)
  qed
qed

text \<open>Whatever the state of the client, a command that is sent is a request of the length its type announces.\<close>

lemma command_is_request:
  assumes "client_build_command ch now out c = Some (CLIENT_BUILD_COMMAND_ERR_OK, out', c')"
  shows "is_request (command_message out')"
proof -
  let ?o = "command_start c out"
  have start: "co_target_id ?o = 255" "co_payload_len ?o = 0" by (simp_all add: command_start_def)
  note R = start request_iff fixed_wires u16_bytes_def
  have status: "is_request (command_message out')" if s: "build_lobby ?o c = (CLIENT_BUILD_COMMAND_ERR_OK, out', c')"
  proof -
    have "with_payload (proto_encode_set_status_payload \<lparr>set_status_status = 0\<rparr> (co_payload ?o))
        (?o\<lparr>co_msg_type := msg_code MSG_SET_STATUS\<rparr>) c c = (CLIENT_BUILD_COMMAND_ERR_OK, out', c')"
      using s by (simp add: build_lobby_def split: if_splits)
    from payload_OK(3) [OF this] show ?thesis by (simp add: R del: msg_code.simps)
  qed
  have move: "is_request (command_message out')" if m: "build_move ch now ?o c = Some (CLIENT_BUILD_COMMAND_ERR_OK, out', c')"
  proof -
    have "with_payload (proto_encode_move_attempt_payload \<lparr>move_direction = direction_of ch\<rparr> (co_payload ?o))
        (?o\<lparr>co_msg_type := msg_code MSG_MOVE_ATTEMPT\<rparr>) c (c\<lparr>cc_ts_last_move := now\<rparr>) = (CLIENT_BUILD_COMMAND_ERR_OK, out', c')"
      using m by (simp add: build_move_def Let_def split: if_splits)
    from payload_OK(1) [OF this] show ?thesis by (simp add: R del: msg_code.simps)
  qed
  have bomb: "is_request (command_message out')" if b: "build_bomb ?o c = (CLIENT_BUILD_COMMAND_ERR_OK, out', c')"
  proof -
    obtain v where "with_payload (proto_encode_bomb_attempt_payload \<lparr>bomb_attempt_cell_index = v\<rparr> (co_payload ?o))
        (?o\<lparr>co_msg_type := msg_code MSG_BOMB_ATTEMPT\<rparr>) c c = (CLIENT_BUILD_COMMAND_ERR_OK, out', c')"
      using b by (auto simp: build_bomb_def Let_def split: if_splits option.splits)
    from payload_OK(2) [OF this] show ?thesis by (simp add: R del: msg_code.simps)
  qed
  have plain: "is_request (command_message (?o\<lparr>co_msg_type := msg_code m\<rparr>))" if "m \<in> {MSG_SET_READY, MSG_PING}" for m
  proof -
    have "command_message (?o\<lparr>co_msg_type := msg_code m\<rparr>) =
        (\<lparr>h_msg_type = msg_code m, h_sender_id = co_sender_id ?o, h_target_id = 255\<rparr>, [])"
      using start by (simp add: command_message_def)
    then show ?thesis using that by (auto simp: request_iff simp del: msg_code.simps)
  qed
  show ?thesis
    using assms status move bomb plain
    by (auto simp: client_build_command_def Let_def build_ready_def simp del: msg_code.simps split: if_splits)
qed

section \<open>A step of the client\<close>

text \<open>What every step promises: the invariant is kept and everything that is sent is a request.\<close>

definition client_step_ok :: "client_io \<Rightarrow> client_io \<Rightarrow> bool" where
  "client_step_ok io io' \<longleftrightarrow> (client_ok (cctx (fst io)) \<longrightarrow> client_ok (cctx (fst io'))) \<and>
     (\<exists>new. cs_sent (fst io') = cs_sent (fst io) @ new \<and> (\<forall>m \<in> set new. is_request m))"

lemma client_step_ok_trans: "client_step_ok x y \<Longrightarrow> client_step_ok y z \<Longrightarrow> client_step_ok x z"
  unfolding client_step_ok_def by (elim conjE exE) (auto intro: exI [of _ "new @ new'" for new new'])

lemma client_step_okI:
  assumes "client_ok (cctx s) \<Longrightarrow> client_ok (cctx t)" "cs_sent t = cs_sent s @ new" "\<forall>m \<in> set new. is_request m"
  shows "client_step_ok (s, i) (t, j)"
  using assms by (auto simp: client_step_ok_def)

lemmas quiet_step = client_step_okI [where new = "[]", simplified]

fun repeat_op :: "nat \<Rightarrow> ('a \<Rightarrow> 'a outcome) \<Rightarrow> 'a \<Rightarrow> 'a outcome" where
  "repeat_op 0 f x = Done x"
| "repeat_op (Suc k) f x = and_then (f x) (repeat_op k f)"

locale client_op =
  fixes f :: "client_io \<Rightarrow> client_io outcome"
  assumes step: "f io = Done io' \<Longrightarrow> client_step_ok io io'"
begin

lemma after: "f io = Done (s, inb) \<Longrightarrow> client_step_ok (s, inb) io' \<Longrightarrow> client_step_ok io io'"
  using step client_step_ok_trans by blast

lemma repeated: "repeat_op k f io = Done io' \<Longrightarrow> client_step_ok io io'"
proof (induction k arbitrary: io)
  case 0
  then show ?case by (simp add: client_step_ok_def)
next
  case (Suc k)
  then obtain io1 where "f io = Done io1" "repeat_op k f io1 = Done io'" by (auto simp: and_then_Done)
  then show ?case using Suc.IH step client_step_ok_trans by blast
qed

end

lemma stop_step [simp]: "cctx (stop s) = (cctx s)\<lparr>cc_running := False\<rparr>" "cs_sent (stop s) = cs_sent s"
  by (simp_all add: stop_def)

lemma ok_stop: "client_ok c \<Longrightarrow> client_ok (c\<lparr>cc_running := b\<rparr>)"
  by (rule ok_intros)

lemma on_map_sent: "cs_sent (on_map p s) = cs_sent s"
  by (auto simp: on_map_def apply_map_payload_def c_calloc_def Let_def split: option.split)

lemma message_sent:
  assumes "client_handle_server_message h p s = Some (rc, t)"
  shows "cs_sent t = cs_sent s @ (if h_msg_type h = msg_code MSG_PING
    then [(\<lparr>h_msg_type = msg_code MSG_PONG, h_sender_id = cc_player_id (cctx s), h_target_id = SERVER_ENDPOINT_ID\<rparr>, [])] else [])"
proof (cases "msg_type_of (h_msg_type h)")
  case None
  then have "h_msg_type h \<noteq> msg_code MSG_PING" using msg_type_of_code [of MSG_PING] by fastforce
  then show ?thesis using assms None by (auto simp: client_handle_server_message_def Let_def)
next
  case (Some m)
  then have "h_msg_type h = msg_code m" by (rule msg_type_of_SomeD)
  then show ?thesis using assms Some
    by (cases m) (auto simp: client_handle_server_message_def Let_def on_map_sent split: prod.splits)
qed

interpretation from_server: client_op handle_fd_server
proof unfold_locales
  fix io io' assume d: "handle_fd_server io = Done io'"
  obtain s inb where io: "io = (s, inb)" by (cases io)
  show "client_step_ok io io'"
  proof (cases "receive_message (-1) inb")
    case (Some r)
    obtain res inb' where r: "r = (res, inb')" by (cases r)
    show ?thesis
    proof (cases res)
      case None
      then show ?thesis using d by (auto simp: io handle_fd_server_def Some r intro!: quiet_step ok_stop)
    next
      case (Some m)
      then obtain rc t where t: "client_handle_server_message (fst m) (snd m) s = Some (rc, t)"
          "io' = (if rc \<noteq> 0 then stop t else t, inb')"
        using d \<open>receive_message (-1) inb = Some r\<close> by (auto simp: io handle_fd_server_def r split: option.splits prod.splits)
      show ?thesis unfolding io t(2)
        using message_sent [OF t(1)] message_keeps_ok [OF t(1)]
        by (intro client_step_okI [where new = "if h_msg_type (fst m) = msg_code MSG_PING then [_] else []"])
          (auto simp: request_iff ok_stop simp del: msg_code.simps)
    qed
  qed (use d in \<open>simp add: io handle_fd_server_def\<close>)
qed

lemma input_keeps:
  assumes "handle_fd_input answer now rc s = Done t"
  shows "client_step_ok (s, i) (t, j)"
proof (cases answer)
  case Stdin_Error
  then show ?thesis using assms by (auto simp: handle_fd_input_def intro!: quiet_step)
next
  case (Stdin_Char ch)
  let ?blank = "\<lparr>co_msg_type = 0, co_sender_id = 0, co_target_id = 0, co_payload = replicate 64 0,
    co_payload_len = 0, co_should_quit = False\<rparr>"
  obtain e out c where cmd: "client_build_command ch now ?blank (cctx s) = Some (e, out, c)"
    using assms Stdin_Char by (auto simp: handle_fd_input_def Let_def split: option.splits)
  let ?new = "if e = CLIENT_BUILD_COMMAND_ERR_OK then [command_message out] else []"
  have t: "cctx t = c \<or> cctx t = c\<lparr>cc_running := False\<rparr>" "cs_sent t = cs_sent s @ ?new"
    using assms Stdin_Char cmd by (auto simp: handle_fd_input_def Let_def command_message_def)
  show ?thesis
    using t(1) command_keeps_ok [OF cmd] command_is_request [of ch now ?blank "cctx s" out c] cmd
    by (intro client_step_okI [where new = ?new]) (auto simp: t(2) ok_stop)
qed

interpretation iteration: client_op "\<lambda>io. and_then (client_iteration inp io) (\<lambda>(left, io). Done io)" for inp
proof unfold_locales
  fix io io' assume "and_then (client_iteration inp io) (\<lambda>(left, io). Done io) = Done io'"
  then obtain b where d: "client_iteration inp io = Done (b, io')" by (auto simp: and_then_Done)
  obtain s inb where io: "io = (s, inb)" by (cases io)
  show "client_step_ok io io'"
  proof (cases "ci_select_failed inp")
    case True
    then show ?thesis using d by (simp add: client_iteration_def client_step_ok_def)
  next
    case False
    define s1 where "s1 = (case ci_signals inp of None \<Rightarrow> s | Some sigs \<Rightarrow> handle_fd_sigthread sigs s)"
    have "cs_sent (handle_fd_sigthread sigs s) = cs_sent s \<and> (client_ok (cctx s) \<longrightarrow> client_ok (cctx (handle_fd_sigthread sigs s)))" for sigs
      unfolding handle_fd_sigthread_def by (induction sigs arbitrary: s) (auto simp: ok_stop)
    then have a: "client_step_ok io (s1, inb)" unfolding io s1_def by (intro quiet_step) (auto split: option.split)
    have io1: "(case ci_signals inp of None \<Rightarrow> io | Some sigs \<Rightarrow> (handle_fd_sigthread sigs (fst io), snd io)) = (s1, inb)"
      by (simp add: io s1_def split: option.split)
    obtain io2 s3 where
      b: "(if ci_server_ready inp then handle_fd_server (s1, inb) else Done (s1, inb)) = Done io2" and
      c: "(case ci_stdin inp of None \<Rightarrow> Done (fst io2)
          | Some answer \<Rightarrow> handle_fd_input answer (ci_now inp) (ci_send_rc inp) (fst io2)) = Done s3" "io' = (s3, snd io2)"
      using d False unfolding client_iteration_def io1 Let_def and_then_Done by (auto simp: and_then_Done)
    have "client_step_ok (s1, inb) io2"
      using b from_server.step [of "(s1, inb)" io2] by (cases "ci_server_ready inp") (simp_all add: client_step_ok_def)
    moreover have "client_step_ok (fst io2, snd io2) (s3, snd io2)"
      using c(1) input_keeps [of _ _ _ "fst io2" s3 "snd io2" "snd io2"] by (cases "ci_stdin inp") (auto simp: client_step_ok_def)
    ultimately show ?thesis using a client_step_ok_trans unfolding c(2) prod.collapse by blast
  qed
qed

lemma main_loop_keeps: "client_main_loop inps io = Done (ended, io') \<Longrightarrow> client_step_ok io io'"
proof (induction inps arbitrary: io)
  case Nil
  then show ?case by (simp add: client_step_ok_def)
next
  case (Cons inp inps)
  show ?case
  proof (cases "cc_running (cctx (fst io))")
    case False
    then show ?thesis using Cons.prems by (simp add: client_step_ok_def)
  next
    case True
    then obtain left io1 where one: "client_iteration inp io = Done (left, io1)"
      "(if left then Done (True, io1) else client_main_loop inps io1) = Done (ended, io')"
      using Cons.prems by (auto simp: and_then_Done)
    have "client_step_ok io io1" by (rule iteration.step [where inp = inp]) (simp add: one(1))
    then show ?thesis using one(2) Cons.IH client_step_ok_trans by (auto split: if_splits)
  qed
qed

section \<open>A session\<close>

definition hello_message :: "client_ctx_t \<Rightarrow> msg_header_t \<times> u8 list" where
  "hello_message c = (\<lparr>h_msg_type = msg_code MSG_HELLO, h_sender_id = SERVER_ENDPOINT_ID, h_target_id = SERVER_ENDPOINT_ID\<rparr>,
     hello_wire (client_hello c))"

definition leave_message :: "client_ctx_t \<Rightarrow> msg_header_t \<times> u8 list" where
  "leave_message c = (\<lparr>h_msg_type = msg_code MSG_LEAVE,
     h_sender_id = if cc_has_welcome c then cc_player_id c else SERVER_ENDPOINT_ID, h_target_id = SERVER_ENDPOINT_ID\<rparr>, [])"

lemma client_hello_shaped: "hello_shaped (client_hello c)"
  by (simp add: hello_shaped_def client_hello_def Let_def)

lemma send_hello_eq: "send_hello rc s = (rc, s\<lparr>cs_sent := cs_sent s @ [hello_message (cctx s)]\<rparr>)"
  using hello.payload_eq [OF client_hello_shaped TrueI, of _ 128]
  by (simp add: send_hello_def client_send_def hello_message_def)

lemma greetings_sendable: "sendable (hello_message c)" "sendable (leave_message c)"
  by (simp_all add: sendable_def hello_message_def leave_message_def fixed_well_framed msg_type_fixed_payload_size_def
      del: msg_code.simps)

lemma init_ok: "client_ok (client_init name fd)"
  by (simp add: client_ok_def client_init_def gs_init_def init_player_def zero_player_def client_map_ok_def qlog_ok_def
      unat_of_nat_u8 del: of_nat_Suc of_nat_add)

lemma session_shape:
  assumes "client_main a inps inb = Done (Some 0, s, inb')"
  shows "\<exists>requests c. cs_sent s = hello_message (client_init (ca_name a) (ca_fd a)) # requests @ [leave_message c] \<and>
    (\<forall>m \<in> set requests. is_request m) \<and> client_ok c \<and> cctx s = upd_cstate gs_free c"
proof -
  let ?c0 = "client_init (ca_name a) (ca_fd a)"
  let ?s0 = "\<lparr>cctx = ?c0, cs_sent = [], cs_calloc = ca_calloc a, cs_calloc_pos = 0\<rparr>"
  let ?s1 = "upd_cctx (qlogf (text_of ''client started'')) (?s0\<lparr>cs_sent := [hello_message ?c0]\<rparr>)"
  obtain t inb1 where run: "client_main_loop inps (?s1, inb) = Done (True, t, inb1)"
      "s = upd_cctx (upd_cstate gs_free) (snd (send_leave (ca_leave_rc a) t))"
    using assms by (auto simp: client_main_def Let_def send_hello_eq and_then_Done split: if_splits)
  have "client_step_ok (?s1, inb) (t, inb1)" by (rule main_loop_keeps [OF run(1)])
  moreover have "client_ok (cctx ?s1)" using ok_qlogf [OF init_ok] by simp
  ultimately obtain new where "client_ok (cctx t)" "cs_sent t = cs_sent ?s1 @ new" "\<forall>m \<in> set new. is_request m"
    by (auto simp: client_step_ok_def)
  then show ?thesis unfolding run(2)
    by (intro exI [of _ new] exI [of _ "cctx t"]) (simp add: send_leave_def leave_message_def)
qed

end
