(* ===== verification/Client_Stream.thy ===== *)
theory Client_Stream
  imports Client_Run
begin

text \<open>
  The client and the stream of bytes it reads: whatever the pieces in which the bytes arrive, it
  handles exactly the messages that were framed into them, one after the other.
\<close>

fun apply_messages :: "(msg_header_t \<times> u8 list) list \<Rightarrow> client_sys \<Rightarrow> client_sys option" where
  "apply_messages [] s = Some s"
| "apply_messages (m # ms) s =
     (case client_handle_server_message (fst m) (snd m) s of
        None \<Rightarrow> None
      | Some (rc, t) \<Rightarrow> apply_messages ms (if rc \<noteq> 0 then stop t else t))"

lemma apply_append:
  "apply_messages (ms @ ns) s = (case apply_messages ms s of None \<Rightarrow> None | Some t \<Rightarrow> apply_messages ns t)"
  by (induction ms arbitrary: s) (simp_all split: option.split prod.split)

lemma apply_keeps_ok: "apply_messages ms s = Some t \<Longrightarrow> client_ok (cctx s) \<Longrightarrow> client_ok (cctx t)"
proof (induction ms arbitrary: s)
  case (Cons m ms)
  then obtain rc u where u: "client_handle_server_message (fst m) (snd m) s = Some (rc, u)"
      "apply_messages ms (if rc \<noteq> 0 then stop u else u) = Some t"
    by (auto split: option.splits)
  have "client_ok (cctx u)" by (rule message_keeps_ok [OF u(1) Cons.prems(2)])
  then show ?case using Cons.IH [OF u(2)] by (simp add: ok_stop)
qed simp

lemma handle_one:
  assumes "receive_message (-1) inb = Some (Some m, inb')"
  shows "handle_fd_server (s, inb) = (case client_handle_server_message (fst m) (snd m) s of
    None \<Rightarrow> Undefined | Some (rc, t) \<Rightarrow> Done (if rc \<noteq> 0 then stop t else t, inb'))"
  using assms by (cases m) (simp add: handle_fd_server_def)

lemma stream_applied:
  assumes "in_stream inb = concat (map frame ms) @ r" "\<forall>m \<in> set ms. sendable m"
    and "steady (-1) (length (concat (map frame ms)) + extra) inb"
  shows "\<exists>inb'. in_stream inb' = r \<and> repeat_op (length ms) handle_fd_server (s, inb) =
    (case apply_messages ms s of None \<Rightarrow> Undefined | Some t \<Rightarrow> Done (t, inb'))"
  using assms
proof (induction ms arbitrary: inb s)
  case (Cons m ms)
  have "in_stream inb = frame m @ (concat (map frame ms) @ r)" "sendable m"
    "steady (-1) (length (frame m) + (length (concat (map frame ms)) + extra)) inb"
    using Cons.prems by (simp_all add: add.assoc)
  from receive_message_live [OF this] obtain inb1 where
    one: "receive_message (-1) inb = Some (Some m, inb1)" "in_stream inb1 = concat (map frame ms) @ r"
    "steady (-1) (length (concat (map frame ms)) + extra) inb1" by blast
  show ?case
  proof (cases "client_handle_server_message (fst m) (snd m) s")
    case None
    then show ?thesis using handle_one [OF one(1), of s] by (intro exI [of _ "inb\<lparr>in_stream := r\<rparr>"]) simp
  next
    case (Some q)
    obtain rc t where q: "q = (rc, t)" by (cases q)
    show ?thesis using Cons.IH [OF one(2) _ one(3), of "if rc \<noteq> 0 then stop t else t"] Cons.prems(2) Some handle_one [OF one(1), of s]
      by (simp add: q)
  qed
qed (simp add: exI [of _ inb])

end
