(* ===== verification/Mirror.thy ===== *)
theory Mirror
  imports Handler_Wire Client_Stream
begin

text \<open>
  Server and client together.  \<open>agrees D\<close> compares the map of a client with the server's cell by cell;
  with equality for \<open>D\<close> and the same status and players it is \<open>mirrors\<close>.  This theory shows what each
  message does to these relations; the requests of a round and the tick build on it.
\<close>

section \<open>The relations\<close>

text \<open>What the board messages say of a player: everything but the name.\<close>

definition player_view :: "player_t \<Rightarrow> player_t" where
  "player_view p = p\<lparr>pl_name := []\<rparr>"

lemma player_view_eq: "player_view p = player_view q \<longleftrightarrow> pl_id p = pl_id q \<and> pl_lives p = pl_lives q \<and>
    pl_row p = pl_row q \<and> pl_col p = pl_col q \<and> pl_alive p = pl_alive q \<and> pl_ready p = pl_ready q \<and>
    pl_bomb_count p = pl_bomb_count q \<and> pl_bomb_radius p = pl_bomb_radius q \<and>
    pl_bomb_timer_ticks p = pl_bomb_timer_ticks q \<and> pl_speed p = pl_speed q"
  by (cases p; cases q) (auto simp: player_view_def)

definition same_players :: "client_ctx_t \<Rightarrow> server_ctx_t \<Rightarrow> bool" where
  "same_players t c \<longleftrightarrow> (\<forall>i < MAX_PLAYERS. if cl_active (clients c ! i)
     then player_view (gs_players (cc_state t) ! i) = player_view (players c ! i)
     else \<not> pl_alive (gs_players (cc_state t) ! i))"

definition mirrors :: "client_ctx_t \<Rightarrow> server_ctx_t \<Rightarrow> bool" where
  "mirrors t c \<longleftrightarrow> client_ok t \<and> gs_map (cc_state t) = game_map c \<and> gs_status (cc_state t) = gs_status (state c) \<and>
     same_players t c"

lemma mirrorsD: "mirrors t c \<Longrightarrow> client_ok t" "mirrors t c \<Longrightarrow> gs_map (cc_state t) = game_map c"
  by (simp_all add: mirrors_def)

text \<open>
  \<open>D r k v w\<close> says that a client may show \<open>v\<close> where the server has \<open>w\<close> in row \<open>r\<close> and column \<open>k\<close>.
\<close>

type_synonym cell_rel = "u16 \<Rightarrow> u16 \<Rightarrow> u8 \<Rightarrow> u8 \<Rightarrow> bool"

definition agrees :: "cell_rel \<Rightarrow> client_ctx_t \<Rightarrow> server_ctx_t \<Rightarrow> bool" where
  "agrees D t c \<longleftrightarrow> client_ok t \<and> wf_map (gs_map (cc_state t)) \<and>
     map_rows (gs_map (cc_state t)) = map_rows (game_map c) \<and> map_cols (gs_map (cc_state t)) = map_cols (game_map c) \<and>
     (\<forall>r k. in_map c r k \<longrightarrow> D r k (gs_cell_get (cc_state t) r k) (gs_cell_get (state c) r k))"

text \<open>The whole game, and the fire that the client shows.\<close>

definition tracks :: "cell_rel \<Rightarrow> u16 list \<Rightarrow> client_ctx_t \<Rightarrow> server_ctx_t \<Rightarrow> bool" where
  "tracks D fire t c \<longleftrightarrow> agrees D t c \<and> cc_explosions t = fire \<and> gs_status (cc_state t) = gs_status (state c) \<and>
     same_players t c"

lemma agreesD:
  assumes "agrees D t c"
  shows "client_ok t" "wf_map (gs_map (cc_state t))" "map_rows (gs_map (cc_state t)) = map_rows (game_map c)"
    "map_cols (gs_map (cc_state t)) = map_cols (game_map c)"
    "in_map c r k \<Longrightarrow> D r k (gs_cell_get (cc_state t) r k) (gs_cell_get (state c) r k)"
  using assms by (simp_all add: agrees_def)

lemma tracksD:
  assumes "tracks D fire t c"
  shows "agrees D t c" "cc_explosions t = fire" "gs_status (cc_state t) = gs_status (state c)" "same_players t c"
  using assms by (simp_all add: tracks_def)

lemma agrees_cong:
  assumes "agrees D t c" "client_ok t'" "gs_map (cc_state t') = gs_map (cc_state t)" "game_map c' = game_map c"
  shows "agrees D t' c'"
  using assms cell_get_state_cong [OF assms(3)] cell_get_state_cong [of "state c'" "state c"]
  by (simp add: agrees_def in_map_def)

text \<open>The messages that reach one descriptor.\<close>

definition message_of :: "packet \<Rightarrow> msg_header_t \<times> u8 list" where
  "message_of p = (\<lparr>h_msg_type = pk_type p, h_sender_id = pk_sender p, h_target_id = pk_target p\<rparr>, pk_payload p)"

definition delivered :: "int \<Rightarrow> packet list \<Rightarrow> (msg_header_t \<times> u8 list) list" where
  "delivered fd ps = map message_of (filter (\<lambda>p. pk_fd p = fd) ps)"

lemma delivered_append: "delivered fd (ps @ qs) = delivered fd ps @ delivered fd qs"
  by (simp add: delivered_def)

lemma filter_one: "distinct xs \<Longrightarrow> j \<in> set xs \<Longrightarrow> filter (\<lambda>i. i = j) xs = [j]"
  by (induction xs) (auto simp: filter_empty_conv)

lemma active_slots_distinct: "distinct (active_slots c)"
  by (simp add: active_slots_def)

lemma active_fd:
  assumes "fds_ok c" "j \<in> set (active_slots c)"
  shows "filter (\<lambda>i. cl_fd (clients c ! i) = cl_fd (clients c ! j)) (active_slots c) = [j]"
proof -
  have "cl_fd (clients c ! i) = cl_fd (clients c ! j) \<longleftrightarrow> i = j" if "i \<in> set (active_slots c)" for i
    using assms that by (auto simp: fds_ok_def active_slots_def)
  then have "filter (\<lambda>i. cl_fd (clients c ! i) = cl_fd (clients c ! j)) (active_slots c) = filter (\<lambda>i. i = j) (active_slots c)"
    by (intro filter_cong) simp_all
  also have "\<dots> = [j]"
    by (rule filter_one [OF active_slots_distinct assms(2)])
  finally show ?thesis .
qed

lemma delivered_each:
  assumes "fds_ok c" "j \<in> set (active_slots c)"
  shows "delivered (cl_fd (clients c ! j)) (map (\<lambda>i. packet_to (clients c ! i) t sid (tgt i) p) (active_slots c)) =
    [(\<lparr>h_msg_type = t, h_sender_id = sid, h_target_id = tgt j\<rparr>, p)]"
  using active_fd [OF assms] by (simp add: delivered_def message_of_def packet_to_def filter_map o_def)

text \<open>Two well-formed maps of the same size with the same cells are equal.\<close>

lemma map_eqI:
  assumes "wf_map (gs_map a)" "wf_map (gs_map b)" "map_rows (gs_map a) = map_rows (gs_map b)"
    "map_cols (gs_map a) = map_cols (gs_map b)" "\<And>r k. gs_cell_get a r k = gs_cell_get b r k"
  shows "gs_map a = gs_map b"
proof -
  let ?rows = "map_rows (gs_map a)" and ?cols = "map_cols (gs_map a)"
  obtain xs ys where cells: "map_cells (gs_map a) = Some xs" "map_cells (gs_map b) = Some ys"
    "length xs = unat ?rows * unat ?cols" "length ys = unat ?rows * unat ?cols" "unat ?rows * unat ?cols \<le> 65025"
    using assms(1-4) by (auto simp: wf_map_def)
  have "xs ! n = ys ! n" if n: "n < unat ?rows * unat ?cols" for n
  proof -
    have idx: "unat (of_nat n :: u16) = n" using n cells(5) by (intro unat_of_nat_u16) simp
    have "?cols \<noteq> 0" using n by (cases "?cols = 0") simp_all
    then obtain r k where rk: "split_cell_index (of_nat n) ?cols = Some (r, k)" by (simp add: split_cell_index_def)
    from split_cell_index_bounds [OF rk, of ?rows] n idx
    have b: "r < ?rows" "k < ?cols" "make_cell_index r k ?cols = of_nat n" by simp_all
    then have "gs_in_bounds a r k" "gs_in_bounds b r k" using assms(3,4) cells(1,2) by (simp_all add: gs_in_bounds_def)
    then show ?thesis using assms(5) [of r k] b(3) idx cells(1,2) assms(4) by (simp add: gs_cell_get_def)
  qed
  then have "xs = ys" using cells(3,4) by (intro nth_equalityI) simp_all
  then show ?thesis using assms(3,4) cells(1,2) by (cases "gs_map a"; cases "gs_map b") simp
qed

lemma outside_map: "wf_map (gs_map st) \<Longrightarrow> \<not> (r < map_rows (gs_map st) \<and> k < map_cols (gs_map st)) \<Longrightarrow> gs_cell_get st r k = CELL_HARD"
  by (simp add: gs_cell_get_def wf_in_bounds)

lemma mirrors_tracks:
  assumes "board_ok c"
  shows "mirrors t c \<longleftrightarrow> tracks (\<lambda>_ _. (=)) (cc_explosions t) t c"
proof
  have wf: "wf_map (game_map c)" using assms by (simp add: board_ok_def)
  show "tracks (\<lambda>_ _. (=)) (cc_explosions t) t c" if "mirrors t c"
    using that wf cell_get_state_cong [of "cc_state t" "state c"] by (simp add: tracks_def agrees_def mirrors_def)
  assume T: "tracks (\<lambda>_ _. (=)) (cc_explosions t) t c"
  note A = agreesD [OF tracksD(1) [OF T]]
  have "gs_cell_get (cc_state t) r k = gs_cell_get (state c) r k" for r k
    using A(5) [of r k] outside_map [OF A(2), of r k] outside_map [OF wf, of r k] A(3,4)
    by (cases "in_map c r k") (auto simp: in_map_def)
  then have "gs_map (cc_state t) = game_map c" by (rule map_eqI [OF A(2) wf A(3,4)])
  then show "mirrors t c" using T A(1) by (simp add: mirrors_def tracks_def)
qed

section \<open>The map and the board\<close>

lemma blank_shaped: "map_shaped blank_map" "sync_shaped blank_sync"
  by (simp_all add: map_shaped_def blank_map_def sync_shaped_def blank_sync_def)

lemma word_eq_by_unat: "unat (a :: u8) = unat (b :: u16) \<Longrightarrow> ucast a = b"
  by (simp add: word_unat_eq_iff)

lemma map_arrives:
  assumes "board_ok c" "cs_calloc s (cs_calloc_pos s)"
  shows "cctx (on_map (map_wire (map_message c)) s) = upd_cstate (\<lambda>st. st\<lparr>gs_map := game_map c\<rparr>) (cctx s)"
proof -
  obtain m where m: "proto_decode_map_payload blank_map (map_wire (map_message c)) = Some m"
    "unat (mm_rows m) = unat (map_rows (game_map c))" "unat (mm_cols m) = unat (map_cols (game_map c))"
    using map_decoded [OF assms(1) blank_shaped(1)] by blast
  obtain cs where cs: "map_cells (game_map c) = Some cs" using assms(1) by (auto simp: board_ok_def wf_map_def)
  have "drop 2 (map_wire (map_message c)) = cs" using map_message_sent(5) [OF assms(1)] cs by (simp add: map_wire_def)
  then have "\<lparr>map_rows = ucast (mm_rows m), map_cols = ucast (mm_cols m), map_cells = Some (drop 2 (map_wire (map_message c)))\<rparr> =
      game_map c"
    using word_eq_by_unat [OF m(2)] word_eq_by_unat [OF m(3)] cs by simp
  then show ?thesis using on_map_done [OF m(1) assms(2)] by simp
qed

text \<open>The loop over the players of the message.\<close>

lemma overwrite_player:
  fixes p own :: player_t
  shows "own\<lparr>pl_id := pl_id p, pl_row := pl_row p, pl_col := pl_col p, pl_alive := pl_alive p, pl_ready := pl_ready p,
     pl_lives := pl_lives p, pl_bomb_count := pl_bomb_count p, pl_bomb_radius := pl_bomb_radius p,
     pl_bomb_timer_ticks := pl_bomb_timer_ticks p, pl_speed := pl_speed p\<rparr> = p\<lparr>pl_name := pl_name own\<rparr>"
  by (cases p; cases own) simp

lemma sync_player_one:
  assumes "pl_id p = of_nat (Suc i)" "i < MAX_PLAYERS" "pl_row p < map_rows m" "pl_col p < map_cols m" "wf_map m"
    "gs_map (cc_state t) = m" "length (gs_players (cc_state t)) = MAX_PLAYERS"
  shows "sync_player (sync_player_of (map_cols m) p) t = upd_cplayer i (\<lambda>own. p\<lparr>pl_name := pl_name own\<rparr>) t"
proof -
  have id: "unat (pl_id p) = Suc i" unfolding assms(1) using assms(2) by (intro unat_of_nat_u8) simp
  then have "is_player_id (pl_id p)" using assms(2) by (simp add: player_id_range) (metis One_nat_def id nat.simps(3) unat_0)
  moreover have "map_cols m \<noteq> 0" using assms(4) by (auto simp: word_less_nat_alt)
  moreover have "split_cell_index (make_cell_index (pl_row p) (pl_col p) (map_cols m)) (map_cols m) = Some (pl_row p, pl_col p)"
    using assms(3-5) by (intro split_make_cell_index) (auto simp: wf_map_def)
  ultimately show ?thesis
    using assms(6) id by (simp add: sync_player_def sync_player_of_def overwrite_player)
qed

text \<open>The players of the slots in \<open>is\<close> are overwritten, one after the other, but for their names.\<close>

lemma sync_fold:
  assumes "distinct is" "set is \<subseteq> {..<MAX_PLAYERS}" "wf_map m" "gs_map (cc_state t) = m"
    "length (gs_players (cc_state t)) = MAX_PLAYERS"
    and q: "\<And>i. i \<in> set is \<Longrightarrow> pl_id (q i) = of_nat (Suc i) \<and> pl_row (q i) < map_rows m \<and> pl_col (q i) < map_cols m"
  shows "fold (\<lambda>i. sync_player (sync_player_of (map_cols m) (q i))) is t =
    upd_cstate (\<lambda>st. st\<lparr>gs_players := imap (\<lambda>i own. if i \<in> set is then (q i)\<lparr>pl_name := pl_name own\<rparr> else own) (gs_players st)\<rparr>) t"
  using assms
proof (induction "is" arbitrary: t)
  case Nil
  then show ?case by (cases t; cases "cc_state t") (simp add: upd_cstate_def imap_ident)
next
  case (Cons i "is")
  let ?t1 = "upd_cplayer i (\<lambda>own. (q i)\<lparr>pl_name := pl_name own\<rparr>) t"
  have one: "sync_player (sync_player_of (map_cols m) (q i)) t = ?t1"
    using Cons.prems by (intro sync_player_one) auto
  have rest: "fold (\<lambda>i. sync_player (sync_player_of (map_cols m) (q i))) is ?t1 =
    upd_cstate (\<lambda>st. st\<lparr>gs_players := imap (\<lambda>i own. if i \<in> set is then (q i)\<lparr>pl_name := pl_name own\<rparr> else own) (gs_players st)\<rparr>) ?t1"
    using Cons.prems by (intro Cons.IH) (auto simp: upd_cplayer_def upd_cstate_def)
  have "imap (\<lambda>j own. if j \<in> set is then (q j)\<lparr>pl_name := pl_name own\<rparr> else own)
      ((gs_players (cc_state t))[i := (q i)\<lparr>pl_name := pl_name (gs_players (cc_state t) ! i)\<rparr>]) =
    imap (\<lambda>j own. if j \<in> set (i # is) then (q j)\<lparr>pl_name := pl_name own\<rparr> else own) (gs_players (cc_state t))"
    using Cons.prems(1,2,5) by (intro nth_equalityI) (auto simp: nth_list_update)
  then show ?case by (simp add: one rest) (simp add: upd_cplayer_def upd_cstate_def)
qed

lemma for_range_nth: "n \<le> length xs \<Longrightarrow> for_range n (\<lambda>i. f (xs ! i)) s = fold f (take n xs) s"
  by (induction n) (simp_all add: take_Suc_conv_app_nth)

lemma reset_flags:
  "for_range n (\<lambda>i. upd_cplayer i f) c = upd_cstate (\<lambda>st. st\<lparr>gs_players := for_range n (\<lambda>i ps. ps[i := f (ps ! i)]) (gs_players st)\<rparr>) c"
proof (induction n)
  case 0
  then show ?case by (cases c; cases "cc_state c") (simp add: upd_cstate_def)
next
  case (Suc n)
  then show ?case by (simp add: upd_cplayer_def upd_cstate_def)
qed

lemma status_bytes: "lobby_ok c \<Longrightarrow> ucast (ucast (gs_status (state c)) :: u8) = gs_status (state c)"
  by (auto simp: lobby_ok_def)

text \<open>A board synchronisation makes the client hold the server's status and players, and nothing else.\<close>

lemma sync_state:
  assumes inv: "server_inv c" and ok: "agrees D t c"
  shows "on_sync_board (sync_board_wire (sync_message c)) t = upd_cstate (\<lambda>st. st\<lparr>gs_status := gs_status (state c),
    gs_players := imap (\<lambda>i own. if i \<in> set (active_slots c) then (players c ! i)\<lparr>pl_name := pl_name own\<rparr>
      else own\<lparr>pl_alive := False, pl_ready := False\<rparr>) (gs_players st)\<rparr>) t"
proof -
  note I = server_invD [OF inv] and A = agreesD [OF ok]
  let ?p = "\<lambda>i. sync_player_of (map_cols (game_map c)) (players c ! i)"
  obtain msg where msg: "proto_decode_sync_board_payload blank_sync (sync_board_wire (sync_message c)) = Some msg"
    "sync_status msg = ucast (gs_status (state c))" "unat (sync_player_count msg) = length (active_slots c)"
    "take (length (active_slots c)) (sync_players msg) = active_sync c"
    using sync_decoded [OF blank_shaped(2)] by blast
  have len: "length (gs_players (cc_state t)) = 8" using A(1) by (simp add: client_ok_def)
  define t1 where "t1 = for_range MAX_PLAYERS (\<lambda>i. upd_cplayer i (\<lambda>p. p\<lparr>pl_alive := False, pl_ready := False\<rparr>))
    (upd_cstate (\<lambda>st. st\<lparr>gs_status := gs_status (state c)\<rparr>) t)"
  have t1: "t1 = upd_cstate (\<lambda>st. st\<lparr>gs_status := gs_status (state c),
      gs_players := imap (\<lambda>i p. if i < 8 then p\<lparr>pl_alive := False, pl_ready := False\<rparr> else p) (gs_players st)\<rparr>) t"
    using for_range_update [of 8 "gs_players (cc_state t)" "\<lambda>i p. p\<lparr>pl_alive := False, pl_ready := False\<rparr>"] len
    unfolding t1_def reset_flags by (simp add: upd_cstate_def)
  have more: "length (active_sync c) = length (active_slots c)" by (simp add: active_sync_def)
  have "length (active_slots c) \<le> length (sync_players msg)" using arg_cong [OF msg(4), of length] more by simp
  then have "on_sync_board (sync_board_wire (sync_message c)) t = fold sync_player (active_sync c) t1"
    using msg(3,4) for_range_nth [of "length (active_slots c)" "sync_players msg" sync_player t1]
    unfolding t1_def by (simp add: on_sync_board_def msg(1,2) status_bytes [OF I(8)] Let_def)
  also have "\<dots> = fold (\<lambda>i. sync_player (?p i)) (active_slots c) t1"
    by (simp add: active_sync_def fold_map o_def)
  also have "\<dots> = upd_cstate (\<lambda>st. st\<lparr>gs_players := imap (\<lambda>i own. if i \<in> set (active_slots c)
      then (players c ! i)\<lparr>pl_name := pl_name own\<rparr> else own) (gs_players st)\<rparr>) t1"
    using I(3,4) len A(2-4)
    by (intro sync_fold [OF active_slots_distinct _ A(2), where q = "(!) (players c)", unfolded A(4)])
      (auto simp: active_slots_def ids_ok_def places_ok_def in_map_def t1 upd_cstate_def)
  also have "\<dots> = upd_cstate (\<lambda>st. st\<lparr>gs_status := gs_status (state c),
    gs_players := imap (\<lambda>i own. if i \<in> set (active_slots c) then (players c ! i)\<lparr>pl_name := pl_name own\<rparr>
      else own\<lparr>pl_alive := False, pl_ready := False\<rparr>) (gs_players st)\<rparr>) t"
  proof -
    have "imap (\<lambda>i x. if i \<in> set (active_slots c) then (players c ! i)\<lparr>pl_name := pl_name (if i < 8 then x\<lparr>pl_alive := False, pl_ready := False\<rparr> else x)\<rparr>
        else if i < 8 then x\<lparr>pl_alive := False, pl_ready := False\<rparr> else x) (gs_players (cc_state t)) =
      imap (\<lambda>i own. if i \<in> set (active_slots c) then (players c ! i)\<lparr>pl_name := pl_name own\<rparr>
        else own\<lparr>pl_alive := False, pl_ready := False\<rparr>) (gs_players (cc_state t))"
      using len by (intro nth_equalityI) simp_all
    then show ?thesis by (simp add: t1 upd_cstate_def imap_imap)
  qed
  finally show ?thesis .
qed

lemma sync_arrives:
  assumes inv: "server_inv c" and ok: "agrees D t c"
  shows "tracks D (cc_explosions t) (on_sync_board (sync_board_wire (sync_message c)) t) c"
proof -
  have "agrees D (on_sync_board (sync_board_wire (sync_message c)) t) c"
    by (rule agrees_cong [OF ok ok_ons(5) [OF agreesD(1) [OF ok]]]) (simp_all add: sync_state [OF assms] upd_cstate_def)
  moreover have "length (gs_players (cc_state t)) = 8" using agreesD(1) [OF ok] by (simp add: client_ok_def)
  ultimately show ?thesis
    unfolding tracks_def same_players_def sync_state [OF assms]
    by (auto simp: upd_cstate_def active_slots_def player_view_def)
qed

section \<open>Messages one at a time\<close>

lemma delivered_to_all:
  assumes "fds_ok c" "j \<in> set (active_slots c)"
  shows "delivered (cl_fd (clients c ! j)) (to_all c t sid p) =
    [(\<lparr>h_msg_type = t, h_sender_id = sid, h_target_id = BROADCAST_ENDPOINT_ID\<rparr>, p)]"
  unfolding to_all_def by (rule delivered_each [OF assms, where tgt = "\<lambda>_. 254"])

lemma delivered_sync:
  assumes "fds_ok c" "j \<in> set (active_slots c)"
  shows "delivered (cl_fd (clients c ! j)) (sync_packets c) =
    [(\<lparr>h_msg_type = msg_code MSG_SYNC_BOARD, h_sender_id = SERVER_ENDPOINT_ID, h_target_id = cl_id (clients c ! j)\<rparr>,
      sync_board_wire (sync_message c))]"
  unfolding sync_packets_def by (rule delivered_each [OF assms])

lemma delivered_one:
  "delivered fd [packet_to cl t sid tgt p] = (if cl_fd cl = fd
     then [(\<lparr>h_msg_type = t, h_sender_id = sid, h_target_id = tgt\<rparr>, p)] else [])"
  by (simp add: delivered_def message_of_def packet_to_def)

lemma apply_board_messages:
  "apply_messages ((\<lparr>h_msg_type = msg_code MSG_SYNC_BOARD, h_sender_id = a, h_target_id = b\<rparr>, p) # ms) s =
    apply_messages ms (upd_cctx (on_sync_board p) s)"
  "apply_messages ((\<lparr>h_msg_type = msg_code MSG_MAP, h_sender_id = a, h_target_id = b\<rparr>, p) # ms) s =
    apply_messages ms (on_map p s)"
  "apply_messages ((\<lparr>h_msg_type = msg_code MSG_BOMB, h_sender_id = a, h_target_id = b\<rparr>, p) # ms) s =
    apply_messages ms (upd_cctx (on_bomb p) s)"
  "apply_messages ((\<lparr>h_msg_type = msg_code MSG_MOVED, h_sender_id = a, h_target_id = b\<rparr>, p) # ms) s =
    apply_messages ms (upd_cctx (on_moved p) s)"
  "apply_messages ((\<lparr>h_msg_type = msg_code MSG_BONUS_RETRIEVED, h_sender_id = a, h_target_id = b\<rparr>, p) # ms) s =
    apply_messages ms (upd_cctx (on_bonus_retrieved p) s)"
  "apply_messages ((\<lparr>h_msg_type = msg_code MSG_ERROR, h_sender_id = a, h_target_id = b\<rparr>, p) # ms) s =
    apply_messages ms (upd_cctx (on_error p) s)"
  "apply_messages ((\<lparr>h_msg_type = msg_code MSG_PONG, h_sender_id = a, h_target_id = b\<rparr>, p) # ms) s =
    apply_messages ms (upd_cctx (qlogf (text_of ''[server] pong'')) s)"
  by (simp_all add: client_handle_server_message_def Let_def del: msg_code.simps)

lemma cell_messages:
  "on_bomb (bomb_wire m) c = set_cell_at (bomb_cell_index m) CELL_BOMB c"
  "on_bonus_retrieved (bonus_retrieved_wire b) c = set_cell_at (br_cell_index b) CELL_EMPTY c"
  by (simp_all add: on_bomb_def on_bonus_retrieved_def bomb.dec_wire bonus_retrieved.dec_wire)

lemma set_cell_at_frame [simp]:
  "cc_explosions (set_cell_at idx v c) = cc_explosions c"
  "gs_status (cc_state (set_cell_at idx v c)) = gs_status (cc_state c)"
  "gs_players (cc_state (set_cell_at idx v c)) = gs_players (cc_state c)"
  using gs_cell_set_frame by (auto simp: set_cell_at_def Let_def upd_cstate_def split: option.split prod.split)

lemma set_cell_at_get:
  fixes t :: client_ctx_t and v :: u8
  assumes wf: "wf_map (gs_map (cc_state t))" and rk: "r < map_rows (gs_map (cc_state t))" "k < map_cols (gs_map (cc_state t))"
    and t': "t' = set_cell_at (make_cell_index r k (map_cols (gs_map (cc_state t)))) v t"
  shows "wf_map (gs_map (cc_state t'))" "map_rows (gs_map (cc_state t')) = map_rows (gs_map (cc_state t))"
    "map_cols (gs_map (cc_state t')) = map_cols (gs_map (cc_state t))"
    "gs_cell_get (cc_state t') r' k' = (if r' = r \<and> k' = k then v else gs_cell_get (cc_state t) r' k')"
proof -
  have split: "split_cell_index (make_cell_index r k (map_cols (gs_map (cc_state t)))) (map_cols (gs_map (cc_state t))) = Some (r, k)"
    using wf rk by (intro split_make_cell_index) (auto simp: wf_map_def)
  have "gs_in_bounds (cc_state t) r k" using wf rk by (simp add: wf_in_bounds)
  then obtain st where st: "gs_cell_set (cc_state t) r k v = Some st" using gs_cell_set_Some by blast
  have "map_cols (gs_map (cc_state t)) > 0" using wf by (simp add: wf_map_def)
  then have "cc_state t' = st" by (simp add: t' set_cell_at_def split st upd_cstate_def)
  then show "wf_map (gs_map (cc_state t'))" "map_rows (gs_map (cc_state t')) = map_rows (gs_map (cc_state t))"
    "map_cols (gs_map (cc_state t')) = map_cols (gs_map (cc_state t))"
    "gs_cell_get (cc_state t') r' k' = (if r' = r \<and> k' = k then v else gs_cell_get (cc_state t) r' k')"
    using gs_cell_set_wf [OF wf st] gs_cell_set_frame(5,6) [OF st] gs_cell_get_set [OF wf st] by simp_all
qed

text \<open>A message for one cell.\<close>

lemma cell_arrives:
  assumes A: "agrees D t c" and in_map: "in_map c r k"
    and dims: "map_rows (game_map c') = map_rows (game_map c)" "map_cols (game_map c') = map_cols (game_map c)"
    and here: "D' r k v (gs_cell_get (state c') r k)"
    and there: "\<And>r' k' u. in_map c r' k' \<Longrightarrow> r' \<noteq> r \<or> k' \<noteq> k \<Longrightarrow> D r' k' u (gs_cell_get (state c) r' k') \<Longrightarrow>
      D' r' k' u (gs_cell_get (state c') r' k')"
  shows "agrees D' (set_cell_at (make_cell_index r k (map_cols (game_map c))) v t) c'"
proof -
  note a = agreesD [OF A]
  have "r < map_rows (gs_map (cc_state t))" "k < map_cols (gs_map (cc_state t))" using in_map a(3,4) by (simp_all add: in_map_def)
  note g = set_cell_at_get [OF a(2) this refl, of v, unfolded a(4)]
  have "in_map c' = in_map c" by (simp add: in_map_def fun_eq_iff dims)
  then show ?thesis
    using ok_set_cell_at [OF a(1)] g a(3-5) here there unfolding agrees_def dims by auto
qed

lemma tracks_log:
  assumes "tracks D fire t c"
  shows "tracks D fire (qlogf line t) c" "tracks D fire (on_error p t) c" "tracks D fire (on_winner p t) c"
proof -
  have log: "tracks D fire (qlogf l t) c" for l
    using assms ok_qlogf agrees_cong [of D t c "qlogf l t" c]
    by (auto simp: tracks_def same_players_def agreesD(1))
  then show "tracks D fire (qlogf line t) c" .
  show "tracks D fire (on_error p t) c" "tracks D fire (on_winner p t) c"
    using assms log by (simp_all add: on_error_def on_winner_def split: option.split)
qed

section \<open>Steps that keep a relation\<close>

text \<open>
  \<open>kept R R' s s'\<close>: the step from \<open>s\<close> to \<open>s'\<close> sends such packets that every connected client that was
  related to the server by \<open>R\<close> before and handles what is sent to it is related by \<open>R'\<close> afterwards.
\<close>

definition kept :: "(client_ctx_t \<Rightarrow> server_ctx_t \<Rightarrow> bool) \<Rightarrow> (client_ctx_t \<Rightarrow> server_ctx_t \<Rightarrow> bool) \<Rightarrow>
    server_sys \<Rightarrow> server_sys \<Rightarrow> bool" where
  "kept R R' s s' \<longleftrightarrow> clients (ctx s') = clients (ctx s) \<and>
     (\<exists>new. env_sent (env s') = env_sent (env s) @ new \<and> (\<forall>p \<in> set new. sendable (message_of p)) \<and>
       (\<forall>j \<in> set (active_slots (ctx s)). \<forall>t. R (cctx t) (ctx s) \<longrightarrow>
         (\<exists>t'. apply_messages (delivered (cl_fd (clients (ctx s) ! j)) new) t = Some t' \<and> R' (cctx t') (ctx s'))))"

lemma keptI:
  assumes "clients (ctx s') = clients (ctx s)" "env_sent (env s') = env_sent (env s) @ new"
    and "\<forall>p \<in> set new. sendable (message_of p)"
    and "\<And>j t. j \<in> set (active_slots (ctx s)) \<Longrightarrow> R (cctx t) (ctx s) \<Longrightarrow>
      \<exists>t'. apply_messages (delivered (cl_fd (clients (ctx s) ! j)) new) t = Some t' \<and> R' (cctx t') (ctx s')"
  shows "kept R R' s s'"
  using assms unfolding kept_def by blast

lemma kept_silent:
  assumes "clients (ctx s') = clients (ctx s)" "env_sent (env s') = env_sent (env s)" "\<And>t. R t (ctx s) \<Longrightarrow> R' t (ctx s')"
  shows "kept R R' s s'"
  using assms by (intro keptI [where new = "[]"]) (auto simp: delivered_def)

lemma kept_trans:
  assumes "kept R R' a b" "kept R' R'' b c"
  shows "kept R R'' a c"
proof -
  obtain x y where x: "env_sent (env b) = env_sent (env a) @ x" and fr: "\<forall>p \<in> set (x @ y). sendable (message_of p)" and x2:
    "\<forall>j \<in> set (active_slots (ctx a)). \<forall>t. R (cctx t) (ctx a) \<longrightarrow>
      (\<exists>t'. apply_messages (delivered (cl_fd (clients (ctx a) ! j)) x) t = Some t' \<and> R' (cctx t') (ctx b))"
    and y: "env_sent (env c) = env_sent (env b) @ y" and y2:
    "\<forall>j \<in> set (active_slots (ctx b)). \<forall>t. R' (cctx t) (ctx b) \<longrightarrow>
      (\<exists>t'. apply_messages (delivered (cl_fd (clients (ctx b) ! j)) y) t = Some t' \<and> R'' (cctx t') (ctx c))"
    and same: "clients (ctx b) = clients (ctx a)" "clients (ctx c) = clients (ctx a)"
    using assms unfolding kept_def by (metis Un_iff set_append)
  have "active_slots (ctx b) = active_slots (ctx a)" by (simp add: active_slots_def same)
  then have "\<exists>t'. apply_messages (delivered (cl_fd (clients (ctx a) ! j)) (x @ y)) t = Some t' \<and> R'' (cctx t') (ctx c)"
    if "j \<in> set (active_slots (ctx a))" "R (cctx t) (ctx a)" for j t
    using x2 y2 that same(1) by (fastforce simp: delivered_append apply_append)
  then show ?thesis using x y fr same by (intro keptI [where new = "x @ y"]) auto
qed

lemma kept_sent:
  assumes "kept R R' s s'" "env_sent (env s') = env_sent (env s) @ new" "j \<in> set (active_slots (ctx s))" "R (cctx t) (ctx s)"
  shows "\<exists>t'. apply_messages (delivered (cl_fd (clients (ctx s) ! j)) new) t = Some t' \<and> R' (cctx t') (ctx s')"
  using assms unfolding kept_def by auto

lemma kept_weaken:
  assumes "kept R R' s s'" "\<And>t. R0 t (ctx s) \<Longrightarrow> R t (ctx s)" "\<And>t. R' t (ctx s') \<Longrightarrow> R1 t (ctx s')"
  shows "kept R0 R1 s s'"
  using assms unfolding kept_def by blast

lemma kept_clients: "kept R R' s s' \<Longrightarrow> clients (ctx s') = clients (ctx s)"
  by (simp add: kept_def)

text \<open>Packets and their frames.\<close>

lemma packet_sendable:
  "well_framed t p \<Longrightarrow> length p \<le> 65536 \<Longrightarrow> sendable (message_of (packet_to cl t sid tgt p))"
  by (simp add: sendable_def message_of_def packet_to_def)

lemma to_all_sendable: "well_framed t p \<Longrightarrow> length p \<le> 65536 \<Longrightarrow> \<forall>q \<in> set (to_all c t sid p). sendable (message_of q)"
  by (simp add: to_all_def packet_sendable)

lemma sync_sendable: "\<forall>q \<in> set (sync_packets c). sendable (message_of q)"
proof -
  note S = sync_message_sent [of c]
  have "length (sync_board_wire (sync_message c)) \<le> 65536"
    using length_sync_board_wire [OF S(1,2)] S(2) by (simp add: sync_valid_def)
  then show ?thesis using framed_variable(4) [OF S(1,2)] by (simp add: sync_packets_def packet_sendable del: msg_code.simps)
qed

lemma error_sendable: "sendable (message_of (error_packet c i why))"
proof -
  have "length (error_wire (error_message why)) \<le> 65536"
    using error_message_shaped(2) [of why] by (simp add: error_wire_def error_valid_def)
  then show ?thesis using framed_variable(3) [OF error_message_shaped]
    by (simp add: error_packet_def packet_sendable del: msg_code.simps)
qed

text \<open>One message to everybody.\<close>

lemma kept_told:
  assumes "fds_ok (ctx s)" "clients (ctx s') = clients (ctx s)" "env_sent (env s') = env_sent (env s) @ to_all (ctx s) ty sid p"
    and "well_framed ty p" "length p \<le> 65536"
    and "\<And>t. R (cctx t) (ctx s) \<Longrightarrow> \<exists>t'. client_handle_server_message
        \<lparr>h_msg_type = ty, h_sender_id = sid, h_target_id = BROADCAST_ENDPOINT_ID\<rparr> p t = Some (0, t') \<and> R' (cctx t') (ctx s')"
  shows "kept R R' s s'"
proof (rule keptI [OF assms(2,3) to_all_sendable [OF assms(4,5)]])
  fix j and t :: client_sys assume j: "j \<in> set (active_slots (ctx s))" and "R (cctx t) (ctx s)"
  then obtain t' where "client_handle_server_message \<lparr>h_msg_type = ty, h_sender_id = sid, h_target_id = BROADCAST_ENDPOINT_ID\<rparr> p t
      = Some (0, t')" "R' (cctx t') (ctx s')" using assms(6) by blast
  then show "\<exists>t'. apply_messages (delivered (cl_fd (clients (ctx s) ! j)) (to_all (ctx s) ty sid p)) t = Some t' \<and> R' (cctx t') (ctx s')"
    by (simp add: delivered_to_all [OF assms(1) j])
qed

text \<open>The board to everybody.\<close>

lemma kept_sync:
  assumes inv: "server_inv (ctx s)" and R: "\<And>t. R t (ctx s) \<Longrightarrow> \<exists>D. agrees D t (ctx s) \<and>
    (\<forall>t'. tracks D (cc_explosions t) t' (ctx s) \<longrightarrow> R' t' (ctx s))"
  shows "kept R R' s (server_send_sync_to_all s)"
proof (rule keptI)
  show "env_sent (env (server_send_sync_to_all s)) = env_sent (env s) @ sync_packets (ctx s)" by (simp add: send_sync_emit)
  show "\<forall>p \<in> set (sync_packets (ctx s)). sendable (message_of p)" by (rule sync_sendable)
  fix j and t :: client_sys assume j: "j \<in> set (active_slots (ctx s))" and "R (cctx t) (ctx s)"
  then obtain D where "agrees D (cctx t) (ctx s)" "\<forall>t'. tracks D (cc_explosions (cctx t)) t' (ctx s) \<longrightarrow> R' t' (ctx s)"
    using R by blast
  then have "R' (on_sync_board (sync_board_wire (sync_message (ctx s))) (cctx t)) (ctx s)" using sync_arrives [OF inv] by blast
  then show "\<exists>t'. apply_messages (delivered (cl_fd (clients (ctx s) ! j)) (sync_packets (ctx s))) t = Some t' \<and>
      R' (cctx t') (ctx (server_send_sync_to_all s))"
    by (simp add: delivered_sync [OF server_invD(11) [OF inv] j] apply_board_messages del: msg_code.simps apply_messages.simps(2))
qed simp

text \<open>An interface for whatever happens to the server: every event returns, keeps the invariant, and keeps a relation.\<close>

locale kept_events =
  fixes R :: "client_ctx_t \<Rightarrow> server_ctx_t \<Rightarrow> bool" and serve :: "'r \<Rightarrow> server_sys \<Rightarrow> server_sys option"
    and allowed :: "'r \<Rightarrow> server_client_t list \<Rightarrow> bool"
  assumes keeps: "server_inv (ctx s) \<Longrightarrow> allowed r (clients (ctx s)) \<Longrightarrow>
    \<exists>s'. serve r s = Some s' \<and> server_inv (ctx s') \<and> kept R R s s'"
begin

lemma keeps_all:
  "server_inv (ctx s) \<Longrightarrow> \<forall>r \<in> set rs. allowed r (clients (ctx s)) \<Longrightarrow>
    \<exists>s'. for_opt rs serve s = Some s' \<and> server_inv (ctx s') \<and> kept R R s s'"
proof (induction rs arbitrary: s)
  case Nil
  then show ?case by (auto intro: kept_silent)
next
  case (Cons r rs)
  obtain s1 where s1: "serve r s = Some s1" "server_inv (ctx s1)" "kept R R s s1"
    using keeps [OF Cons.prems(1), of r] Cons.prems(2) by auto
  have "\<forall>r \<in> set rs. allowed r (clients (ctx s1))" using Cons.prems(2) kept_clients [OF s1(3)] by simp
  from Cons.IH [OF s1(2) this] s1 show ?case by (auto intro: kept_trans)
qed

end

end
