(* ===== verification/Mirror_Requests.thy ===== *)
theory Mirror_Requests
  imports Mirror
begin

text \<open>
  What the requests of a round do to the clients: every move, bomb, ping and synchronisation request,
  accepted or refused, keeps every relation \<open>tracks D\<close>, and so keeps every client a mirror.
\<close>

section \<open>Faithful steps\<close>

text \<open>
  A step of the server that leaves its explosions and the size of the map alone and keeps \<open>tracks D\<close>
  for every tolerance \<open>D\<close> that allows equal cells.
\<close>

definition faithful :: "server_sys \<Rightarrow> server_sys \<Rightarrow> bool" where
  "faithful s s' \<longleftrightarrow> server_inv (ctx s') \<and> explosions (ctx s') = explosions (ctx s) \<and>
     map_rows (game_map (ctx s')) = map_rows (game_map (ctx s)) \<and> map_cols (game_map (ctx s')) = map_cols (game_map (ctx s)) \<and>
     (\<forall>D fire. (\<forall>r k v. D r k v v) \<longrightarrow> kept (tracks D fire) (tracks D fire) s s')"

lemma faithfulD:
  assumes "faithful s s'"
  shows "server_inv (ctx s')" "explosions (ctx s') = explosions (ctx s)"
    "map_rows (game_map (ctx s')) = map_rows (game_map (ctx s))" "map_cols (game_map (ctx s')) = map_cols (game_map (ctx s))"
    "(\<And>r k v. D r k v v) \<Longrightarrow> kept (tracks D fire) (tracks D fire) s s'"
  using assms by (simp_all add: faithful_def)

lemma faithful_still: "server_inv (ctx s') \<Longrightarrow> ctx s' = ctx s \<Longrightarrow>
    (\<And>D fire. kept (tracks D fire) (tracks D fire) s s') \<Longrightarrow> faithful s s'"
  by (simp add: faithful_def)

lemma faithful_mirrors:
  assumes "faithful s s'" "server_inv (ctx s)"
  shows "kept mirrors mirrors s s'"
proof -
  have k: "kept (tracks (\<lambda>_ _. (=)) fire) (tracks (\<lambda>_ _. (=)) fire) s s'" for fire by (rule faithfulD(5) [OF assms(1)]) simp
  then obtain new where new: "env_sent (env s') = env_sent (env s) @ new" "\<forall>p \<in> set new. sendable (message_of p)"
    unfolding kept_def by blast
  show ?thesis
  proof (rule keptI [OF kept_clients [OF k] new])
    fix j and t :: client_sys assume j: "j \<in> set (active_slots (ctx s))" and "mirrors (cctx t) (ctx s)"
    then have "tracks (\<lambda>_ _. (=)) (cc_explosions (cctx t)) (cctx t) (ctx s)"
      using mirrors_tracks [OF server_invD(2) [OF assms(2)]] by blast
    from kept_sent [OF k new(1) j this] show "\<exists>t'. apply_messages (delivered (cl_fd (clients (ctx s) ! j)) new) t = Some t' \<and>
        mirrors (cctx t') (ctx s')"
      using mirrors_tracks [OF server_invD(2) [OF faithfulD(1) [OF assms(1)]]] by (metis tracksD(2))
  qed
qed

section \<open>The single requests\<close>

lemma fixed_sendable:
  "\<forall>q \<in> set (to_all c (msg_code MSG_BOMB) sid (bomb_wire b)). sendable (message_of q)"
  "\<forall>q \<in> set (to_all c (msg_code MSG_MOVED) sid (moved_wire m)). sendable (message_of q)"
  "\<forall>q \<in> set (to_all c (msg_code MSG_BONUS_RETRIEVED) sid (bonus_retrieved_wire r)). sendable (message_of q)"
  by (rule to_all_sendable, rule framed_fixed, simp add: fixed_wires u16_bytes_def)+

lemma round_packets_sendable:
  "\<forall>q \<in> set (bomb_packets i idx c). sendable (message_of q)" "\<forall>q \<in> set (moved_packets i c). sendable (message_of q)"
  "\<forall>q \<in> set (bonus_packets i c). sendable (message_of q)"
  unfolding bomb_packets_def moved_packets_def bonus_packets_def set_append ball_Un
  using fixed_sendable sync_sendable by blast+

lemma refused_faithful:
  assumes "server_inv (ctx s)" "refused i s s'"
  shows "faithful s s'"
proof -
  obtain why where s': "s' = emit [error_packet (ctx s) i why] s" using assms(2) by (auto simp: refused_def)
  show ?thesis
  proof (rule faithful_still, use assms(1) in \<open>simp_all add: s'\<close>, rule keptI [where new = "[error_packet (ctx s) i why]"])
    fix D fire j and t :: client_sys assume "tracks D fire (cctx t) (ctx s)"
    then show "\<exists>t'. apply_messages (delivered (cl_fd (clients (ctx s) ! j)) [error_packet (ctx s) i why]) t = Some t' \<and>
        tracks D fire (cctx t') (ctx (emit [error_packet (ctx s) i why] s))"
      by (auto simp: error_packet_def delivered_one apply_board_messages tracks_log simp del: msg_code.simps apply_messages.simps(2))
  qed (simp_all add: error_sendable)
qed

lemma sync_faithful:
  assumes "server_inv (ctx s)"
  shows "faithful s (server_send_sync_to_all s)"
  by (rule faithful_still, use assms in simp_all, rule kept_sync [OF assms]) (auto dest: tracksD)

lemma ping_faithful:
  assumes "server_inv (ctx s)"
  shows "faithful s (server_send_to_client i (msg_code MSG_PONG) sid tgt [] s)"
proof (rule faithful_still, use assms in \<open>simp_all add: del: msg_code.simps\<close>)
  fix D fire
  let ?new = "if cl_active (clients (ctx s) ! i) then [packet_to (clients (ctx s) ! i) (msg_code MSG_PONG) sid tgt []] else []"
  show "kept (tracks D fire) (tracks D fire) s (server_send_to_client i (msg_code MSG_PONG) sid tgt [] s)"
  proof (rule keptI [where new = ?new])
    show "env_sent (env (server_send_to_client i (msg_code MSG_PONG) sid tgt [] s)) = env_sent (env s) @ ?new"
      by (simp add: send_to_client_emit del: msg_code.simps)
    fix j and t :: client_sys assume "tracks D fire (cctx t) (ctx s)"
    then show "\<exists>t'. apply_messages (delivered (cl_fd (clients (ctx s) ! j)) ?new) t = Some t' \<and>
        tracks D fire (cctx t') (ctx (server_send_to_client i (msg_code MSG_PONG) sid tgt [] s))"
      by (auto simp: delivered_one delivered_def [of _ "[]"] apply_board_messages tracks_log simp del: msg_code.simps apply_messages.simps(2))
  qed (simp_all add: packet_sendable framed_empty del: msg_code.simps)
qed

text \<open>A cell message followed by a board synchronisation.\<close>

lemma cell_then_sync:
  assumes A: "agrees D t c" "in_map c r k" and c': "server_inv c'"
      "map_rows (game_map c') = map_rows (game_map c)" "map_cols (game_map c') = map_cols (game_map c)"
    and get: "\<And>r' k'. gs_cell_get (state c') r' k' = (if r' = r \<and> k' = k then v else gs_cell_get (state c) r' k')"
    and D: "\<And>r k v. D r k v v"
  shows "tracks D (cc_explosions t) (on_sync_board (sync_board_wire (sync_message c'))
    (set_cell_at (make_cell_index r k (map_cols (game_map c))) v t)) c'"
proof -
  have "agrees D (set_cell_at (make_cell_index r k (map_cols (game_map c))) v t) c'"
    by (rule cell_arrives [OF A c'(2,3)]) (auto simp: get D)
  from sync_arrives [OF c'(1) this] show ?thesis by simp
qed

lemma place_faithful:
  assumes inv: "server_inv (ctx s)" and i: "i < MAX_PLAYERS" "cl_active (clients (ctx s) ! i)" and may: "may_place (ctx s) i idx"
  shows "faithful s (snd (handle_bomb_attempt i (u16_bytes idx) s))"
  unfolding faithful_def
proof (intro conjI allI impI)
  let ?c = "ctx s" and ?c' = "ctx (snd (handle_bomb_attempt i (u16_bytes idx) s))"
  have pl: "placed i ?c ?c'" using handle_bomb_cases(1) [OF inv i may] by blast
  then have rest: "rest ?c' = rest ?c" by (simp add: placed_def Let_def)
  show inv': "server_inv ?c'" by (rule placed_inv [OF inv i(1) may pl])
  show "explosions ?c' = explosions ?c" using rest by (rule rest_fields)
  show dims: "map_rows (game_map ?c') = map_rows (game_map ?c)" "map_cols (game_map ?c') = map_cols (game_map ?c)"
    using pl by (simp_all add: placed_def Let_def)
  have same: "clients ?c' = clients ?c" using rest by (rule rest_fields)
  fix D :: cell_rel and fire assume D: "\<forall>r k v. D r k v v"
  show "kept (tracks D fire) (tracks D fire) s (snd (handle_bomb_attempt i (u16_bytes idx) s))"
  proof (rule keptI [OF same bomb_sent [OF assms] round_packets_sendable(1)])
    fix j and t :: client_sys assume j: "j \<in> set (active_slots ?c)" and t: "tracks D fire (cctx t) ?c"
    have slots: "j \<in> set (active_slots ?c')" using j by (simp add: active_slots_def same)
    have idx: "idx = make_cell_index (pl_row (players ?c ! i)) (pl_col (players ?c ! i)) (map_cols (game_map ?c))"
      using may by (simp add: may_place_def Let_def)
    have "in_map ?c (pl_row (players ?c ! i)) (pl_col (players ?c ! i))"
      using server_invD(4) [OF inv] i(1) by (simp add: places_ok_def)
    from cell_then_sync [OF tracksD(1) [OF t] this inv' dims, of CELL_BOMB] pl D
    have "tracks D fire (on_sync_board (sync_board_wire (sync_message ?c')) (set_cell_at idx CELL_BOMB (cctx t))) ?c'"
      unfolding idx by (simp add: placed_def Let_def tracksD(2) [OF t])
    then show "\<exists>t'. apply_messages (delivered (cl_fd (clients ?c ! j)) (bomb_packets i idx ?c')) t = Some t' \<and> tracks D fire (cctx t') ?c'"
      unfolding same [symmetric] bomb_packets_def delivered_append delivered_to_all [OF server_invD(11) [OF inv'] slots]
        delivered_sync [OF server_invD(11) [OF inv'] slots]
      by (simp add: apply_board_messages cell_messages del: msg_code.simps of_nat_Suc apply_messages.simps(2))
  qed
qed

section \<open>A move\<close>

lemma stepped_board: "game_map (stepped i d c) = game_map c" "explosions (stepped i d c) = explosions c"
  "gs_status (state (stepped i d c)) = gs_status (state c)"
  by (simp_all add: stepped_def upd_player_def upd_state_def)

lemma moved_arrives:
  fixes d :: u8 and i :: nat and c :: server_ctx_t
  defines "c1 \<equiv> stepped i d c"
  defines "idx \<equiv> make_cell_index (pl_row (players c1 ! i)) (pl_col (players c1 ! i)) (map_cols (game_map c1))"
  assumes inv: "server_inv c" and i: "i < MAX_PLAYERS" "cl_active (clients c ! i)" and may: "may_move c i d" and t: "tracks D fire t c"
  shows "tracks D fire (on_moved (moved_wire \<lparr>moved_player_id = of_nat (Suc i), moved_cell_index = idx\<rparr>) t) c1"
proof -
  note I = server_invD [OF inv] and T = tracksD [OF t] and A = agreesD [OF tracksD(1) [OF t]]
  let ?q = "move_target d (players c ! i)" and ?id = "of_nat (Suc i) :: u8"
  let ?row = "of_int (fst ?q) :: u16" and ?col = "of_int (snd ?q) :: u16"
  have len: "i < length (players c)" "i < length (gs_players (cc_state t))"
    using I(1) i A(1) by (simp_all add: arrays_ok_def client_ok_def)
  have "on_board c ?q" using may by (simp add: may_move_def Let_def)
  then have "in_map c ?row ?col" using on_board_in_bounds [OF I(2)] by simp
  then have sp: "split_cell_index (make_cell_index ?row ?col (map_cols (game_map c))) (map_cols (game_map c)) = Some (?row, ?col)"
    using I(2) by (intro split_make_cell_index) (auto simp: in_map_def board_ok_def wf_map_def)
  have idx: "idx = make_cell_index ?row ?col (map_cols (game_map c))"
    using len(1) unfolding idx_def c1_def stepped_fields by simp
  have id: "unat ?id = Suc i" "is_player_id ?id"
    using i(1) unat_of_nat_u8 [of "Suc i"] by (auto simp: player_id_range simp del: of_nat_Suc)
  have "map_cols (game_map c) > 0" using I(2) by (simp add: board_ok_def wf_map_def)
  then have eq: "on_moved (moved_wire \<lparr>moved_player_id = ?id, moved_cell_index = idx\<rparr>) t =
      upd_cplayer i (\<lambda>p. p\<lparr>pl_row := ?row, pl_col := ?col\<rparr>) t"
    using id A(4) by (simp add: on_moved_def moved.dec_wire idx sp del: of_nat_Suc)
  have "client_ok (on_moved (moved_wire \<lparr>moved_player_id = ?id, moved_cell_index = idx\<rparr>) t)" by (rule ok_ons(6) [OF A(1)])
  then have "agrees D (on_moved (moved_wire \<lparr>moved_player_id = ?id, moved_cell_index = idx\<rparr>) t) c1"
    by (rule agrees_cong [OF T(1)]) (simp_all add: eq c1_def stepped_board upd_cplayer_def upd_cstate_def del: of_nat_Suc)
  then show ?thesis
    using T(2-4) len unfolding tracks_def same_players_def c1_def stepped_fields stepped_board eq
    by (auto simp: upd_cplayer_def upd_cstate_def nth_list_update player_view_eq)
qed

lemma move_faithful:
  assumes inv: "server_inv (ctx s)" and i: "i < MAX_PLAYERS" "cl_active (clients (ctx s) ! i)" and may: "may_move (ctx s) i d"
  shows "faithful s (snd (handle_move_attempt i [d] s))"
  unfolding faithful_def
proof (intro conjI allI impI)
  let ?c = "ctx s" and ?c1 = "stepped i d (ctx s)" and ?r = "ctx (snd (handle_move_attempt i [d] s))"
  let ?q = "move_target d (players ?c ! i)"
  note I = server_invD [OF inv] and M = move_effect [OF inv i(1) may]
  have r: "?r = ctx (take_bonus i i (upd_ctx (stepped i d) s))" using handle_move_cases(1) [OF inv i may] by blast
  show inv': "server_inv ?r" unfolding r by (rule M(5))
  show "explosions ?r = explosions ?c" using rest_fields(4) [OF M(3)] by (simp add: r)
  have same: "clients ?r = clients ?c" using rest_fields(1) [OF M(3)] by (simp add: r)
  show dims: "map_rows (game_map ?r) = map_rows (game_map ?c)" "map_cols (game_map ?r) = map_cols (game_map ?c)"
  proof -
    have "wf_map (game_map (ctx (upd_ctx (stepped i d) s)))" using I(2) by (simp add: board_ok_def stepped_fields)
    from take_bonus_effect(3,4) [OF this] show "map_rows (game_map ?r) = map_rows (game_map ?c)"
      "map_cols (game_map ?r) = map_cols (game_map ?c)" by (simp_all add: r stepped_fields)
  qed
  fix D :: cell_rel and fire assume D: "\<forall>r k v. D r k v v"
  show "kept (tracks D fire) (tracks D fire) s (snd (handle_move_attempt i [d] s))"
  proof (rule keptI [OF same move_sent [OF assms]])
    show "\<forall>p \<in> set (moved_packets i ?c1 @ (if is_bonus_cell (cell_at ?c ?q) then bonus_packets i ?r else [])). sendable (message_of p)"
      using round_packets_sendable(2,3) by auto
    fix j and t :: client_sys assume j: "j \<in> set (active_slots ?c)" and t: "tracks D fire (cctx t) ?c"
    have slots: "j \<in> set (active_slots ?c1)" "j \<in> set (active_slots ?r)" "fds_ok ?c1"
      using j I(11) fds_ok_cong [OF stepped_fields(3)] by (simp_all add: active_slots_def same stepped_fields(3))
    define t1 where "t1 = on_moved (moved_wire \<lparr>moved_player_id = of_nat (Suc i), moved_cell_index =
      make_cell_index (pl_row (players ?c1 ! i)) (pl_col (players ?c1 ! i)) (map_cols (game_map ?c1))\<rparr>) (cctx t)"
    have t1: "tracks D fire t1 ?c1" unfolding t1_def by (rule moved_arrives [OF inv i may t])
    have moved: "apply_messages (delivered (cl_fd (clients ?c ! j)) (moved_packets i ?c1) @ ms) t =
        apply_messages ms (upd_cctx (\<lambda>_. t1) t)" for ms
      unfolding moved_packets_def stepped_fields(3) [of i d ?c, symmetric] delivered_to_all [OF slots(3,1)]
      by (simp add: apply_board_messages t1_def upd_cctx_def del: msg_code.simps of_nat_Suc apply_messages.simps(2))
    have len: "i < length (players ?c)" using I(1) i by (simp add: arrays_ok_def)
    show "\<exists>t'. apply_messages (delivered (cl_fd (clients ?c ! j)) (moved_packets i ?c1 @
        (if is_bonus_cell (cell_at ?c ?q) then bonus_packets i ?r else []))) t = Some t' \<and> tracks D fire (cctx t') ?r"
    proof (cases "is_bonus_cell (cell_at ?c ?q)")
      case False
      have "gs_cell_get (state ?c1) (pl_row (players ?c1 ! i)) (pl_col (players ?c1 ! i)) = cell_at ?c ?q"
        using len unfolding stepped_cell_get stepped_fields by (simp add: cell_at_def)
      then have "?r = ?c1" using False by (simp add: r take_bonus_def Let_def)
      then show ?thesis using False t1 moved [of "[]"] by (simp add: delivered_append delivered_def [of _ "[]"])
    next
      case True
      have on: "on_board ?c ?q" using may by (simp add: may_move_def Let_def)
      have pos: "pl_row (players ?r ! i) = of_int (fst ?q)" "pl_col (players ?r ! i) = of_int (snd ?q)"
        using len M(1) by (simp_all add: r)
      have get: "gs_cell_get (state ?r) r' k' =
          (if r' = of_int (fst ?q) \<and> k' = of_int (snd ?q) then CELL_EMPTY else gs_cell_get (state ?c1) r' k')" for r' k'
        using M(4) [of r' k'] True pos_of_eq_iff [OF on, of r' k'] by (simp add: r stepped_cell_get)
      have "in_map ?c1 (of_int (fst ?q)) (of_int (snd ?q))"
        using on_board_in_bounds [OF I(2) on] by (simp add: in_map_def stepped_fields)
      from cell_then_sync [OF tracksD(1) [OF t1] this inv' _ _ get] dims D
      have "tracks D fire (on_sync_board (sync_board_wire (sync_message ?r))
          (set_cell_at (make_cell_index (of_int (fst ?q)) (of_int (snd ?q)) (map_cols (game_map ?c))) CELL_EMPTY t1)) ?r"
        by (simp add: stepped_fields tracksD(2) [OF t1])
      then show ?thesis
        using True moved
        by (simp add: bonus_packets_def apply_board_messages cell_messages pos dims delivered_append
            delivered_to_all [OF server_invD(11) [OF inv'] slots(2), unfolded same]
            delivered_sync [OF server_invD(11) [OF inv'] slots(2), unfolded same] same
            del: msg_code.simps of_nat_Suc apply_messages.simps(2))
    qed
  qed
qed

section \<open>Every request of a round\<close>

definition round_request :: "msg_header_t \<Rightarrow> u8 list \<Rightarrow> bool" where
  "round_request h p \<longleftrightarrow> h_msg_type h = msg_code MSG_MOVE_ATTEMPT \<and> length p = 1 \<or>
     h_msg_type h = msg_code MSG_BOMB_ATTEMPT \<and> length p = 2 \<or>
     h_msg_type h \<in> msg_code ` {MSG_PING, MSG_PONG, MSG_SYNC_REQUEST}"

lemma u16_of_bytes: "length p = 2 \<Longrightarrow> \<exists>v. p = u16_bytes v"
  using bomb_attempt.dec_exact [of "\<lparr>bomb_attempt_cell_index = 0\<rparr>" p]
  by (auto simp: length_2_conv bomb_attempt_wire_def proto_decode_bomb_attempt_payload_def codec_simps) metis

lemma request_faithful:
  assumes inv: "server_inv (ctx s)" and i: "i < MAX_PLAYERS" "cl_active (clients (ctx s) ! i)" and req: "round_request h p"
  shows "faithful s (snd (server_handle_client_message i h p s))"
proof -
  consider d where "h_msg_type h = msg_code MSG_MOVE_ATTEMPT" "p = [d]"
    | v where "h_msg_type h = msg_code MSG_BOMB_ATTEMPT" "p = u16_bytes v"
    | m where "h_msg_type h = msg_code m" "m \<in> {MSG_PING, MSG_PONG, MSG_SYNC_REQUEST}"
    using req u16_of_bytes [of p] by (auto simp: round_request_def length_Suc_conv simp del: msg_code.simps)
  then show ?thesis
  proof cases
    case 1
    then show ?thesis
      using move_faithful [OF inv i] refused_faithful [OF inv] handle_move_cases(2) [OF inv i]
      by (cases "may_move (ctx s) i d") (auto simp: server_handle_client_message_def simp del: msg_code.simps)
  next
    case 2
    then show ?thesis
      using place_faithful [OF inv i] refused_faithful [OF inv] handle_bomb_cases(2) [OF inv i]
      by (cases "may_place (ctx s) i v") (auto simp: server_handle_client_message_def simp del: msg_code.simps)
  next
    case 3
    have "faithful s s" by (rule faithful_still [OF inv refl kept_silent]) simp_all
    with 3 show ?thesis
      using ping_faithful [OF inv] sync_faithful [OF inv]
      by (auto simp: server_handle_client_message_def simp del: msg_code.simps)
  qed
qed

text \<open>The packets of a step as bytes on a connection that delivers them.\<close>

lemma kept_over_wire:
  assumes "kept R R' s s'"
  shows "\<exists>new. env_sent (env s') = env_sent (env s) @ new \<and>
    (\<forall>j \<in> set (active_slots (ctx s)). \<forall>t inb r.
       let ms = delivered (cl_fd (clients (ctx s) ! j)) new in
       R (cctx t) (ctx s) \<longrightarrow> in_stream inb = concat (map frame ms) @ r \<longrightarrow>
       steady (-1) (length (concat (map frame ms))) inb \<longrightarrow>
       (\<exists>t' inb'. repeat_op (length ms) handle_fd_server (t, inb) = Done (t', inb') \<and> in_stream inb' = r \<and> R' (cctx t') (ctx s')))"
proof -
  obtain new where new: "env_sent (env s') = env_sent (env s) @ new" "\<forall>p \<in> set new. sendable (message_of p)"
    using assms unfolding kept_def by blast
  have "\<forall>m \<in> set (delivered fd new). sendable m" for fd using new(2) by (auto simp: delivered_def)
  then show ?thesis
    using new(1) kept_sent [OF assms new(1)] stream_applied [of _ "delivered fd new" for fd, where extra = 0] unfolding Let_def
    by (intro exI [of _ new] conjI ballI allI impI) (auto, metis (no_types, lifting) option.simps(5))
qed

interpretation round: kept_events mirrors "\<lambda>(i, h, p) s. Some (snd (server_handle_client_message i h p s))"
  "\<lambda>(i, h, p) cls. i < MAX_PLAYERS \<and> cl_active (cls ! i) \<and> round_request h p"
  by unfold_locales (auto dest: request_faithful intro: faithful_mirrors faithfulD(1))

section \<open>The whole board\<close>

text \<open>
  The end of both ways to a new round or lobby: the map to everybody, then the board.  After it every
  connected client mirrors the server, whatever it held before.
\<close>

definition map_packets :: "server_ctx_t \<Rightarrow> packet list" where
  "map_packets c = map (\<lambda>i. packet_to (clients c ! i) (msg_code MSG_MAP) SERVER_ENDPOINT_ID
     (cl_id (clients c ! i)) (map_wire (map_message c))) (active_slots c)"

lemma map_to_all_sent:
  assumes "board_ok (ctx s)" "\<And>n. env_malloc (env s) n"
  shows "env_sent (env (send_map_to_all s)) = env_sent (env s) @ map_packets (ctx s)"
proof -
  let ?c = "ctx s" and ?slots = "\<lambda>n. filter (\<lambda>i. cl_active (clients (ctx s) ! i)) [0..<n]"
  let ?pk = "\<lambda>i. packet_to (clients ?c ! i) (msg_code MSG_MAP) SERVER_ENDPOINT_ID (cl_id (clients ?c ! i)) (map_wire (map_message ?c))"
  let ?P = "\<lambda>n t. ctx t = ?c \<and> env_malloc (env t) = env_malloc (env s) \<and> env_sent (env t) = env_sent (env s) @ map ?pk (?slots n)"
  have "?P 8 (send_map_to_all s)"
    unfolding send_map_to_all_def
  proof (rule for_range_inv [where P = ?P], goal_cases)
    case (2 i t)
    show ?case
    proof (cases "cl_active (clients ?c ! i)")
      case True
      then show ?thesis using 2(2) assms(2) map_message_sent(4) [OF assms(1)]
        by (simp add: server_send_map_to_client_def c_malloc_def Let_def send_to_client_emit emit_def packet_to_def del: msg_code.simps)
    qed (use 2 in simp)
  qed simp
  then show ?thesis by (simp add: map_packets_def active_slots_def)
qed

lemma map_sendable:
  assumes "board_ok c"
  shows "\<forall>q \<in> set (map_packets c). sendable (message_of q)"
proof -
  note M = map_message_sent [OF assms]
  have "length (map_wire (map_message c)) \<le> 65536"
    using map_count_le [of "map_message c"] by (simp add: map_wire_def)
  then show ?thesis using framed_variable(2) [OF M(1,2)] by (simp add: map_packets_def packet_sendable del: msg_code.simps)
qed

lemma delivered_map:
  assumes "fds_ok c" "j \<in> set (active_slots c)"
  shows "delivered (cl_fd (clients c ! j)) (map_packets c) =
    [(\<lparr>h_msg_type = msg_code MSG_MAP, h_sender_id = SERVER_ENDPOINT_ID, h_target_id = cl_id (clients c ! j)\<rparr>,
      map_wire (map_message c))]"
  unfolding map_packets_def by (rule delivered_each [OF assms])

lemma board_broadcast:
  assumes inv: "server_inv (ctx s)" and "\<And>n. env_malloc (env s) n"
  shows "\<exists>new. env_sent (env (server_send_sync_to_all (send_map_to_all s))) = env_sent (env s) @ new \<and>
    (\<forall>q \<in> set new. sendable (message_of q)) \<and>
    (\<forall>j \<in> set (active_slots (ctx s)). \<forall>t. client_ok (cctx t) \<longrightarrow> cs_calloc t (cs_calloc_pos t) \<longrightarrow>
      (\<exists>t'. apply_messages (delivered (cl_fd (clients (ctx s) ! j)) new) t = Some t' \<and> mirrors (cctx t') (ctx s) \<and>
        cc_explosions (cctx t') = cc_explosions (cctx t)))"
proof (intro exI [of _ "map_packets (ctx s) @ sync_packets (ctx s)"] conjI ballI allI impI)
  note I = server_invD [OF inv]
  show "env_sent (env (server_send_sync_to_all (send_map_to_all s))) = env_sent (env s) @ (map_packets (ctx s) @ sync_packets (ctx s))"
    by (simp add: send_sync_emit map_to_all_sent [OF I(2) assms(2)])
  fix q assume "q \<in> set (map_packets (ctx s) @ sync_packets (ctx s))"
  then show "sendable (message_of q)" using map_sendable [OF I(2)] sync_sendable by auto
next
  note I = server_invD [OF inv]
  fix j and t :: client_sys
  assume j: "j \<in> set (active_slots (ctx s))" and t: "client_ok (cctx t)" "cs_calloc t (cs_calloc_pos t)"
  note m = map_arrives [OF I(2) t(2)]
  let ?t1 = "cctx (on_map (map_wire (map_message (ctx s))) t)"
  have "agrees (\<lambda>_ _. (=)) ?t1 (ctx s)"
    unfolding agrees_def using I(2) cell_get_state_cong [of "cc_state ?t1" "state (ctx s)"]
    by (intro conjI ok_on_map [OF t(1)]) (simp_all add: m upd_cstate_def board_ok_def)
  note T = sync_arrives [OF inv this]
  have "cc_explosions ?t1 = cc_explosions (cctx t)" unfolding m by (simp add: upd_cstate_def)
  then have "mirrors (on_sync_board (sync_board_wire (sync_message (ctx s))) ?t1) (ctx s) \<and>
      cc_explosions (on_sync_board (sync_board_wire (sync_message (ctx s))) ?t1) = cc_explosions (cctx t)"
    using T tracksD(2) [OF T] mirrors_tracks [OF I(2)] by simp
  then show "\<exists>t'. apply_messages (delivered (cl_fd (clients (ctx s) ! j)) (map_packets (ctx s) @ sync_packets (ctx s))) t = Some t' \<and>
      mirrors (cctx t') (ctx s) \<and> cc_explosions (cctx t') = cc_explosions (cctx t)"
    by (simp add: delivered_append delivered_map [OF I(11) j] delivered_sync [OF I(11) j] apply_board_messages
        del: msg_code.simps apply_messages.simps(2))
qed

end
