(* ===== verification/Fire.thy ===== *)
theory Fire
  imports Mirror_Requests
begin

text \<open>
  What a client shows while bombs explode.  The server never says that a bomb's cell is empty again; the
  client learns it with the message that ends the explosion.  Until then it still shows the bomb, and
  that message also wipes off a bomb that was laid on the cell in the meantime.  So the client's map is
  the server's but for those two cases, which is the relation \<open>follows\<close> of this theory.
\<close>

section \<open>The relation\<close>

text \<open>The cells on which the server has an explosion running.\<close>

definition burning :: "server_ctx_t \<Rightarrow> u16 set" where
  "burning c = {ex_cell_index e | e. e \<in> set (explosions c) \<and> ex_active e}"

definition shown :: "u16 set \<Rightarrow> u16 \<Rightarrow> cell_rel" where
  "shown B cols r k v w \<longleftrightarrow> v = w \<or> v = CELL_BOMB \<and> w = CELL_EMPTY \<and> make_cell_index r k cols \<in> B \<or>
     v = CELL_EMPTY \<and> w = CELL_BOMB"

text \<open>The client shows fire only on cells in \<open>B\<close>.\<close>

definition fire_within :: "u16 set \<Rightarrow> u16 list \<Rightarrow> server_ctx_t \<Rightarrow> bool" where
  "fire_within B fire c \<longleftrightarrow> (\<forall>r k. in_map c r k \<longrightarrow> fire ! (unat r * MAX_MAP_SIDE + unat k) \<noteq> 0 \<longrightarrow>
     make_cell_index r k (map_cols (game_map c)) \<in> B)"

definition near :: "u16 set \<Rightarrow> client_ctx_t \<Rightarrow> server_ctx_t \<Rightarrow> bool" where
  "near B t c \<longleftrightarrow> agrees (shown B (map_cols (game_map c))) t c \<and> fire_within B (cc_explosions t) c"

definition follows :: "client_ctx_t \<Rightarrow> server_ctx_t \<Rightarrow> bool" where
  "follows t c \<longleftrightarrow> near (burning c) t c \<and> gs_status (cc_state t) = gs_status (state c) \<and> same_players t c"

lemma shown_refl [simp]: "shown B cols r k v v"
  by (simp add: shown_def)

lemma shown_mono: "shown B cols r k v w \<Longrightarrow> (make_cell_index r k cols \<in> B \<Longrightarrow> make_cell_index r k cols \<in> B') \<Longrightarrow> shown B' cols r k v w"
  by (auto simp: shown_def)

lemma fire_within_mono: "fire_within B fire c \<Longrightarrow> B \<subseteq> B' \<Longrightarrow> fire_within B' fire c"
  by (auto simp: fire_within_def)

lemma near_mono: "near B t c \<Longrightarrow> B \<subseteq> B' \<Longrightarrow> near B' t c"
  by (auto simp: near_def agrees_def shown_def intro: fire_within_mono)

lemma near_cong: "near B t c \<Longrightarrow> game_map c' = game_map c \<Longrightarrow> near B t c'"
  using agrees_cong [of _ t c t c'] by (auto simp: near_def fire_within_def in_map_def dest: agreesD(1))

lemma near_log: "near B t c \<Longrightarrow> near B (qlogf line t) c"
  using agrees_cong [of _ t c "qlogf line t" c] ok_qlogf [OF agreesD(1)] by (auto simp: near_def)

lemma near_players: "near B t c \<Longrightarrow> client_ok (upd_cplayer i f t) \<Longrightarrow> near B (upd_cplayer i f t) c"
  using agrees_cong [of _ t c "upd_cplayer i f t" c] by (auto simp: near_def upd_cplayer_def upd_cstate_def)

text \<open>A client that mirrors a server and shows no fire follows it.\<close>

lemma mirrors_follows:
  assumes "board_ok c" "mirrors t c" "\<And>i. i < MAX_MAP_CELLS \<Longrightarrow> cc_explosions t ! i = 0"
  shows "follows t c"
proof -
  have T: "tracks (\<lambda>_ _. (=)) (cc_explosions t) t c" using assms(2) mirrors_tracks [OF assms(1)] by blast
  then have "agrees (shown (burning c) (map_cols (game_map c))) t c" by (auto simp: tracks_def agrees_def)
  moreover have "unat r * 255 + unat k < 65025" if "in_map c r k" for r k
  proof -
    have "unat r < 255" "unat k < 255" using that assms(1) by (auto simp: in_map_def board_ok_def word_less_nat_alt)
    then show ?thesis by simp
  qed
  then have "fire_within (burning c) (cc_explosions t) c" using assms(3) by (auto simp: fire_within_def)
  ultimately show ?thesis using T by (simp add: follows_def near_def tracks_def)
qed

lemma follows_tracks: "follows t c \<longleftrightarrow>
    tracks (shown (burning c) (map_cols (game_map c))) (cc_explosions t) t c \<and> fire_within (burning c) (cc_explosions t) c"
  by (auto simp: follows_def near_def tracks_def)

lemma faithful_follows:
  assumes "faithful s s'"
  shows "kept follows follows s s'"
proof -
  note F = faithfulD [OF assms]
  let ?D = "shown (burning (ctx s)) (map_cols (game_map (ctx s)))"
  have k: "kept (tracks ?D fire) (tracks ?D fire) s s'" for fire by (rule F(5)) simp
  then obtain new where new: "env_sent (env s') = env_sent (env s) @ new" "\<forall>p \<in> set new. sendable (message_of p)"
    unfolding kept_def by blast
  have same: "burning (ctx s') = burning (ctx s)" "in_map (ctx s') = in_map (ctx s)"
    by (simp_all add: burning_def F(2) in_map_def fun_eq_iff F(3,4))
  show ?thesis
  proof (rule keptI [OF kept_clients [OF k] new])
    fix j and t :: client_sys assume j: "j \<in> set (active_slots (ctx s))" and t: "follows (cctx t) (ctx s)"
    then have "tracks ?D (cc_explosions (cctx t)) (cctx t) (ctx s)" by (simp add: follows_tracks)
    from kept_sent [OF k new(1) j this] obtain t' where
      "apply_messages (delivered (cl_fd (clients (ctx s) ! j)) new) t = Some t'" "tracks ?D (cc_explosions (cctx t)) (cctx t') (ctx s')"
      by blast
    moreover from this(2) have "follows (cctx t') (ctx s')"
      using t by (simp add: follows_tracks same F(4) tracksD(2) fire_within_def)
    ultimately show "\<exists>t'. apply_messages (delivered (cl_fd (clients (ctx s) ! j)) new) t = Some t' \<and> follows (cctx t') (ctx s')"
      by blast
  qed
qed

section \<open>What the messages of an explosion do to a client\<close>

lemma explosion_messages:
  "client_handle_server_message \<lparr>h_msg_type = msg_code MSG_DEATH, h_sender_id = a, h_target_id = b\<rparr> p s = Some (0, upd_cctx (on_death p) s)"
  "client_handle_server_message \<lparr>h_msg_type = msg_code MSG_BLOCK_DESTROYED, h_sender_id = a, h_target_id = b\<rparr> p s =
    Some (0, upd_cctx (on_block_destroyed p) s)"
  "client_handle_server_message \<lparr>h_msg_type = msg_code MSG_BONUS_AVAILABLE, h_sender_id = a, h_target_id = b\<rparr> p s =
    Some (0, upd_cctx (on_bonus_available p) s)"
  "client_handle_server_message \<lparr>h_msg_type = msg_code MSG_EXPLOSION_START, h_sender_id = a, h_target_id = b\<rparr> p s =
    map_option (\<lambda>c. (0, upd_cctx (\<lambda>_. c) s)) (on_explosion_start p (cctx s))"
  "client_handle_server_message \<lparr>h_msg_type = msg_code MSG_EXPLOSION_END, h_sender_id = a, h_target_id = b\<rparr> p s =
    map_option (\<lambda>c. (0, upd_cctx (\<lambda>_. c) s)) (on_explosion_end p (cctx s))"
  "client_handle_server_message \<lparr>h_msg_type = msg_code MSG_SET_STATUS, h_sender_id = a, h_target_id = b\<rparr> p s =
    Some (0, upd_cctx (on_set_status p) s)"
  "client_handle_server_message \<lparr>h_msg_type = msg_code MSG_WINNER, h_sender_id = a, h_target_id = b\<rparr> p s = Some (0, upd_cctx (on_winner p) s)"
  by (simp_all add: client_handle_server_message_def Let_def del: msg_code.simps)

lemma near_death:
  assumes "near B t c"
  shows "near B (on_death p t) c"
proof -
  have "client_ok t" using assms by (simp add: near_def agrees_def)
  then have "near B (upd_cplayer i (\<lambda>p. p\<lparr>pl_alive := False, pl_lives := 0\<rparr>) t) c" for i
    by (intro near_players [OF assms] ok_upd_cplayer) simp_all
  then show ?thesis using assms by (simp add: on_death_def near_log split: option.split)
qed

lemma near_cell:
  assumes N: "near B t c" and "in_map c r k"
    and dims: "map_rows (game_map c') = map_rows (game_map c)" "map_cols (game_map c') = map_cols (game_map c)"
    and get: "\<And>r' k'. gs_cell_get (state c') r' k' = (if r' = r \<and> k' = k then v else gs_cell_get (state c) r' k')"
  shows "near B (set_cell_at (make_cell_index r k (map_cols (game_map c))) v t) c'"
proof -
  have "agrees (shown B (map_cols (game_map c))) (set_cell_at (make_cell_index r k (map_cols (game_map c))) v t) c'"
    using N by (intro cell_arrives [where c = c and D = "shown B (map_cols (game_map c))", OF _ assms(2) dims]) (auto simp: get near_def)
  moreover have "in_map c' = in_map c" by (simp add: in_map_def fun_eq_iff dims)
  ultimately show ?thesis using N by (simp add: near_def fire_within_def dims)
qed

text \<open>Where the client keeps the fire of a cell.\<close>

lemma fire_slot:
  assumes "board_ok c" "in_map c r k"
  shows "unat r * 255 + unat k < 65025" "unat k < 255"
    "split_cell_index (make_cell_index r k (map_cols (game_map c))) (map_cols (game_map c)) = Some (r, k)"
proof -
  have "unat r < 255" and k: "unat k < 255" using assms by (auto simp: in_map_def board_ok_def word_less_nat_alt)
  then show "unat r * 255 + unat k < 65025" "unat k < 255" by simp_all
  show "split_cell_index (make_cell_index r k (map_cols (game_map c))) (map_cols (game_map c)) = Some (r, k)"
    using assms by (intro split_make_cell_index) (auto simp: in_map_def board_ok_def wf_map_def)
qed

lemma fire_slot_inj:
  assumes "board_ok c" "in_map c r k" "in_map c r' k'"
  shows "unat r * 255 + unat k = unat r' * 255 + unat k' \<longleftrightarrow> r = r' \<and> k = k'"
    "make_cell_index r k (map_cols (game_map c)) = make_cell_index r' k' (map_cols (game_map c)) \<longleftrightarrow> r = r' \<and> k = k'"
proof -
  have "unat k < 255" "unat k' < 255" using fire_slot(2) [OF assms(1)] assms(2,3) by simp_all
  then show "unat r * 255 + unat k = unat r' * 255 + unat k' \<longleftrightarrow> r = r' \<and> k = k'"
    using cell_offset_inj [of "unat k" 255 "unat k'" "unat r" "unat r'"] by (auto simp: word_unat_eq_iff)
  show "make_cell_index r k (map_cols (game_map c)) = make_cell_index r' k' (map_cols (game_map c)) \<longleftrightarrow> r = r' \<and> k = k'"
    using assms make_cell_index_inj [of r "map_rows (game_map c)" k "map_cols (game_map c)" r' k']
    by (auto simp: in_map_def board_ok_def wf_map_def)
qed

lemma fire_within_set:
  assumes "fire_within B fire c" "board_ok c" "in_map c r k" "length fire = MAX_MAP_CELLS"
    and B': "B - {make_cell_index r k (map_cols (game_map c))} \<subseteq> B'"
    and v: "v \<noteq> 0 \<Longrightarrow> make_cell_index r k (map_cols (game_map c)) \<in> B'"
  shows "fire_within B' (fire[unat r * MAX_MAP_SIDE + unat k := v]) c"
  unfolding fire_within_def
proof (intro allI impI)
  fix r' k' assume in': "in_map c r' k'" and lit: "fire[unat r * 255 + unat k := v] ! (unat r' * 255 + unat k') \<noteq> 0"
  show "make_cell_index r' k' (map_cols (game_map c)) \<in> B'"
  proof (cases "r = r' \<and> k = k'")
    case True
    then show ?thesis using lit v fire_slot(1) [OF assms(2,3)] assms(4) by simp
  next
    case False
    then have "fire ! (unat r' * 255 + unat k') \<noteq> 0" using lit fire_slot_inj(1) [OF assms(2,3) in'] by simp
    then have "make_cell_index r' k' (map_cols (game_map c)) \<in> B" using assms(1) in' by (simp add: fire_within_def)
    then show ?thesis using B' False fire_slot_inj(2) [OF assms(2,3) in'] by auto
  qed
qed

lemma ok_fire: "client_ok t \<Longrightarrow> client_ok (t\<lparr>cc_explosions := (cc_explosions t)[i := v]\<rparr>)"
  by (simp add: client_ok_def qlog_ok_def)

lemma start_arrives:
  assumes N: "near B t c" and c: "board_ok c" "in_map c r k" and B': "insert (make_cell_index r k (map_cols (game_map c))) B \<subseteq> B'"
  shows "\<exists>t'. on_explosion_start (explosion_start_wire \<lparr>es_radius = rad,
      es_cell_index = make_cell_index r k (map_cols (game_map c))\<rparr>) t = Some t' \<and> near B' t' c"
proof -
  have A: "agrees (shown B (map_cols (game_map c))) t c" "fire_within B (cc_explosions t) c" using N by (simp_all add: near_def)
  let ?t' = "t\<lparr>cc_explosions := (cc_explosions t)[unat r * 255 + unat k := ucast rad]\<rparr>"
  have eq: "on_explosion_start (explosion_start_wire \<lparr>es_radius = rad,
      es_cell_index = make_cell_index r k (map_cols (game_map c))\<rparr>) t = Some ?t'"
    using fire_slot [OF c] agreesD(4) [OF A(1)]
    by (simp add: on_explosion_start_def explosion_start.dec_wire set_explosion_def Let_def)
  have ok: "client_ok ?t'" by (rule ok_fire [OF agreesD(1) [OF A(1)]])
  have "agrees (shown B (map_cols (game_map c))) ?t' c" by (rule agrees_cong [OF A(1) ok]) simp_all
  moreover have "length (cc_explosions t) = 65025" using agreesD(1) [OF A(1)] by (simp add: client_ok_def)
  then have "fire_within B' (cc_explosions ?t') c" using fire_within_set [OF A(2) c, of B' "ucast rad"] B' by auto
  ultimately have "near B' ?t' c" using B' by (auto simp: near_def agrees_def shown_def)
  with eq show ?thesis by blast
qed

lemma end_arrives:
  assumes N: "near B t c" and c: "board_ok c" "in_map c r k" and B': "B - {make_cell_index r k (map_cols (game_map c))} \<subseteq> B'"
    and cell: "gs_cell_get (state c) r k \<in> {CELL_EMPTY, CELL_BOMB}"
  shows "\<exists>t'. on_explosion_end (explosion_end_wire \<lparr>ee_cell_index = make_cell_index r k (map_cols (game_map c))\<rparr>) t = Some t' \<and>
    near B' t' c \<and> gs_status (cc_state t') = gs_status (cc_state t) \<and> gs_players (cc_state t') = gs_players (cc_state t) \<and>
    (\<forall>r' k'. gs_cell_get (cc_state t') r' k' = (if r' = r \<and> k' = k then CELL_EMPTY else gs_cell_get (cc_state t) r' k'))"
proof -
  have A: "agrees (shown B (map_cols (game_map c))) t c" "fire_within B (cc_explosions t) c" using N by (simp_all add: near_def)
  let ?t1 = "set_cell_at (make_cell_index r k (map_cols (game_map c))) CELL_EMPTY t"
  let ?t' = "?t1\<lparr>cc_explosions := (cc_explosions t)[unat r * 255 + unat k := 0]\<rparr>"
  have "map_cols (game_map c) > 0" using c(1) by (simp add: board_ok_def wf_map_def)
  then have eq: "on_explosion_end (explosion_end_wire \<lparr>ee_cell_index = make_cell_index r k (map_cols (game_map c))\<rparr>) t = Some ?t'"
    using fire_slot [OF c] agreesD(4) [OF A(1)]
    by (simp add: on_explosion_end_def explosion_end.dec_wire set_explosion_def Let_def)
  have "agrees (shown B' (map_cols (game_map c))) ?t1 c"
  proof (rule cell_arrives [OF A(1) c(2)])
    fix r' k' u assume there: "in_map c r' k'" "r' \<noteq> r \<or> k' \<noteq> k"
      and S: "shown B (map_cols (game_map c)) r' k' u (gs_cell_get (state c) r' k')"
    have "make_cell_index r' k' (map_cols (game_map c)) \<noteq> make_cell_index r k (map_cols (game_map c))"
      using there fire_slot_inj(2) [OF c there(1)] by metis
    then show "shown B' (map_cols (game_map c)) r' k' u (gs_cell_get (state c) r' k')"
      using S B' by (auto intro: shown_mono)
  qed (use cell in \<open>auto simp: shown_def\<close>)
  moreover have "client_ok ?t'" using ok_fire [OF ok_set_cell_at [OF agreesD(1) [OF A(1)]]] by simp
  ultimately have "agrees (shown B' (map_cols (game_map c))) ?t' c" by (rule agrees_cong) simp_all
  moreover have "length (cc_explosions t) = 65025" using agreesD(1) [OF A(1)] by (simp add: client_ok_def)
  then have "fire_within B' (cc_explosions ?t') c" using fire_within_set [OF A(2) c, of B' 0] B' by simp
  moreover have "r < map_rows (gs_map (cc_state t))" "k < map_cols (gs_map (cc_state t))"
    using c(2) agreesD(3,4) [OF A(1)] by (simp_all add: in_map_def)
  note set_cell_at_get(4) [OF agreesD(2) [OF A(1)] this refl, of CELL_EMPTY, unfolded agreesD(4) [OF A(1)]]
  ultimately show ?thesis using eq by (simp add: near_def)
qed

text \<open>What \<open>follows\<close> says of a cell.\<close>

lemma follows_cell:
  assumes "follows t c" "in_map c r k"
  shows "gs_cell_get (cc_state t) r k = gs_cell_get (state c) r k \<or>
    gs_cell_get (cc_state t) r k = CELL_BOMB \<and> gs_cell_get (state c) r k = CELL_EMPTY \<and>
      make_cell_index r k (map_cols (game_map c)) \<in> burning c \<or>
    gs_cell_get (cc_state t) r k = CELL_EMPTY \<and> gs_cell_get (state c) r k = CELL_BOMB"
  using assms by (simp add: follows_def near_def agrees_def shown_def)

end
