(* ===== verification/Follow.thy ===== *)
theory Follow
  imports Fire
begin

text \<open>
  The messages of an explosion and of a tick keep every client close to the server: \<open>blast_step\<close> while
  the fire of one bomb spreads, \<open>kept follows follows\<close> for the whole explosion and the whole tick.
\<close>

section \<open>While the fire spreads\<close>

text \<open>The fire of the bomb on cell \<open>idx\<close> has started but is not in the table of explosions yet.\<close>

definition near_blast :: "u16 \<Rightarrow> client_ctx_t \<Rightarrow> server_ctx_t \<Rightarrow> bool" where
  "near_blast idx t c \<longleftrightarrow> near (insert idx (burning c)) t c"

definition blast_step :: "u16 \<Rightarrow> server_sys \<Rightarrow> server_sys \<Rightarrow> bool" where
  "blast_step idx s s' \<longleftrightarrow> board_ok (ctx s') \<and> fds_ok (ctx s') \<and> kept (near_blast idx) (near_blast idx) s s' \<and>
     explosions (ctx s') = explosions (ctx s) \<and> map_rows (game_map (ctx s')) = map_rows (game_map (ctx s)) \<and>
     map_cols (game_map (ctx s')) = map_cols (game_map (ctx s))"

lemma blast_stepD:
  assumes "blast_step idx s s'"
  shows "board_ok (ctx s')" "fds_ok (ctx s')" "kept (near_blast idx) (near_blast idx) s s'" "explosions (ctx s') = explosions (ctx s)"
    "map_rows (game_map (ctx s')) = map_rows (game_map (ctx s))" "map_cols (game_map (ctx s')) = map_cols (game_map (ctx s))"
    "in_map (ctx s') = in_map (ctx s)"
  using assms by (simp_all add: blast_step_def in_map_def fun_eq_iff)

lemma blast_step_trans: "blast_step idx a b \<Longrightarrow> blast_step idx b c \<Longrightarrow> blast_step idx a c"
  by (auto simp: blast_step_def intro: kept_trans)

lemma board_ok_cong: "game_map c' = game_map c \<Longrightarrow> initial_cell_count c' = initial_cell_count c \<Longrightarrow> board_ok c' = board_ok c"
  by (simp add: board_ok_def)

lemma burning_cong: "explosions c' = explosions c \<Longrightarrow> burning c' = burning c"
  by (simp add: burning_def)

lemma to_all_cong: "clients c' = clients c \<Longrightarrow> to_all c' = to_all c"
  by (auto simp: to_all_def active_slots_def fun_eq_iff)

lemma blast_silent:
  assumes "board_ok (ctx s)" "fds_ok (ctx s)" and "clients (ctx s') = clients (ctx s)" "explosions (ctx s') = explosions (ctx s)"
    "game_map (ctx s') = game_map (ctx s)" "initial_cell_count (ctx s') = initial_cell_count (ctx s)" "env_sent (env s') = env_sent (env s)"
  shows "blast_step idx s s'"
proof -
  have "near_blast idx t (ctx s')" if "near_blast idx t (ctx s)" for t
    using near_cong [OF that [unfolded near_blast_def] assms(5)] by (simp add: near_blast_def burning_cong [OF assms(4)])
  then have "kept (near_blast idx) (near_blast idx) s s'" by (rule kept_silent [OF assms(3,7)])
  then show ?thesis
    using assms(1,2,4,5) by (simp add: blast_step_def fds_ok_cong [OF assms(3)] board_ok_cong [OF assms(5,6)])
qed

text \<open>The payloads and their frames.\<close>

lemma explosion_payloads:
  "payload_of proto_encode_death_payload 16 m1 = Some (death_wire m1)"
  "payload_of proto_encode_block_destroyed_payload 16 m2 = Some (block_destroyed_wire m2)"
  "payload_of proto_encode_bonus_available_payload 16 m3 = Some (bonus_available_wire m3)"
  "payload_of proto_encode_explosion_start_payload 16 m4 = Some (explosion_start_wire m4)"
  "payload_of proto_encode_explosion_end_payload 16 m5 = Some (explosion_end_wire m5)"
  by (simp_all add: death.payload_eq block_destroyed.payload_eq bonus_available.payload_eq explosion_start.payload_eq
    explosion_end.payload_eq fixed_wires u16_bytes_def)

lemma explosion_wire_lengths:
  "length (death_wire m1) \<le> 65536" "length (block_destroyed_wire m2) \<le> 65536" "length (bonus_available_wire m3) \<le> 65536"
  "length (explosion_start_wire m4) \<le> 65536" "length (explosion_end_wire m5) \<le> 65536"
  by (simp_all add: fixed_wires u16_bytes_def)

text \<open>A change of the state that is told to everybody.\<close>

lemma blast_told:
  assumes "fds_ok (ctx s)" "board_ok (ctx s1)" and "clients (ctx s1) = clients (ctx s)" "explosions (ctx s1) = explosions (ctx s)"
    and dims: "map_rows (game_map (ctx s1)) = map_rows (game_map (ctx s))" "map_cols (game_map (ctx s1)) = map_cols (game_map (ctx s))"
    and sent: "env_sent (env s1) = env_sent (env s)" and p: "well_framed ty p" "length p \<le> 65536"
    and handled: "\<And>t :: client_sys. near (insert idx (burning (ctx s))) (cctx t) (ctx s) \<Longrightarrow> \<exists>t'. client_handle_server_message
        \<lparr>h_msg_type = ty, h_sender_id = sid, h_target_id = BROADCAST_ENDPOINT_ID\<rparr> p t = Some (0, t') \<and>
        near (insert idx (burning (ctx s))) (cctx t') (ctx s1)"
  shows "blast_step idx s (broadcast_encoded ty sid (Some p) (-1) s1)"
proof -
  have fds: "fds_ok (ctx s1)" using assms(1,3) fds_ok_cong by blast
  have emits: "broadcast_encoded ty sid (Some p) (-1) s1 = emit (to_all (ctx s) ty sid p) s1"
    by (simp add: broadcast_payload [OF fds] to_all_cong [OF assms(3)])
  have "kept (near_blast idx) (near_blast idx) s (broadcast_encoded ty sid (Some p) (-1) s1)"
    by (rule kept_told [OF assms(1) _ _ p])
      (use assms(3,4) sent handled in \<open>simp_all add: emits near_blast_def burning_cong [OF assms(4)]\<close>)
  then show ?thesis using assms(2,4) dims fds by (simp add: blast_step_def emits)
qed

section \<open>One cell\<close>

lemma chain_frame:
  "let t = chain_bombs_on_cell row col x s in clients (ctx t) = clients (ctx s) \<and> explosions (ctx t) = explosions (ctx s) \<and>
     game_map (ctx t) = game_map (ctx s) \<and> initial_cell_count (ctx t) = initial_cell_count (ctx s) \<and> env t = env s"
  unfolding Let_def chain_bombs_on_cell_def
  by (rule for_range_inv) (simp_all add: Let_def upd_state_def)

lemma chain_step: "board_ok (ctx s) \<Longrightarrow> fds_ok (ctx s) \<Longrightarrow> blast_step idx s (chain_bombs_on_cell row col x s)"
  using chain_frame [of row col x s] by (intro blast_silent) (simp_all add: Let_def)

lemma blast_refl: "board_ok (ctx s) \<Longrightarrow> fds_ok (ctx s) \<Longrightarrow> blast_step idx s s"
  by (rule blast_silent) simp_all

lemma dead_step:
  assumes "board_ok (ctx s)" "fds_ok (ctx s)"
  shows "blast_step idx s (mark_players_dead_on_cell row col s)"
  unfolding mark_players_dead_on_cell_def
proof (rule for_range_inv)
  show "blast_step idx s s" by (rule blast_refl [OF assms])
  fix i and t :: server_sys assume t: "blast_step idx s t"
  let ?t1 = "upd_ctx (upd_player i (\<lambda>p. p\<lparr>pl_alive := False, pl_lives := 0\<rparr>)) t"
  have fr: "clients (ctx ?t1) = clients (ctx t)" "explosions (ctx ?t1) = explosions (ctx t)" "game_map (ctx ?t1) = game_map (ctx t)"
    "initial_cell_count (ctx ?t1) = initial_cell_count (ctx t)" by (simp_all add: upd_player_def upd_state_def)
  have "blast_step idx t (broadcast_death id ?t1)" for id
    unfolding broadcast_death_def explosion_payloads
  proof (rule blast_told [OF blast_stepD(2) [OF t] _ fr(1,2) _ _ _ framed_fixed(9) explosion_wire_lengths(1)])
    show "board_ok (ctx ?t1)" using blast_stepD(1) [OF t] by (simp only: board_ok_cong [OF fr(3,4)])
    fix u :: client_sys assume "near (insert idx (burning (ctx t))) (cctx u) (ctx t)"
    from near_cong [OF near_death [OF this] fr(3)]
    show "\<exists>u'. client_handle_server_message \<lparr>h_msg_type = msg_code MSG_DEATH, h_sender_id = SERVER_ENDPOINT_ID,
        h_target_id = BROADCAST_ENDPOINT_ID\<rparr> (death_wire \<lparr>death_player_id = id\<rparr>) u = Some (0, u') \<and>
        near (insert idx (burning (ctx t))) (cctx u') (ctx ?t1)"
      unfolding explosion_messages by simp
  qed (simp_all only: fr(3), simp)
  then show "blast_step idx s (let client = clients (ctx t) ! i; player = players (ctx t) ! i in
       if \<not> cl_active client \<or> \<not> pl_alive player then t
       else if pl_row player = row \<and> pl_col player = col then
         broadcast_death (pl_id player)
           (upd_ctx (upd_player i (\<lambda>p. p\<lparr>pl_alive := False, pl_lives := 0\<rparr>)) t)
       else t)"
    using t blast_step_trans by (auto simp: Let_def)
qed

lemma cell_set_in_map:
  fixes s :: server_sys and row col :: u16 and v :: u8
  assumes "board_ok (ctx s)" "in_map (ctx s) row col"
  defines "c' \<equiv> ctx (cell_set row col v s)"
  shows "board_ok c'" "clients c' = clients (ctx s)" "explosions c' = explosions (ctx s)"
    "map_rows (game_map c') = map_rows (game_map (ctx s))" "map_cols (game_map c') = map_cols (game_map (ctx s))"
    "gs_cell_get (state c') r k = (if r = row \<and> k = col then v else gs_cell_get (state (ctx s)) r k)"
proof -
  have wf: "wf_map (game_map (ctx s))" using assms(1) by (simp add: board_ok_def)
  then have "gs_in_bounds (state (ctx s)) row col" using assms(2) by (simp add: wf_in_bounds in_map_def)
  then obtain st where st: "gs_cell_set (state (ctx s)) row col v = Some st" using gs_cell_set_Some by blast
  have c': "c' = (ctx s)\<lparr>state := st\<rparr>" by (simp add: c'_def cell_set_ctx st)
  show "board_ok c'" "clients c' = clients (ctx s)" "explosions c' = explosions (ctx s)"
    "map_rows (game_map c') = map_rows (game_map (ctx s))" "map_cols (game_map c') = map_cols (game_map (ctx s))"
    "gs_cell_get (state c') r k = (if r = row \<and> k = col then v else gs_cell_get (state (ctx s)) r k)"
    using assms(1) gs_cell_set_frame(5,6) [OF st] gs_cell_set_wf [OF wf st] gs_cell_get_set [OF wf st]
    by (simp_all add: c' board_ok_def)
qed

lemma cell_wires:
  "on_block_destroyed (block_destroyed_wire m) c = set_cell_at (bd_cell_index m) CELL_EMPTY c"
  "on_bonus_available (bonus_available_wire b) c = set_cell_at (ba_cell_index b)
     (if unat (ba_bonus_type b) = BONUS_RADIUS then CELL_BONUS_RADIUS
      else if unat (ba_bonus_type b) = BONUS_TIMER then CELL_BONUS_TIMER else CELL_BONUS_SPEED) c"
  by (simp_all add: on_block_destroyed_def on_bonus_available_def block_destroyed.dec_wire bonus_available.dec_wire Let_def)

lemma destroyed_step:
  assumes "board_ok (ctx s)" "fds_ok (ctx s)" "in_map (ctx s) row col"
  shows "blast_step idx s (broadcast_block_destroyed row col (cell_set row col CELL_EMPTY s))"
  unfolding broadcast_block_destroyed_def explosion_payloads
proof (rule blast_told [OF assms(2) cell_set_in_map(1-5) [OF assms(1,3)] _ framed_fixed(12) explosion_wire_lengths(2)])
  note cs = cell_set_in_map [OF assms(1,3), of CELL_EMPTY]
  fix t :: client_sys assume "near (insert idx (burning (ctx s))) (cctx t) (ctx s)"
  from near_cell [OF this assms(3) cs(4,5,6)]
  show "\<exists>t'. client_handle_server_message \<lparr>h_msg_type = msg_code MSG_BLOCK_DESTROYED, h_sender_id = SERVER_ENDPOINT_ID,
      h_target_id = BROADCAST_ENDPOINT_ID\<rparr> (block_destroyed_wire \<lparr>bd_cell_index =
        make_cell_index row col (map_cols (game_map (ctx (cell_set row col CELL_EMPTY s))))\<rparr>) t = Some (0, t') \<and>
      near (insert idx (burning (ctx s))) (cctx t') (ctx (cell_set row col CELL_EMPTY s))"
    by (simp add: explosion_messages cell_wires cs(5) del: msg_code.simps)
qed simp

lemma bonus_step:
  assumes "board_ok (ctx s)" "fds_ok (ctx s)" "in_map (ctx s) row col"
  shows "blast_step idx s (maybe_spawn_bonus row col s)"
proof -
  define s2 where "s2 = snd (c_rand (snd (c_rand s)))"
  define pick where "pick = fst (c_rand (snd (c_rand s))) mod 3 + 1"
  define v :: u8 where "v = (if pick = BONUS_RADIUS then CELL_BONUS_RADIUS else if pick = BONUS_TIMER then CELL_BONUS_TIMER else CELL_BONUS_SPEED)"
  have same: "ctx s2 = ctx s" "env_sent (env (snd (c_rand s))) = env_sent (env s)" "env_sent (env s2) = env_sent (env s)"
    by (simp_all add: s2_def c_rand_def Let_def)
  have s2: "board_ok (ctx s2)" "fds_ok (ctx s2)" "in_map (ctx s2) row col" using assms by (simp_all add: same)
  note cs = cell_set_in_map [OF s2(1,3), of v]
  let ?m = "\<lparr>ba_bonus_type = of_nat pick, ba_cell_index = make_cell_index row col (map_cols (game_map (ctx (cell_set row col v s2))))\<rparr>"
  let ?told = "broadcast_encoded (msg_code MSG_BONUS_AVAILABLE) SERVER_ENDPOINT_ID (Some (bonus_available_wire ?m)) (-1) (cell_set row col v s2)"
  have "pick < 256" unfolding pick_def using mod_less_divisor [of 3 "fst (c_rand (snd (c_rand s)))"] by linarith
  then have "unat (of_nat pick :: u8) = pick" by (rule unat_of_nat_u8)
  then have val: "(if unat (of_nat pick :: u8) = BONUS_RADIUS then CELL_BONUS_RADIUS
      else if unat (of_nat pick :: u8) = BONUS_TIMER then CELL_BONUS_TIMER else CELL_BONUS_SPEED) = v" by (simp only: v_def)
  have on: "on_bonus_available (bonus_available_wire ?m) t = set_cell_at (make_cell_index row col (map_cols (game_map (ctx s2)))) v t" for t
    unfolding cell_wires msg_bonus_available_t.select_convs val cs(5) ..
  have "blast_step idx s2 ?told"
  proof (rule blast_told [OF s2(2) cs(1-5) _ framed_fixed(10) explosion_wire_lengths(3)])
    fix t :: client_sys assume "near (insert idx (burning (ctx s2))) (cctx t) (ctx s2)"
    from near_cell [OF this s2(3) cs(4,5,6)]
    show "\<exists>t'. client_handle_server_message \<lparr>h_msg_type = msg_code MSG_BONUS_AVAILABLE, h_sender_id = SERVER_ENDPOINT_ID,
        h_target_id = BROADCAST_ENDPOINT_ID\<rparr> (bonus_available_wire ?m) t = Some (0, t') \<and>
        near (insert idx (burning (ctx s2))) (cctx t') (ctx (cell_set row col v s2))"
      unfolding explosion_messages by (auto simp: on)
  qed simp
  moreover have "blast_step idx s (snd (c_rand s))" "blast_step idx s s2" by (rule blast_silent [OF assms(1,2)]; simp add: same)+
  moreover have "maybe_spawn_bonus row col s = (if fst (c_rand s) mod 100 < 25 then ?told else snd (c_rand s))"
    by (simp add: maybe_spawn_bonus_def Let_def case_prod_beta explosion_payloads s2_def pick_def v_def del: msg_code.simps)
  ultimately show ?thesis using blast_step_trans [of idx s s2 ?told] by simp
qed

text \<open>Everything that happens on one cell.\<close>

lemma cell_step:
  assumes "board_ok (ctx s)" "fds_ok (ctx s)" "in_map (ctx s) row col"
  shows "blast_step idx s (snd (apply_explosion_cell row col x flag s))"
proof -
  let ?s2 = "mark_players_dead_on_cell row col (chain_bombs_on_cell row col x s)"
  have "blast_step idx s (chain_bombs_on_cell row col x s)" by (rule chain_step [OF assms(1,2)])
  then have two: "blast_step idx s ?s2" by (blast intro: blast_step_trans dead_step dest: blast_stepD(1,2))
  have "in_map (ctx ?s2) row col" using assms(3) blast_stepD(7) [OF two] by simp
  then have three: "blast_step idx ?s2 (broadcast_block_destroyed row col (cell_set row col CELL_EMPTY ?s2))"
    by (rule destroyed_step [OF blast_stepD(1,2) [OF two]])
  let ?s3 = "broadcast_block_destroyed row col (cell_set row col CELL_EMPTY ?s2)"
  have "in_map (ctx ?s3) row col" using assms(3) blast_stepD(7) [OF two] blast_stepD(7) [OF three] by simp
  then have "blast_step idx ?s3 (maybe_spawn_bonus row col ?s3)" by (rule bonus_step [OF blast_stepD(1,2) [OF three]])
  with two three have "blast_step idx s (maybe_spawn_bonus row col ?s3)" by (blast intro: blast_step_trans)
  with two show ?thesis by (simp add: apply_explosion_cell_def Let_def)
qed

section \<open>One direction\<close>

lemma dir_step:
  assumes "explode_dir dr dc b x step s = Some t"
  shows "board_ok (ctx s) \<longrightarrow> fds_ok (ctx s) \<longrightarrow> blast_step idx s t"
proof (rule explode_dir.raw_induct [where P = "\<lambda>dr dc b x step s t. board_ok (ctx s) \<longrightarrow> fds_ok (ctx s) \<longrightarrow> blast_step idx s t",
    OF _ assms], intro impI)
  fix go :: "int \<Rightarrow> int \<Rightarrow> bomb_t \<Rightarrow> nat \<Rightarrow> u8 \<Rightarrow> server_sys \<Rightarrow> server_sys option" and dr dc b x step and s t :: server_sys
  assume IH: "\<And>dr dc b x step s t. go dr dc b x step s = Some t \<Longrightarrow> board_ok (ctx s) \<longrightarrow> fds_ok (ctx s) \<longrightarrow> blast_step idx s t"
    and ok: "board_ok (ctx s)" "fds_ok (ctx s)"
  assume run: "(if \<not> step \<le> bm_radius b then Some s
      else
        let next_row = int (unat (bm_row b)) + dr * int (unat step);
            next_col = int (unat (bm_col b)) + dc * int (unat step) in
        if next_row < 0 \<or> next_col < 0 \<or> next_row \<ge> int (unat (map_rows (game_map (ctx s)))) \<or>
           next_col \<ge> int (unat (map_cols (game_map (ctx s)))) then Some s
        else if gs_cell_get (state (ctx s)) (of_int next_row) (of_int next_col) = CELL_HARD then Some s
        else
          let r = apply_explosion_cell (of_int next_row) (of_int next_col) x False s in
          if fst r then Some (snd r) else go dr dc b x (step + 1) (snd r)) = Some t"
  let ?row = "int (unat (bm_row b)) + dr * int (unat step)" and ?col = "int (unat (bm_col b)) + dc * int (unat step)"
  let ?r = "apply_explosion_cell (of_int ?row) (of_int ?col) x False s"
  show "blast_step idx s t"
  proof (cases "step \<le> bm_radius b \<and> on_board (ctx s) (?row, ?col) \<and> gs_cell_get (state (ctx s)) (of_int ?row) (of_int ?col) \<noteq> CELL_HARD")
    case False
    then have "t = s" using run by (auto simp: on_board_def Let_def split: if_splits)
    then show ?thesis using blast_refl [OF ok] by simp
  next
    case True
    then have "in_map (ctx s) (of_int ?row) (of_int ?col)" using on_board_in_bounds [OF ok(1), of "(?row, ?col)"] by simp
    then have one: "blast_step idx s (snd ?r)" by (rule cell_step [OF ok])
    have "t = snd ?r \<or> go dr dc b x (step + 1) (snd ?r) = Some t"
      using run True by (auto simp: on_board_def Let_def split: if_splits)
    then show ?thesis using one IH blast_stepD(1,2) [OF one] blast_step_trans by blast
  qed
qed

section \<open>The end of an explosion\<close>

text \<open>When the server empties the cell of the bomb, the client still shows the bomb, if it showed it before.\<close>

lemma near_emptied:
  assumes N: "near B t c" and "gs_cell_get (state c) r k = CELL_BOMB" "make_cell_index r k (map_cols (game_map c)) \<in> B"
    and dims: "map_rows (game_map c') = map_rows (game_map c)" "map_cols (game_map c') = map_cols (game_map c)"
    and get: "\<And>r' k'. gs_cell_get (state c') r' k' = (if r' = r \<and> k' = k then CELL_EMPTY else gs_cell_get (state c) r' k')"
  shows "near B t c'"
proof -
  have in_map: "in_map c' = in_map c" by (simp add: in_map_def fun_eq_iff dims)
  have "shown B (map_cols (game_map c)) r' k' (gs_cell_get (cc_state t) r' k') (gs_cell_get (state c') r' k')" if "in_map c r' k'" for r' k'
  proof -
    have "shown B (map_cols (game_map c)) r' k' (gs_cell_get (cc_state t) r' k') (gs_cell_get (state c) r' k')"
      using N that by (simp add: near_def agrees_def)
    then show ?thesis using assms(2,3) by (auto simp: get shown_def)
  qed
  then show ?thesis using N by (auto simp: near_def agrees_def fire_within_def in_map dims)
qed

lemma refund_frame:
  "clients (ctx (refund_owner oid s)) = clients (ctx s)" "explosions (ctx (refund_owner oid s)) = explosions (ctx s)"
  "game_map (ctx (refund_owner oid s)) = game_map (ctx s)"
  "initial_cell_count (ctx (refund_owner oid s)) = initial_cell_count (ctx s)" "env (refund_owner oid s) = env s"
  by (simp_all add: refund_owner_def upd_player_def upd_state_def split: option.split)

lemma burning_slot:
  assumes "i < length (explosions c)" "\<not> ex_active (explosions c ! i)" and e: "ex_active e"
    and c': "explosions c' = (explosions c)[i := e]"
  shows "insert (ex_cell_index e) (burning c) \<subseteq> burning c'"
proof -
  have "e \<in> set (explosions c')" using assms(1) c' by (simp add: set_update_memI)
  moreover have "y \<in> set (explosions c')" if y: "y \<in> set (explosions c)" "ex_active y" for y
  proof -
    obtain j where j: "j < length (explosions c)" "explosions c ! j = y" using y(1) by (auto simp: in_set_conv_nth)
    then have "j \<noteq> i" using y(2) assms(2) by auto
    then show ?thesis using j c' by (metis length_list_update nth_list_update_neq nth_mem)
  qed
  ultimately show ?thesis using e by (auto simp: burning_def)
qed

lemma schedule_kept:
  fixes s s3 :: server_sys and row col :: u16
  defines "idx \<equiv> make_cell_index row col (map_cols (game_map (ctx s)))"
  assumes s: "board_ok (ctx s)" "fds_ok (ctx s)" "in_map (ctx s) row col" "gs_cell_get (state (ctx s)) row col = CELL_BOMB"
      "length (explosions (ctx s)) = MAX_BOMBS"
    and s3: "board_ok (ctx s3)" "clients (ctx s3) = clients (ctx s)" "explosions (ctx s3) = explosions (ctx s)" "env_sent (env s3) = env_sent (env s)"
      "map_rows (game_map (ctx s3)) = map_rows (game_map (ctx s))" "map_cols (game_map (ctx s3)) = map_cols (game_map (ctx s))"
    and get: "\<And>r k. gs_cell_get (state (ctx s3)) r k = (if r = row \<and> k = col then CELL_EMPTY else gs_cell_get (state (ctx s)) r k)"
  shows "kept (near_blast idx) (\<lambda>t c. near (burning c) t c) s (schedule_explosion_end idx s3)"
proof -
  have N: "near (insert idx (burning (ctx s))) t (ctx s3)" if "near_blast idx t (ctx s)" for t
    by (rule near_emptied [OF that [unfolded near_blast_def] s(4) _ s3(5,6) get]) (simp add: idx_def)
  have fds: "fds_ok (ctx s3)" using s(2) by (simp add: fds_ok_cong [OF s3(2)])
  have told: "kept (near_blast idx) (\<lambda>t c. near (burning c) t c) s (broadcast_explosion_end idx s3)"
    unfolding broadcast_explosion_end_def explosion_payloads
  proof (rule kept_told [OF s(2) _ _ framed_fixed(8) explosion_wire_lengths(5)])
    fix t :: client_sys assume t: "near_blast idx (cctx t) (ctx s)"
    have idx3: "make_cell_index row col (map_cols (game_map (ctx s3))) = idx" by (simp only: idx_def s3(6))
    have in3: "in_map (ctx s3) row col" using s(3) by (simp add: in_map_def s3(5,6))
    have sub: "insert idx (burning (ctx s)) - {idx} \<subseteq> burning (ctx s3)" unfolding burning_cong [OF s3(3)] by blast
    have "gs_cell_get (state (ctx s3)) row col \<in> {CELL_EMPTY, CELL_BOMB}" by (simp add: get)
    from end_arrives [OF N [OF t] s3(1) in3, unfolded idx3, OF sub this] obtain t' where
      t': "on_explosion_end (explosion_end_wire \<lparr>ee_cell_index = idx\<rparr>) (cctx t) = Some t'" "near (burning (ctx s3)) t' (ctx s3)"
      by blast
    then show "\<exists>t'. client_handle_server_message \<lparr>h_msg_type = msg_code MSG_EXPLOSION_END, h_sender_id = SERVER_ENDPOINT_ID,
        h_target_id = BROADCAST_ENDPOINT_ID\<rparr> (explosion_end_wire \<lparr>ee_cell_index = idx\<rparr>) t = Some (0, t') \<and>
        near (burning (ctx (broadcast_encoded (msg_code MSG_EXPLOSION_END) SERVER_ENDPOINT_ID
          (Some (explosion_end_wire \<lparr>ee_cell_index = idx\<rparr>)) (-1) s3))) (cctx t')
          (ctx (broadcast_encoded (msg_code MSG_EXPLOSION_END) SERVER_ENDPOINT_ID (Some (explosion_end_wire \<lparr>ee_cell_index = idx\<rparr>)) (-1) s3))"
      unfolding explosion_messages by (intro exI [of _ "upd_cctx (\<lambda>_. t') t"]) (simp add: upd_cctx_def)
  qed (simp_all add: broadcast_payload [OF fds] to_all_cong [OF s3(2)] s3(2,4) del: msg_code.simps)
  show ?thesis
  proof (cases "explosion_duration_ticks (ctx s3) = 0 \<or> first_index MAX_BOMBS (\<lambda>i. \<not> ex_active (explosions (ctx s3) ! i)) = None")
    case True
    then have "schedule_explosion_end idx s3 = broadcast_explosion_end idx s3" by (auto simp: schedule_explosion_end_def Let_def)
    then show ?thesis using told by simp
  next
    case False
    then obtain i where i: "first_index MAX_BOMBS (\<lambda>i. \<not> ex_active (explosions (ctx s3) ! i)) = Some i" by auto
    let ?e = "\<lparr>ex_active = True, ex_cell_index = idx, ex_remaining_ticks = explosion_duration_ticks (ctx s3)\<rparr>"
    have sch: "schedule_explosion_end idx s3 = upd_ctx (\<lambda>c. c\<lparr>explosions := (explosions c)[i := ?e]\<rparr>) s3"
      using False i by (simp add: schedule_explosion_end_def Let_def)
    have "i < 64" "\<not> ex_active (explosions (ctx s3) ! i)" using first_index_SomeD [OF i] by simp_all
    then have sub: "insert idx (burning (ctx s3)) \<subseteq> burning (ctx (schedule_explosion_end idx s3))"
      using burning_slot [of i "ctx s3" ?e "ctx (schedule_explosion_end idx s3)"] s(5) s3(3) by (simp add: sch)
    have "near (burning (ctx (schedule_explosion_end idx s3))) t (ctx (schedule_explosion_end idx s3))" if "near_blast idx t (ctx s)" for t
      using near_mono [OF N [OF that] sub [unfolded burning_cong [OF s3(3)]]] by (rule near_cong) (simp add: sch)
    then show ?thesis by (intro kept_silent) (simp_all add: sch s3(2,4))
  qed
qed

section \<open>The whole explosion\<close>

lemma near_then_sync:
  assumes "server_inv (ctx s)"
  shows "kept (\<lambda>t c. near (burning c) t c) follows s (server_send_sync_to_all s)"
proof (rule kept_sync [OF assms])
  fix t assume N: "near (burning (ctx s)) t (ctx s)"
  let ?D = "shown (burning (ctx s)) (map_cols (game_map (ctx s)))"
  have "follows t' (ctx s)" if "tracks ?D (cc_explosions t) t' (ctx s)" for t'
    using that N by (simp add: follows_tracks near_def tracksD(2))
  then show "\<exists>D. agrees D t (ctx s) \<and> (\<forall>t'. tracks D (cc_explosions t) t' (ctx s) \<longrightarrow> follows t' (ctx s))"
    using N by (intro exI [of _ ?D]) (simp add: near_def)
qed

lemma finish_kept:
  fixes s :: server_sys and b :: bomb_t
  defines "idx \<equiv> make_cell_index (bm_row b) (bm_col b) (map_cols (game_map (ctx s)))"
  assumes s: "board_ok (ctx s)" "fds_ok (ctx s)" "in_map (ctx s) (bm_row b) (bm_col b)"
      "gs_cell_get (state (ctx s)) (bm_row b) (bm_col b) = CELL_BOMB" "length (explosions (ctx s)) = MAX_BOMBS"
    and inv: "server_inv (ctx (finish_explosion b x s))"
  shows "kept (near_blast idx) follows s (finish_explosion b x s)"
proof -
  let ?s1 = "cell_set (bm_row b) (bm_col b) CELL_EMPTY s"
  let ?s3 = "refund_owner (bm_owner_id b) (upd_ctx (upd_state (\<lambda>st. gs_clear_bomb st x)) ?s1)"
  note cs = cell_set_in_map [OF s(1,3), of CELL_EMPTY]
  have s3: "clients (ctx ?s3) = clients (ctx ?s1)" "explosions (ctx ?s3) = explosions (ctx ?s1)" "game_map (ctx ?s3) = game_map (ctx ?s1)"
    "initial_cell_count (ctx ?s3) = initial_cell_count (ctx ?s1)" "env ?s3 = env s"
    by (simp_all add: refund_frame upd_state_def gs_clear_bomb_def)
  have fin: "finish_explosion b x s = server_send_sync_to_all (schedule_explosion_end idx ?s3)"
    by (simp add: finish_explosion_def Let_def idx_def s3(3) cs(5))
  have "board_ok (ctx ?s3)" using cs(1) by (simp only: board_ok_cong [OF s3(3,4)])
  moreover have "gs_cell_get (state (ctx ?s3)) r k = (if r = bm_row b \<and> k = bm_col b then CELL_EMPTY else gs_cell_get (state (ctx s)) r k)" for r k
    using cs(6) [of r k] cell_get_state_cong [OF s3(3), of r k] by simp
  ultimately have "kept (near_blast idx) (\<lambda>t c. near (burning c) t c) s (schedule_explosion_end idx ?s3)"
    unfolding idx_def by (intro schedule_kept [OF s]) (simp_all only: s3 cs)
  moreover have "kept (\<lambda>t c. near (burning c) t c) follows (schedule_explosion_end idx ?s3) (finish_explosion b x s)"
    unfolding fin by (rule near_then_sync) (use inv in \<open>simp add: fin\<close>)
  ultimately show ?thesis by (rule kept_trans)
qed

lemma bomb_kept:
  assumes inv: "server_inv (ctx s)" and due: "i < MAX_BOMBS" "bomb_due (ctx s) i" and run: "gs_status (state (ctx s)) = GAME_RUNNING"
    and ran: "server_process_bomb_explosion i s = Some t"
  shows "kept follows follows s t" "server_inv (ctx t)" "gs_status (state (ctx t)) = GAME_RUNNING"
proof -
  note I = server_invD [OF inv]
  let ?b = "bombs (ctx s) ! i"
  let ?idx = "make_cell_index (bm_row ?b) (bm_col ?b) (map_cols (game_map (ctx s)))"
  obtain u where "server_process_bomb_explosion i s = Some u" "explosion_step (ctx s) (ctx u)"
    using process_due_bomb [OF inv due] by blast
  then have step: "explosion_step (ctx s) (ctx t)" using ran by simp
  show inv': "server_inv (ctx t)" "gs_status (state (ctx t)) = GAME_RUNNING" by (rule explosion_step_inv [OF step inv run])+
  have owner: "bm_owner_id ?b \<noteq> 0" using due(2) by (simp add: bomb_due_def)
  then have b: "in_map (ctx s) (bm_row ?b) (bm_col ?b)" "gs_cell_get (state (ctx s)) (bm_row ?b) (bm_col ?b) = CELL_BOMB"
    using I(6) due(1) by (simp_all add: bombs_ok_def)
  obtain s2 where s2: "for_opt [0..<4] (\<lambda>dir s. explode_dir (explosion_dr ! dir) (explosion_dc ! dir) ?b i 1 s)
      (snd (apply_explosion_cell (bm_row ?b) (bm_col ?b) i False (explosion_told ?b s))) = Some s2"
    "blasted (blast_area (ctx s) ?b) i (ctx s) (ctx s2)"
    using explosion_spreads [OF I(1,2) b(1)] by blast
  have t: "t = finish_explosion ?b i s2"
    using due(1) owner s2(1) ran unfolding server_process_bomb_explosion_def Let_def explosion_told_def [symmetric] by simp
  have told: "kept follows (near_blast ?idx) s (explosion_told ?b s)"
    unfolding explosion_told_def explosion_payloads
  proof (rule kept_told [OF I(11) _ _ framed_fixed(7) explosion_wire_lengths(4)])
    fix v :: client_sys assume "follows (cctx v) (ctx s)"
    then have "near (burning (ctx s)) (cctx v) (ctx s)" by (simp add: follows_def)
    from start_arrives [OF this I(2) b(1) order_refl, of "bm_radius ?b"]
    obtain v' where "on_explosion_start (explosion_start_wire \<lparr>es_radius = bm_radius ?b, es_cell_index = ?idx\<rparr>) (cctx v) = Some v'"
      "near (insert ?idx (burning (ctx s))) v' (ctx s)" by blast
    then show "\<exists>v'. client_handle_server_message \<lparr>h_msg_type = msg_code MSG_EXPLOSION_START, h_sender_id = SERVER_ENDPOINT_ID,
        h_target_id = BROADCAST_ENDPOINT_ID\<rparr> (explosion_start_wire \<lparr>es_radius = bm_radius ?b, es_cell_index = ?idx\<rparr>) v = Some (0, v') \<and>
        near_blast ?idx (cctx v') (ctx (broadcast_encoded (msg_code MSG_EXPLOSION_START) SERVER_ENDPOINT_ID
          (Some (explosion_start_wire \<lparr>es_radius = bm_radius ?b, es_cell_index = ?idx\<rparr>)) (-1) s))"
      unfolding explosion_messages by (intro exI [of _ "upd_cctx (\<lambda>_. v') v"]) (simp add: upd_cctx_def near_blast_def)
  qed (simp_all add: broadcast_payload [OF I(11)] del: msg_code.simps)
  let ?s1 = "snd (apply_explosion_cell (bm_row ?b) (bm_col ?b) i False (explosion_told ?b s))"
  have one: "blast_step ?idx (explosion_told ?b s) ?s1" by (rule cell_step) (simp_all add: I(2,11) b(1))
  have two: "blast_step ?idx (explosion_told ?b s) s2"
  proof (rule for_opt_inv [OF s2(1), where P = "blast_step ?idx (explosion_told ?b s)", OF one])
    fix d u v assume u: "blast_step ?idx (explosion_told ?b s) u"
      and v: "explode_dir (explosion_dr ! d) (explosion_dc ! d) ?b i 1 u = Some v"
    have "blast_step ?idx u v" using dir_step [OF v] blast_stepD(1,2) [OF u] by blast
    with u show "blast_step ?idx (explosion_told ?b s) v" by (rule blast_step_trans)
  qed
  note two = blast_stepD [OF two]
  have "kept (near_blast (make_cell_index (bm_row ?b) (bm_col ?b) (map_cols (game_map (ctx s2))))) follows s2 (finish_explosion ?b i s2)"
  proof (rule finish_kept [OF two(1,2)])
    show "in_map (ctx s2) (bm_row ?b) (bm_col ?b)" using b(1) two(7) by simp
    show "gs_cell_get (state (ctx s2)) (bm_row ?b) (bm_col ?b) = CELL_BOMB"
      using blastedD(7) [OF s2(2), of "bm_row ?b" "bm_col ?b"] b(2) by (simp add: cell_blast_def)
    show "length (explosions (ctx s2)) = MAX_BOMBS" using two(4) I(1) by (simp add: arrays_ok_def)
    show "server_inv (ctx (finish_explosion ?b i s2))" using inv'(1) by (simp add: t)
  qed
  then have "kept (near_blast ?idx) follows s2 t" by (simp add: two(6) t)
  then show "kept follows follows s t" using told two(3) by (blast intro: kept_trans)
qed

end
