(* ===== verification/Follow_Tick.thy ===== *)
theory Follow_Tick
  imports Follow
begin

text \<open>
  The tick keeps every client close to the server: the timers with their messages, the chain reaction,
  and the end of the round.  Together with the requests: whatever happens during a round.
\<close>

section \<open>Timers\<close>

text \<open>
  The end of an explosion clears the cell on the client, whatever the server has there by now.  \<open>Q\<close> is a
  set of cells that the client shows as empty.
\<close>

definition follows_empty :: "(u16 \<times> u16) set \<Rightarrow> client_ctx_t \<Rightarrow> server_ctx_t \<Rightarrow> bool" where
  "follows_empty Q t c \<longleftrightarrow> follows t c \<and> (\<forall>(r, k) \<in> Q. gs_cell_get (cc_state t) r k = CELL_EMPTY)"

lemma follows_empty_none [simp]: "follows_empty {} = follows"
  by (simp add: follows_empty_def fun_eq_iff)

lemma follows_quiet:
  assumes "clients (ctx s') = clients (ctx s)" "env_sent (env s') = env_sent (env s)" "game_map (ctx s') = game_map (ctx s)"
    "gs_status (state (ctx s')) = gs_status (state (ctx s))" "players (ctx s') = players (ctx s)"
    "burning (ctx s) \<subseteq> burning (ctx s')"
  shows "kept (follows_empty Q) (follows_empty Q) s s'"
proof (rule kept_silent [OF assms(1,2)])
  fix t assume F: "follows_empty Q t (ctx s)"
  then have "near (burning (ctx s')) t (ctx s')" using assms(3,6) near_cong near_mono unfolding follows_empty_def follows_def by blast
  then show "follows_empty Q t (ctx s')" using F assms(1,4,5) by (simp add: follows_empty_def follows_def same_players_def)
qed

lemmas follows_still = follows_quiet [where Q = "{}", simplified]

lemma burning_update:
  assumes "i < length (explosions c)" "explosions c' = (explosions c)[i := e]"
  shows "burning c - {ex_cell_index (explosions c ! i)} \<subseteq> burning c'"
    "ex_active e \<Longrightarrow> ex_cell_index e = ex_cell_index (explosions c ! i) \<Longrightarrow> burning c \<subseteq> burning c'"
proof -
  have kept: "y \<in> set (explosions c') \<or> y = explosions c ! i" if y: "y \<in> set (explosions c)" for y
    using y assms(2) by (metis in_set_conv_nth length_list_update nth_list_update_neq nth_mem)
  then show "burning c - {ex_cell_index (explosions c ! i)} \<subseteq> burning c'" by (auto simp: burning_def)
  show "burning c \<subseteq> burning c'" if "ex_active e" "ex_cell_index e = ex_cell_index (explosions c ! i)"
    using kept that assms set_update_memI [of i "explosions c" e] unfolding burning_def by auto metis
qed

lemma expired_kept:
  fixes i :: nat and s s1 s2 :: server_sys
  assumes s: "board_ok (ctx s)" "fds_ok (ctx s)" "explosions_ok (ctx s)" "length (explosions (ctx s)) = MAX_BOMBS"
    and i: "i < MAX_BOMBS" "ex_active (explosions (ctx s) ! i)"
    and s1: "ctx s1 = (ctx s)\<lparr>explosions := (explosions (ctx s))[i := e1]\<rparr>" "env s1 = env s"
    and s2: "ctx s2 = (ctx s)\<lparr>explosions := (explosions (ctx s))[i := e2]\<rparr>"
      "env s2 = env (broadcast_encoded (msg_code MSG_EXPLOSION_END) SERVER_ENDPOINT_ID (payload_of proto_encode_explosion_end_payload 16
        \<lparr>ee_cell_index = ex_cell_index (explosions (ctx s) ! i)\<rparr>) (-1) s1)"
    and Q': "\<And>r k. (r, k) \<in> Q' \<Longrightarrow> (r, k) \<in> Q \<or>
      in_map (ctx s) r k \<and> make_cell_index r k (map_cols (game_map (ctx s))) = ex_cell_index (explosions (ctx s) ! i)"
  shows "kept (follows_empty Q) (follows_empty Q') s s2"
proof -
  let ?idx = "ex_cell_index (explosions (ctx s) ! i)"
  have lt: "unat ?idx < unat (map_rows (game_map (ctx s))) * unat (map_cols (game_map (ctx s)))"
    using s(3) i by (simp add: explosions_ok_def)
  have "map_cols (game_map (ctx s)) \<noteq> 0" using s(1) by (auto simp: board_ok_def wf_map_def)
  then obtain r k where "split_cell_index ?idx (map_cols (game_map (ctx s))) = Some (r, k)" by (simp add: split_cell_index_def)
  from split_cell_index_bounds [OF this lt] have rk: "in_map (ctx s) r k" "make_cell_index r k (map_cols (game_map (ctx s))) = ?idx"
    by (simp_all add: in_map_def)
  have cell: "gs_cell_get (state (ctx s)) r k \<in> {CELL_EMPTY, CELL_BOMB}" using s(3) i rk unfolding explosions_ok_def by blast
  have fds: "fds_ok (ctx s1)" using s(2) by (simp add: fds_ok_def s1)
  have same: "to_all (ctx s1) = to_all (ctx s)" by (rule to_all_cong) (simp add: s1)
  have sub: "burning (ctx s) - {?idx} \<subseteq> burning (ctx s2)" using burning_update(1) [of i "ctx s" "ctx s2" e2] s(4) i(1) by (simp add: s2)
  show ?thesis
  proof (rule kept_told [OF s(2) _ _ framed_fixed(8) explosion_wire_lengths(5)])
    show "env_sent (env s2) = env_sent (env s) @ to_all (ctx s) (msg_code MSG_EXPLOSION_END) SERVER_ENDPOINT_ID
        (explosion_end_wire \<lparr>ee_cell_index = ?idx\<rparr>)"
      unfolding s2(2) explosion_payloads broadcast_payload [OF fds] by (simp add: same s1(2))
    fix t :: client_sys assume FQ: "follows_empty Q (cctx t) (ctx s)"
    then have F: "follows (cctx t) (ctx s)" by (simp add: follows_empty_def)
    then have "near (burning (ctx s)) (cctx t) (ctx s)" by (simp add: follows_def)
    from end_arrives [OF this s(1) rk(1), unfolded rk(2), OF sub cell] obtain t' where
      t': "on_explosion_end (explosion_end_wire \<lparr>ee_cell_index = ?idx\<rparr>) (cctx t) = Some t'" "near (burning (ctx s2)) t' (ctx s)"
        "gs_status (cc_state t') = gs_status (cc_state (cctx t))" "gs_players (cc_state t') = gs_players (cc_state (cctx t))"
        "\<And>r' k'. gs_cell_get (cc_state t') r' k' = (if r' = r \<and> k' = k then CELL_EMPTY else gs_cell_get (cc_state (cctx t)) r' k')"
      by blast
    have "gs_cell_get (cc_state t') r' k' = CELL_EMPTY" if "(r', k') \<in> Q'" for r' k'
      using Q' [OF that] FQ t'(5) [of r' k'] fire_slot_inj(2) [OF s(1) rk(1), of r' k'] rk(2) by (auto simp: follows_empty_def)
    moreover have "near (burning (ctx s2)) t' (ctx s2)" by (rule near_cong [OF t'(2)]) (simp add: s2)
    then have "follows t' (ctx s2)" using F t'(3,4) by (simp add: follows_def same_players_def s2(1))
    ultimately have "follows_empty Q' t' (ctx s2)" by (auto simp: follows_empty_def)
    with t'(1) show "\<exists>t'. client_handle_server_message \<lparr>h_msg_type = msg_code MSG_EXPLOSION_END, h_sender_id = SERVER_ENDPOINT_ID,
        h_target_id = BROADCAST_ENDPOINT_ID\<rparr> (explosion_end_wire \<lparr>ee_cell_index = ?idx\<rparr>) t = Some (0, t') \<and> follows_empty Q' (cctx t') (ctx s2)"
      unfolding explosion_messages by (intro exI [of _ "upd_cctx (\<lambda>_. t') t"]) (simp add: upd_cctx_def)
  qed (simp add: s2(1))
qed

definition timing :: "server_sys \<Rightarrow> bool" where
  "timing s \<longleftrightarrow> board_ok (ctx s) \<and> fds_ok (ctx s) \<and> explosions_ok (ctx s) \<and> length (explosions (ctx s)) = MAX_BOMBS"

lemma timing_update:
  assumes "timing s" "i < MAX_BOMBS" "ctx s' = (ctx s)\<lparr>explosions := (explosions (ctx s))[i := e]\<rparr>"
    and "ex_active e \<Longrightarrow> ex_active (explosions (ctx s) ! i) \<and> ex_cell_index e = ex_cell_index (explosions (ctx s) ! i)"
  shows "timing s'"
proof -
  have "explosions_ok (ctx s')"
    using assms unfolding timing_def by (intro explosions_ok_mono [where c = "ctx s" and c' = "ctx s'"]) (auto simp: nth_list_update split: if_splits)
  then show ?thesis using assms(1,3) by (simp add: timing_def board_ok_def fds_ok_def)
qed

text \<open>The cells whose explosion \<open>i\<close> ends with this tick.\<close>

definition expiring :: "server_ctx_t \<Rightarrow> nat \<Rightarrow> (u16 \<times> u16) set" where
  "expiring c i = {(r, k). in_map c r k \<and> ex_active (explosions c ! i) \<and> ex_remaining_ticks (explosions c ! i) \<le> 1 \<and>
     make_cell_index r k (map_cols (game_map c)) = ex_cell_index (explosions c ! i)}"

lemma tick_explosion_kept:
  assumes s: "timing s" and i: "i < MAX_BOMBS"
  shows "timing (tick_explosion i s) \<and> kept (follows_empty Q) (follows_empty (Q \<union> expiring (ctx s) i)) s (tick_explosion i s) \<and>
    (\<exists>e. ctx (tick_explosion i s) = (ctx s)\<lparr>explosions := (explosions (ctx s))[i := e]\<rparr>)"
proof (cases "ex_active (explosions (ctx s) ! i)")
  case False
  then have "tick_explosion i s = s" "expiring (ctx s) i = {}" by (simp_all add: tick_explosion_def expiring_def)
  then show ?thesis using s by (auto intro: kept_silent exI [of _ "explosions (ctx s) ! i"])
next
  case True
  let ?e = "explosions (ctx s) ! i"
  define e1 :: explosion_t where "e1 = (if ex_remaining_ticks ?e > 0 then ?e\<lparr>ex_remaining_ticks := ex_remaining_ticks ?e - 1\<rparr> else ?e)"
  define s1 where "s1 = (if ex_remaining_ticks ?e > 0
      then upd_ctx (\<lambda>c. c\<lparr>explosions := (explosions c)[i := (explosions c ! i)
             \<lparr>ex_remaining_ticks := ex_remaining_ticks (explosions c ! i) - 1\<rparr>]\<rparr>) s else s)"
  define told where "told = broadcast_encoded (msg_code MSG_EXPLOSION_END) SERVER_ENDPOINT_ID
      (payload_of proto_encode_explosion_end_payload 16 \<lparr>ee_cell_index = ex_cell_index ?e\<rparr>) (-1) s1"
  define s2 where "s2 = upd_ctx (\<lambda>c. c\<lparr>explosions := (explosions c)[i := (explosions c ! i)\<lparr>ex_active := False\<rparr>]\<rparr>) told"
  have len: "i < length (explosions (ctx s))" using assms by (simp add: timing_def)
  have s1: "ctx s1 = (ctx s)\<lparr>explosions := (explosions (ctx s))[i := e1]\<rparr>" "env s1 = env s" by (simp_all add: s1_def e1_def)
  have e1: "explosions (ctx s1) ! i = e1" "ex_cell_index e1 = ex_cell_index ?e" "ex_active e1"
    using len True by (simp_all add: s1(1)) (simp_all add: e1_def)
  have s2: "ctx s2 = (ctx s)\<lparr>explosions := (explosions (ctx s))[i := e1\<lparr>ex_active := False\<rparr>]\<rparr>" "env s2 = env told"
    using len by (simp_all add: s2_def told_def s1(1))
  have body: "tick_explosion i s = (if ex_remaining_ticks e1 = 0 then s2 else s1)"
    using True unfolding tick_explosion_def s1_def [symmetric] Let_def e1(1,2) told_def [symmetric] s2_def [symmetric] by simp
  have last: "ex_remaining_ticks e1 = 0 \<longleftrightarrow> ex_remaining_ticks ?e \<le> 1"
    by (auto simp: e1_def word_less_nat_alt word_le_nat_alt unat_eq_0 [symmetric] unat_sub_if_size)
  have "kept (follows_empty Q) (follows_empty Q) s s1"
    using burning_update(2) [of i "ctx s" "ctx s1" e1] e1 len by (intro follows_quiet) (simp_all add: s1)
  moreover have "expiring (ctx s) i = {}" if "ex_remaining_ticks e1 \<noteq> 0" using that last by (simp add: expiring_def)
  moreover have "kept (follows_empty Q) (follows_empty (Q \<union> expiring (ctx s) i)) s s2"
    by (rule expired_kept [OF _ _ _ _ i True s1 s2(1)]) (use s in \<open>auto simp: timing_def s2(2) told_def expiring_def\<close>)
  moreover have "timing s1" "timing s2"
    using timing_update [OF s i s1(1)] timing_update [OF s i s2(1)] e1(2) True by simp_all
  ultimately show ?thesis using s1(1) s2(1) by (auto simp: body)
qed

lemma explosion_timers_kept:
  assumes "timing s"
  shows "kept follows (follows_empty (\<Union>i < MAX_BOMBS. expiring (ctx s) i)) s (process_explosion_timers s)"
proof -
  let ?P = "\<lambda>n t. timing t \<and> (\<exists>es. ctx t = (ctx s)\<lparr>explosions := es\<rparr> \<and> (\<forall>j \<ge> n. es ! j = explosions (ctx s) ! j)) \<and>
    kept follows (follows_empty (\<Union>i < n. expiring (ctx s) i)) s t"
  have "?P 64 (process_explosion_timers s)"
    unfolding process_explosion_timers_def
  proof (rule for_range_inv [where P = ?P])
    have "ctx s = (ctx s)\<lparr>explosions := explosions (ctx s)\<rparr>" by simp
    then show "?P 0 s" using assms by (intro conjI exI [of _ "explosions (ctx s)"]) (simp_all add: kept_silent)
    fix i t assume i: "i < 64" and t: "?P i t"
    then obtain es where es: "ctx t = (ctx s)\<lparr>explosions := es\<rparr>" "\<forall>j \<ge> i. es ! j = explosions (ctx s) ! j" by blast
    have "expiring (ctx t) i = expiring (ctx s) i" by (simp add: expiring_def es in_map_def)
    moreover have "(\<Union>j < Suc i. expiring (ctx s) j) = (\<Union>j < i. expiring (ctx s) j) \<union> expiring (ctx s) i" by (auto simp: less_Suc_eq)
    ultimately show "?P (Suc i) (tick_explosion i t)"
      using tick_explosion_kept [of t i "\<Union>j < i. expiring (ctx s) j"] t i es
      by (auto intro: kept_trans)
  qed
  then show ?thesis by simp
qed

section \<open>The chain reaction\<close>

lemma explode_pass_kept:
  assumes "server_inv (ctx s)" "gs_status (state (ctx s)) = GAME_RUNNING" and pass: "explode_pass s = Some (e, t)"
  shows "server_inv (ctx t) \<and> gs_status (state (ctx t)) = GAME_RUNNING \<and> kept follows follows s t"
proof -
  let ?P = "\<lambda>(e :: bool, t). server_inv (ctx t) \<and> gs_status (state (ctx t)) = GAME_RUNNING \<and> kept follows follows s t"
  have "?P (e, t)"
  proof (rule for_opt_inv [OF pass [unfolded explode_pass_def], where P = ?P])
    show "?P (False, s)" using assms(1,2) by (auto intro: kept_silent)
    fix i p q
    assume i: "i \<in> set [0..<MAX_BOMBS]" and p: "?P p" and q: "(case p of (e, s) \<Rightarrow> if bomb_due (ctx s) i
        then map_option (\<lambda>s. (True, s)) (server_process_bomb_explosion i s) else Some (e, s)) = Some q"
    obtain b u where pu: "p = (b, u)" by (cases p)
    show "?P q"
    proof (cases "bomb_due (ctx u) i")
      case False
      then show ?thesis using p q by (auto simp: pu)
    next
      case True
      then obtain v where v: "server_process_bomb_explosion i u = Some v" "q = (True, v)" using q by (auto simp: pu)
      have "kept follows follows u v" "server_inv (ctx v)" "gs_status (state (ctx v)) = GAME_RUNNING"
        by (rule bomb_kept [OF _ _ True _ v(1)]; use i p in \<open>simp add: pu\<close>)+
      then show ?thesis using p v(2) by (auto simp: pu intro: kept_trans)
    qed
  qed
  then show ?thesis by simp
qed

lemma explode_all_kept:
  assumes "explode_all s = Some t"
  shows "server_inv (ctx s) \<longrightarrow> gs_status (state (ctx s)) = GAME_RUNNING \<longrightarrow> kept follows follows s t"
proof (rule explode_all.raw_induct [where P = "\<lambda>s t. server_inv (ctx s) \<longrightarrow> gs_status (state (ctx s)) = GAME_RUNNING \<longrightarrow>
    kept follows follows s t", OF _ assms], intro impI)
  fix go :: "server_sys \<Rightarrow> server_sys option" and s t :: server_sys
  assume IH: "\<And>s t. go s = Some t \<Longrightarrow> server_inv (ctx s) \<longrightarrow> gs_status (state (ctx s)) = GAME_RUNNING \<longrightarrow> kept follows follows s t"
    and run: "(case explode_pass s of None \<Rightarrow> None | Some r \<Rightarrow> if fst r then go (snd r) else Some (snd r)) = Some t"
    and s: "server_inv (ctx s)" "gs_status (state (ctx s)) = GAME_RUNNING"
  obtain e u where u: "explode_pass s = Some (e, u)" using run by (cases "explode_pass s") auto
  note P = explode_pass_kept [OF s u]
  show "kept follows follows s t"
  proof (cases e)
    case True
    then have "go u = Some t" using run u by simp
    then show ?thesis using IH P by (blast intro: kept_trans)
  next
    case False
    then show ?thesis using run u P by simp
  qed
qed

section \<open>The end of the round\<close>

lemma follows_log: "follows t c \<Longrightarrow> follows (on_winner p t) c"
  using tracks_log(3) [of _ _ t c p] unfolding follows_tracks by (metis tracksD(2))

lemma status_arrives:
  assumes F: "follows t c" and st: "ucast (ucast st :: u8) = (st :: u32)"
  shows "follows (on_set_status [ucast st] t) (upd_state (\<lambda>g. g\<lparr>gs_status := st\<rparr>) c)"
proof -
  let ?t1 = "upd_cstate (\<lambda>g. g\<lparr>gs_status := st\<rparr>) t" and ?c1 = "upd_state (\<lambda>g. g\<lparr>gs_status := st\<rparr>) c"
  have N: "near (burning c) t c" "client_ok t" using F by (simp_all add: follows_def near_def agrees_def)
  have "near (burning c) ?t1 c"
    using N agrees_cong [of _ t c ?t1 c] ok_status [OF N(2)] by (auto simp: near_def upd_cstate_def)
  then have "near (burning ?c1) ?t1 ?c1"
    using near_cong [of "burning c" ?t1 c ?c1] by (simp add: upd_state_def burning_def)
  then have "follows ?t1 ?c1" using F by (simp add: follows_def same_players_def upd_cstate_def upd_state_def)
  moreover have "proto_decode_set_status_payload \<lparr>set_status_status = 0\<rparr> [ucast st] = Some \<lparr>set_status_status = ucast st\<rparr>"
    using set_status.dec_wire [of "\<lparr>set_status_status = 0\<rparr>" "\<lparr>set_status_status = ucast st\<rparr>"] by (simp add: set_status_wire_def)
  ultimately show ?thesis
    using tracks_log(1) [of _ _ ?t1 ?c1] st unfolding follows_tracks by (simp add: on_set_status_def)
qed

lemma finish_round_kept:
  assumes inv: "server_inv (ctx s)"
  shows "kept follows follows s (maybe_finish_round s)"
proof (cases "round_over (ctx s)")
  case False
  then show ?thesis using finish_round_emit [OF server_invD(11) [OF inv]] by (auto intro: kept_silent)
next
  case True
  note fds = server_invD(11) [OF inv]
  let ?c1 = "upd_state (\<lambda>g. g\<lparr>gs_status := GAME_END\<rparr>) (ctx s)"
  let ?s1 = "emit (to_all (ctx s) (msg_code MSG_SET_STATUS) SERVER_ENDPOINT_ID [2]) (upd_ctx (upd_state (\<lambda>g. g\<lparr>gs_status := GAME_END\<rparr>)) s)"
  have one: "kept follows follows s ?s1"
  proof (rule kept_told [OF fds])
    show "well_framed (msg_code MSG_SET_STATUS) [2]" using framed_fixed(2) [of "\<lparr>set_status_status = 2\<rparr>"] by (simp add: set_status_wire_def)
    fix t :: client_sys assume "follows (cctx t) (ctx s)"
    from status_arrives [OF this, of GAME_END]
    show "\<exists>t'. client_handle_server_message \<lparr>h_msg_type = msg_code MSG_SET_STATUS, h_sender_id = SERVER_ENDPOINT_ID,
        h_target_id = BROADCAST_ENDPOINT_ID\<rparr> [2] t = Some (0, t') \<and> follows (cctx t') (ctx ?s1)"
      unfolding explosion_messages by simp
  qed (simp_all add: upd_state_def)
  have fin: "maybe_finish_round s = emit (verdict (ctx s)) (upd_ctx (upd_state (\<lambda>g. g\<lparr>gs_status := GAME_END\<rparr>)) s)"
    using True finish_round_emit [OF fds] by simp
  show ?thesis
  proof (cases "\<exists>i. alive_slots (ctx s) = [i]")
    case False
    then have "verdict (ctx s) = to_all (ctx s) (msg_code MSG_SET_STATUS) SERVER_ENDPOINT_ID [2]"
      by (auto simp: verdict_def split: list.splits)
    then show ?thesis using one by (simp add: fin)
  next
    case True
    then obtain i where i: "alive_slots (ctx s) = [i]" by blast
    let ?p = "winner_wire \<lparr>winner_winner_id = pl_id (players (ctx s) ! i)\<rparr>"
    have "kept follows follows ?s1 (maybe_finish_round s)"
    proof (rule kept_told [OF _ _ _ framed_fixed(13)])
      show "env_sent (env (maybe_finish_round s)) = env_sent (env ?s1) @ to_all (ctx ?s1) (msg_code MSG_WINNER) SERVER_ENDPOINT_ID ?p"
        using i to_all_cong [of ?c1 "ctx s"] by (simp add: fin verdict_def winner_wire_def upd_state_def del: msg_code.simps)
      fix t :: client_sys assume "follows (cctx t) (ctx ?s1)"
      then show "\<exists>t'. client_handle_server_message \<lparr>h_msg_type = msg_code MSG_WINNER, h_sender_id = SERVER_ENDPOINT_ID,
          h_target_id = BROADCAST_ENDPOINT_ID\<rparr> ?p t = Some (0, t') \<and> follows (cctx t') (ctx (maybe_finish_round s))"
        unfolding explosion_messages by (simp add: fin follows_log)
    qed (use fds in \<open>simp_all add: fin winner_wire_def fds_ok_def upd_state_def\<close>)
    with one show ?thesis by (rule kept_trans)
  qed
qed

section \<open>The tick\<close>

lemma tick_kept:
  assumes inv: "server_inv (ctx s)" and tick: "server_tick s = Some t"
  shows "kept follows follows s t"
proof -
  note I = server_invD [OF inv]
  let ?s0 = "upd_ctx (upd_state (\<lambda>st. st\<lparr>gs_tick := gs_tick st + 1\<rparr>)) s"
  let ?s1 = "process_explosion_timers ?s0"
  have "kept follows follows s ?s0" by (rule follows_still) (simp_all add: upd_state_def burning_def)
  moreover have "gs_cell_get (state (ctx ?s0)) r k = gs_cell_get (state (ctx s)) r k" for r k
    by (rule cell_get_state_cong) (simp add: upd_state_def)
  then have "explosions_ok (ctx ?s0)" using I(9)
    by (intro explosions_ok_mono [OF I(9)]) (simp_all del: ctx_upd_ctx, simp_all add: upd_state_def)
  then have "timing ?s0" using I(1,2,11) by (simp add: timing_def upd_state_def board_ok_def fds_ok_def arrays_ok_def)
  then have "kept follows follows ?s0 ?s1"
    by (rule kept_weaken [OF explosion_timers_kept]) (simp_all add: follows_empty_def)
  ultimately have one: "kept follows follows s ?s1" by (rule kept_trans)
  have c1: "ctx ?s1 = (ctx s)\<lparr>state := (state (ctx s))\<lparr>gs_tick := gs_tick (state (ctx s)) + 1\<rparr>,
      explosions := map explosion_ticked (explosions (ctx s))\<rparr>"
    using I(1) by (subst process_explosion_timers_ctx) (simp_all add: upd_state_def arrays_ok_def)
  show ?thesis
  proof (cases "gs_status (state (ctx s)) = GAME_RUNNING")
    case False
    then have "t = ?s1" using tick unfolding server_tick_def Let_def c1 by simp
    with one show ?thesis by simp
  next
    case True
    let ?s2 = "upd_ctx tick_bomb_timers ?s1"
    have c2: "ctx ?s2 = timers_ticked (ctx s)"
      using I(1) True unfolding ctx_upd_ctx c1
      by (subst tick_bomb_timers_ctx) (simp_all add: arrays_ok_def timers_ticked_def)
    have two: "kept follows follows ?s1 ?s2"
      by (rule follows_still) (simp_all only: c1 c2, simp_all add: timers_ticked_def burning_def)
    have s2: "server_inv (ctx ?s2)" "gs_status (state (ctx ?s2)) = GAME_RUNNING"
      unfolding c2 using timers_ticked_inv [OF inv] True by (simp_all add: timers_ticked_def)
    obtain u where u: "explode_all ?s2 = Some u" "t = maybe_finish_round u"
      using tick True unfolding server_tick_def Let_def c1 by auto
    have three: "kept follows follows ?s2 u" using explode_all_kept [OF u(1)] s2 by blast
    have "server_inv (ctx u)" using explode_all_run [OF s2] u(1) by auto
    then have "kept follows follows u t" unfolding u(2) by (rule finish_round_kept)
    then show ?thesis using kept_trans [OF kept_trans [OF kept_trans [OF one two] three]] by blast
  qed
qed

section \<open>A round\<close>

text \<open>What happens to the server during a round: a message from a client, or a tick.\<close>

datatype round_event = Request nat msg_header_t "u8 list" | Tick

fun play :: "round_event \<Rightarrow> server_sys \<Rightarrow> server_sys option" where
  "play (Request i h p) s = Some (snd (server_handle_client_message i h p s))"
| "play Tick s = server_tick s"

fun round_allowed :: "round_event \<Rightarrow> server_client_t list \<Rightarrow> bool" where
  "round_allowed (Request i h p) cls \<longleftrightarrow> i < MAX_PLAYERS \<and> cl_active (cls ! i) \<and> round_request h p"
| "round_allowed Tick cls \<longleftrightarrow> True"

interpretation playing: kept_events follows play round_allowed
proof
  fix s :: server_sys and r
  assume inv: "server_inv (ctx s)" and ok: "round_allowed r (clients (ctx s))"
  show "\<exists>s'. play r s = Some s' \<and> server_inv (ctx s') \<and> kept follows follows s s'"
  proof (cases r)
    case (Request i h p)
    then have "faithful s (snd (server_handle_client_message i h p s))" using request_faithful [OF inv] ok by simp
    then show ?thesis using faithful_follows faithfulD(1) by (auto simp: Request)
  next
    case Tick
    then show ?thesis using server_tick_run [OF inv] tick_kept [OF inv] by auto
  qed
qed

end
