(* ===== verification/Client_Samples.thy ===== *)
theory Client_Samples
  imports Samples Follow_Tick
begin

text \<open>
  Concrete clients: a fresh one, one that mirrors the sample round, and a connection that delivers
  its bytes one at a time.
\<close>

definition sample_client :: client_sys where
  "sample_client = \<lparr>cctx = client_init (text_of ''ann'') 3, cs_sent = [], cs_calloc = (\<lambda>_. True), cs_calloc_pos = 0\<rparr>"

lemma sample_client_ok: "client_ok (cctx sample_client)"
  by (simp add: sample_client_def init_ok)

lemma sample_client_fields:
  "cs_calloc sample_client (cs_calloc_pos sample_client)" "cs_sent sample_client = []"
  "map_cols (gs_map (cc_state (cctx sample_client))) = 0" "cc_player_id (cctx sample_client) = 0"
  "log_lines (cctx sample_client) = []"
  by (simp_all add: sample_client_def client_init_def gs_init_def log_lines_def log_count_def)

definition drip :: "u8 list \<Rightarrow> inbox" where
  "drip bytes = \<lparr>in_stream = bytes, in_polls = [], in_recvs = replicate (length bytes) (Recv_Data 1)\<rparr>"

lemma drip_steady: "need \<le> length bytes \<Longrightarrow> steady (-1) need (drip bytes)"
  by (simp add: steady_def drip_def delivers_def)

lemma drip_stream [simp]: "in_stream (drip bytes) = bytes"
  by (simp add: drip_def)

text \<open>A client that was just sent the board of a server shows no fire.\<close>

lemma sample_told:
  assumes "server_inv c" "j \<in> set (active_slots c)"
  shows "\<exists>t :: client_sys. mirrors (cctx t) c \<and> cc_explosions (cctx t) = replicate MAX_MAP_CELLS 0"
proof -
  have "env_malloc (env (sample_sys c)) n" for n by (simp add: sample_sys_def sample_start_def)
  then have "\<exists>new. \<forall>j \<in> set (active_slots c). \<forall>t. client_ok (cctx t) \<longrightarrow> cs_calloc t (cs_calloc_pos t) \<longrightarrow>
      (\<exists>t'. apply_messages (delivered (cl_fd (clients c ! j)) new) t = Some t' \<and> mirrors (cctx t') c \<and>
        cc_explosions (cctx t') = cc_explosions (cctx t))"
    using board_broadcast [of "sample_sys c"] assms(1) unfolding ctx_sample_sys by blast
  moreover have "cc_explosions (cctx sample_client) = replicate MAX_MAP_CELLS 0" by (simp add: sample_client_def client_init_def)
  ultimately show ?thesis using assms(2) sample_client_ok sample_client_fields(1) by metis
qed

lemma sample_follower:
  assumes "server_inv c" "j \<in> set (active_slots c)"
  shows "\<exists>t :: client_sys. follows (cctx t) c"
  using sample_told [OF assms] mirrors_follows [OF server_invD(2) [OF assms(1)]] by force

lemma sample_slot: "0 \<in> set (active_slots sample_round)"
  using sample_active_clients by (simp add: active_slots_def)

lemma sample_mirror: "\<exists>t :: client_sys. mirrors (cctx t) sample_round"
  using sample_told [OF sample_round_inv(1) sample_slot] by blast

lemma sample_mirror_player:
  "\<exists>t :: client_sys. mirrors (cctx t) sample_round \<and> cc_player_id (cctx t) = 1 \<and> cc_has_welcome (cctx t)"
proof -
  obtain t :: client_sys where "mirrors (cctx t) sample_round" using sample_mirror by blast
  then show ?thesis
    using ok_welcome_fields(1) [where c = "cctx t" and i = 1 and b = True]
    by (intro exI [of _ "t\<lparr>cctx := (cctx t)\<lparr>cc_player_id := 1, cc_has_welcome := True\<rparr>\<rparr>"]) (simp add: mirrors_def same_players_def)
qed

text \<open>The same client after it was told its number in the sample round.\<close>

definition sample_player :: client_ctx_t where
  "sample_player = (cctx sample_client)\<lparr>cc_player_id := 1, cc_has_welcome := True\<rparr>"

lemma sample_player_ok: "client_ok sample_player" "is_player_id (cc_player_id sample_player)"
  using ok_welcome_fields(1) [OF sample_client_ok] by (simp_all add: sample_player_def is_player_id_def)

text \<open>The bomb of the first player lies on a cell on which an explosion is in its last tick.\<close>

definition sample_burning :: server_ctx_t where
  "sample_burning = sample_bombed\<lparr>explosions := (explosions sample_bombed)[0 :=
     \<lparr>ex_active = True, ex_cell_index = 0, ex_remaining_ticks = 1\<rparr>]\<rparr>"

lemma sample_bombed_cell: "gs_cell_get (state sample_bombed) 0 0 = CELL_BOMB" "in_map sample_bombed 0 0"
  "explosions sample_bombed = replicate 64 zero_explosion" "clients sample_bombed = clients sample_round"
  "map_rows (game_map sample_bombed) = 1" "map_cols (game_map sample_bombed) = 5"
proof -
  have rest: "rest sample_bombed = rest sample_round" using sample_bombed_placed by (simp add: placed_def Let_def)
  show "explosions sample_bombed = replicate 64 zero_explosion" "clients sample_bombed = clients sample_round"
    unfolding rest_fields [OF rest]
    by (simp_all add: sample_round_def started_def sample_lobby_def sample_two_def sample_one_def connected_def replaced_def
        upd_player_def upd_state_def sample_loaded_fields)
  show dims: "map_rows (game_map sample_bombed) = 1" "map_cols (game_map sample_bombed) = 5"
    using sample_bombed_placed by (simp_all add: placed_def Let_def sample_round_fields sample_loaded_fields)
  show "in_map sample_bombed 0 0" by (simp add: in_map_def dims)
  show "gs_cell_get (state sample_bombed) 0 0 = CELL_BOMB"
    using sample_bombed_placed by (simp add: placed_def Let_def sample_round_players)
qed

lemma sample_burning_inv: "server_inv sample_burning"
proof -
  note I = server_invD [OF sample_bombed_inv(1)] and B = sample_bombed_cell
  have same: "in_map sample_burning = in_map sample_bombed" "own_bombs sample_burning = own_bombs sample_bombed"
    by (simp_all add: sample_burning_def in_map_def own_bombs_def fun_eq_iff)
  have cell: "gs_cell_get (state sample_bombed) r k = CELL_BOMB" if "in_map sample_bombed r k" "make_cell_index r k 5 = 0" for r k
  proof -
    have "r = 0 \<and> k = 0" using that make_cell_index_inj [of r 1 k 5 0 0] by (simp add: in_map_def B make_cell_index_def)
    then show ?thesis by (simp add: B)
  qed
  have "explosions_ok sample_burning"
    unfolding explosions_ok_def same using cell
    by (auto simp: sample_burning_def B nth_list_update zero_explosion_def split: if_splits)
  moreover have "lobby_ok sample_burning" using sample_bombed_inv(2) by (simp add: lobby_ok_def sample_burning_def)
  ultimately show ?thesis
    using I(1-7,10,11) by (intro server_invI; unfold arrays_ok_def board_ok_def ids_ok_def places_ok_def life_ok_def bombs_ok_def
      stock_ok_def names_ok_def fds_ok_def same) (simp_all add: sample_burning_def)
qed

end
