(* ===== verification/Screen.thy ===== *)
theory Screen
  imports Client_Spec Input_Handler
begin

text \<open>
  \<open>client/ui.c\<close>: how a client is drawn.  The screen buffer is a function of the row and the column;
  an access outside its \<open>512\<close> rows and columns, and \<open>players[player_id - 1]\<close> outside the array, are
  undefined behaviour and have the result \<open>None\<close>, as has a loop that does not end.  What \<open>ioctl\<close>
  reports, whether \<open>malloc\<close> and \<open>write\<close> succeed, are inputs; what is written is a result.
\<close>

section \<open>The screen buffer\<close>

abbreviation (input) MAX_ROWS :: nat where "MAX_ROWS \<equiv> 512"
abbreviation (input) MAX_COLS :: nat where "MAX_COLS \<equiv> 512"
abbreviation (input) CHAR_NOCHAR :: u8 where "CHAR_NOCHAR \<equiv> 0"

record screen =
  screen_resized :: bool
  screen_rows :: u64
  screen_cols :: u64
  sb :: "nat \<Rightarrow> nat \<Rightarrow> u8"

definition screen_init :: screen where
  "screen_init = \<lparr>screen_resized = False, screen_rows = 128, screen_cols = 128, sb = (\<lambda>_ _. 0)\<rparr>"

definition sb_put :: "nat \<Rightarrow> nat \<Rightarrow> u8 \<Rightarrow> screen \<Rightarrow> screen option" where
  "sb_put y x v u =
     (if y < MAX_ROWS \<and> x < MAX_COLS then Some (u\<lparr>sb := (sb u)(y := (sb u y)(x := v))\<rparr>) else None)"

text \<open>\<open>for (size_t i = lo; i <= hi; i++)\<close>: with \<open>hi = SIZE_MAX\<close> the counter wraps and the loop goes on.\<close>

partial_function (option) for_words :: "u64 \<Rightarrow> u64 \<Rightarrow> (u64 \<Rightarrow> 's \<Rightarrow> 's option) \<Rightarrow> 's \<Rightarrow> 's option" where
  "for_words lo hi body s =
     (if lo \<le> hi then (case body lo s of None \<Rightarrow> None | Some t \<Rightarrow> for_words (lo + 1) hi body t) else Some s)"

definition sb_clear :: "screen \<Rightarrow> screen option" where
  "sb_clear u = for_opt [0..<unat (screen_rows u)] (\<lambda>y. for_opt [0..<unat (screen_cols u)] (\<lambda>x. sb_put y x 32)) u"

text \<open>The bytes of one frame, collected in \<open>sb_flush_buf\<close>.\<close>

definition esc :: "string \<Rightarrow> u8 list" where
  "esc s = 27 # text_of s"

definition sb_flush :: "screen \<Rightarrow> u8 list option" where
  "sb_flush u =
     for_opt [0..<unat (screen_rows u)] (\<lambda>y buf.
       let line = map (sb u y) [0..<unat (screen_cols u)] @ (if y \<noteq> unat (screen_rows u - 1) then [10] else []) in
       if y < MAX_ROWS \<and> unat (screen_cols u) \<le> MAX_COLS \<and>
          length buf + length line \<le> MAX_ROWS * (MAX_COLS + 64) + 64
       then Some (buf @ line) else None) (esc ''[1;1H'')"

definition bound :: "int \<Rightarrow> int \<Rightarrow> int \<Rightarrow> int" where
  "bound x bound_min bound_max = (if x < bound_min then bound_min else if x > bound_max then bound_max else x)"

definition update_screen_size :: "(u16 \<times> u16) option \<Rightarrow> screen \<Rightarrow> int \<times> screen" where
  "update_screen_size ws u =
     (case ws of
        None \<Rightarrow> (1, u)
      | Some (ws_row, ws_col) \<Rightarrow>
          (0, u\<lparr>screen_rows := of_int (bound (int (unat ws_row)) 0 (int MAX_ROWS)),
                screen_cols := of_int (bound (int (unat ws_col)) 0 (int MAX_COLS))\<rparr>))"

text \<open>
  A line of text.  The difference of the two \<open>size_t\<close> values becomes an \<open>int\<close>, and the \<open>int\<close> that
  \<open>bound\<close> returns becomes the length of the copy, which is enormous for a negative one.
\<close>

definition int_of_size :: "u64 \<Rightarrow> int" where
  "int_of_size w = sint (ucast w :: u32)"

definition draw_text_line_format :: "u64 \<Rightarrow> u64 \<Rightarrow> u8 list \<Rightarrow> screen \<Rightarrow> screen option" where
  "draw_text_line_format row col line u =
     (let buf = take (MAX_ROWS - 1) line @ [0];
          n = bound (int (length line)) 0 (int_of_size (screen_cols u - col));
          y = unat row; x0 = unat col
      in if n < 0 \<or> n > int MAX_ROWS \<or> y \<ge> MAX_ROWS \<or> x0 + nat n > MAX_COLS then None
         else Some (u\<lparr>sb := (sb u)(y := (\<lambda>x. if x0 \<le> x \<and> x < x0 + nat n then buf ! (x - x0) else sb u y x))\<rparr>))"

section \<open>The screens\<close>

definition draw_screen_lobby :: "client_ctx_t \<Rightarrow> screen \<Rightarrow> screen option" where
  "draw_screen_lobby c u = do {
     u \<leftarrow> draw_text_line_format 5 10 (text_of ''LOBBY'') u;
     u \<leftarrow> draw_text_line_format 7 10 (text_of ''- '' @ text_of CONTROLS_STR) u;
     if \<not> is_player_id (cc_player_id c) then None
     else draw_text_line_format 9 10
       (if pl_ready (gs_players (cc_state c) ! (unat (cc_player_id c) - 1))
        then text_of ''[YOU ARE READY]'' else text_of ''- press 'r' to get ready'') u
   }"

definition status_char :: "game_status_t \<Rightarrow> u8" where
  "status_char status = (if status = GAME_LOBBY then key CHR ''L'' else if status = GAME_RUNNING then key CHR ''R'' else key CHR ''E'')"

text \<open>The players on the copy of the map.\<close>

definition put_player :: "u16 \<Rightarrow> u16 \<Rightarrow> player_t \<Rightarrow> u8 list \<Rightarrow> u8 list" where
  "put_player rows cols player grid =
     (if pl_id player = 0 \<or> \<not> pl_alive player \<and> \<not> pl_ready player then grid
      else if pl_row player \<ge> rows \<or> pl_col player \<ge> cols then grid
      else grid[unat (make_cell_index (pl_row player) (pl_col player) cols) := 48 + pl_id player mod 10])"

definition board_grid :: "client_ctx_t \<Rightarrow> u8 list \<Rightarrow> u8 list" where
  "board_grid c cells =
     (let rows = map_rows (gs_map (cc_state c)); cols = map_cols (gs_map (cc_state c)) in
      for_range MAX_PLAYERS (\<lambda>i. put_player rows cols (gs_players (cc_state c) ! i))
        (map (\<lambda>i. cells ! i) [0..<unat rows * unat cols]))"

definition draw_board :: "nat \<Rightarrow> nat \<Rightarrow> u8 list \<Rightarrow> screen \<Rightarrow> screen option" where
  "draw_board rows cols grid =
     for_opt [0..<rows] (\<lambda>r. for_opt [0..<cols] (\<lambda>k u. do {
       u \<leftarrow> sb_put (r + 5) (k * 2 + 5) (grid ! unat (make_cell_index (of_nat r) (of_nat k) (of_nat cols))) u;
       sb_put (r + 5) (k * 2 + 1 + 5) 32 u
     }))"

definition ray_dr :: "int list" where "ray_dr = [-1, 1, 0, 0]"
definition ray_dc :: "int list" where "ray_dc = [0, 0, -1, 1]"

text \<open>One step of one of the four rays of an explosion.\<close>

definition draw_ray_cell :: "nat \<Rightarrow> nat \<Rightarrow> u8 list \<Rightarrow> int \<Rightarrow> int \<Rightarrow> screen \<Rightarrow> screen option" where
  "draw_ray_cell rows cols grid r2 c2 u =
     (if r2 < 0 \<or> r2 \<ge> int rows \<or> c2 < 0 \<or> c2 \<ge> int cols then Some u
      else if grid ! unat (make_cell_index (of_int r2) (of_int c2) (of_nat cols)) \<noteq> 46 then Some u
      else sb_put (nat r2 + 5) (nat c2 * 2 + 5) 35 u)"

definition draw_explosion :: "nat \<Rightarrow> nat \<Rightarrow> u8 list \<Rightarrow> nat \<Rightarrow> nat \<Rightarrow> nat \<Rightarrow> screen \<Rightarrow> screen option" where
  "draw_explosion rows cols grid r k rad =
     (if rad = 0 then Some
      else for_opt [0..<4] (\<lambda>dir. for_opt [0..<Suc rad] (\<lambda>i.
        draw_ray_cell rows cols grid (int r + int i * ray_dr ! dir) (int k + int i * ray_dc ! dir))))"

definition draw_explosions :: "client_ctx_t \<Rightarrow> nat \<Rightarrow> nat \<Rightarrow> u8 list \<Rightarrow> screen \<Rightarrow> screen option" where
  "draw_explosions c rows cols grid =
     for_opt [0..<rows] (\<lambda>r. for_opt [0..<cols] (\<lambda>k.
       if r * MAX_MAP_SIDE + k < MAX_MAP_CELLS
       then draw_explosion rows cols grid r k (unat (cc_explosions c ! (r * MAX_MAP_SIDE + k)))
       else (\<lambda>u. None)))"

definition player_line :: "client_ctx_t \<Rightarrow> player_t \<Rightarrow> u8 list" where
  "player_line c p =
     (if pl_id p = cc_player_id c then text_of ''['' else text_of '' '') @
     text_of ''id='' @ decimal (unat (pl_id p)) @
     text_of '' alive='' @ decimal (if pl_alive p then 1 else 0) @
     text_of '' ready='' @ decimal (if pl_ready p then 1 else 0) @
     text_of '' pos=('' @ decimal (unat (pl_row p)) @ text_of '','' @ decimal (unat (pl_col p)) @
     text_of '') bombs='' @ decimal (unat (pl_bomb_count p)) @
     text_of '' radius='' @ decimal (unat (pl_bomb_radius p)) @
     text_of '' timer='' @ decimal (unat (pl_bomb_timer_ticks p)) @
     text_of '' speed='' @ decimal (unat (pl_speed p)) @
     text_of '' name='' @ c_string (pl_name p) @
     (if pl_id p = cc_player_id c then text_of '']'' else text_of '' '')"

definition draw_players :: "client_ctx_t \<Rightarrow> u64 \<Rightarrow> screen \<Rightarrow> screen option" where
  "draw_players c rows u = do {
     u \<leftarrow> draw_text_line_format (rows + 6) 5 (text_of ''players:'') u;
     for_opt [0..<MAX_PLAYERS] (\<lambda>i u.
       let player = gs_players (cc_state c) ! i in
       if pl_id player = 0 then Some u
       else draw_text_line_format (rows + 7 + of_nat i) 5 (player_line c player) u) u
   }"

definition draw_screen_game :: "bool \<Rightarrow> client_ctx_t \<Rightarrow> screen \<Rightarrow> screen option" where
  "draw_screen_game malloc_ok c u =
     (case map_cells (gs_map (cc_state c)) of
        None \<Rightarrow> draw_text_line_format 5 5 (text_of ''[render] map not available yet'') u
      | Some cells \<Rightarrow>
          if \<not> malloc_ok then Some u
          else
            let rows = unat (map_rows (gs_map (cc_state c))); cols = unat (map_cols (gs_map (cc_state c)));
                grid = board_grid c cells
            in do {
              u \<leftarrow> draw_text_line_format 3 5 (text_of ''GAME (status='' @ [status_char (gs_status (cc_state c))] @
                     text_of '', self='' @ decimal (unat (cc_player_id c)) @ text_of '')'') u;
              u \<leftarrow> draw_board rows cols grid u;
              u \<leftarrow> draw_explosions c rows cols grid u;
              draw_players c (of_nat rows) u
            })"

definition draw_screen_game_over :: "screen \<Rightarrow> screen option" where
  "draw_screen_game_over u = do {
     u \<leftarrow> draw_text_line_format 5 5 (text_of ''GAME OVER'') u;
     draw_text_line_format 7 5 (text_of ''- press 'l' to return to lobby'') u
   }"

section \<open>Frames and the log\<close>

definition draw_rect :: "u8 \<Rightarrow> u8 \<Rightarrow> u64 \<Rightarrow> u64 \<Rightarrow> u64 \<Rightarrow> u64 \<Rightarrow> screen \<Rightarrow> screen option" where
  "draw_rect ch_fill ch_border r1 c1 r2 c2 =
     for_words r1 r2 (\<lambda>y. for_words c1 c2 (\<lambda>x u.
       let ch = (if y \<noteq> r1 \<and> y \<noteq> r2 \<and> x \<noteq> c1 \<and> x \<noteq> c2 then ch_fill else ch_border) in
       if ch \<noteq> CHAR_NOCHAR then sb_put (unat y) (unat x) ch u else Some u))"

partial_function (option) draw_log_lines :: "client_ctx_t \<Rightarrow> u64 \<Rightarrow> u64 \<Rightarrow> u64 \<Rightarrow> nat \<Rightarrow> screen \<Rightarrow> screen option" where
  "draw_log_lines c col r2 row i u =
     (if i = cc_qlog_end c \<or> row \<ge> r2 then Some u
      else case draw_text_line_format row col (c_string (cc_qlog c ! i)) u of
        None \<Rightarrow> None
      | Some u \<Rightarrow> draw_log_lines c col r2 (row + 1) ((i + 1) mod MAX_CLIENT_LOG_COUNT) u)"

definition draw_qlog :: "client_ctx_t \<Rightarrow> u64 \<Rightarrow> u64 \<Rightarrow> u64 \<Rightarrow> u64 \<Rightarrow> screen \<Rightarrow> screen option" where
  "draw_qlog c r1 c1 r2 c2 u = do {
     u \<leftarrow> draw_rect 32 35 r1 c1 r2 c2 u;
     let logs_total = (cc_qlog_end c + MAX_CLIENT_LOG_COUNT - cc_qlog_beg c) mod MAX_CLIENT_LOG_COUNT;
         logs_visible = nat (bound (int_of_size (r2 - r1 - 1)) 0 (int logs_total))
     in draw_log_lines c (c1 + 2) r2 (r1 + 1)
          ((cc_qlog_end c + MAX_CLIENT_LOG_COUNT - logs_visible) mod MAX_CLIENT_LOG_COUNT) u
   }"

section \<open>The interface\<close>

definition write_esc :: "bool \<Rightarrow> u8 list \<Rightarrow> u8 list list \<Rightarrow> int \<times> u8 list list" where
  "write_esc ok str out = (if ok then 0 else 1, out @ [str])"

definition client_ui_init :: "bool \<Rightarrow> bool \<Rightarrow> (u16 \<times> u16) option \<Rightarrow> screen \<Rightarrow> int \<times> u8 list list \<times> screen" where
  "client_ui_init ok1 ok2 ws u =
     (case write_esc ok1 (esc ''[?1049h'') [] of (r1, out) \<Rightarrow>
      case write_esc ok2 (esc ''[?25l'') out of (r2, out) \<Rightarrow>
      case update_screen_size ws u of (r3, u) \<Rightarrow> (0 OR r1 OR r2 OR r3, out, u))"

definition client_ui_deinit :: "bool \<Rightarrow> bool \<Rightarrow> int \<times> u8 list list" where
  "client_ui_deinit ok1 ok2 =
     (case write_esc ok1 (esc ''[?1049l'') [] of (r1, out) \<Rightarrow>
      case write_esc ok2 (esc ''[?25h'') out of (r2, out) \<Rightarrow> (0 OR r1 OR r2, out))"

definition client_ui_update_screen_size :: "screen \<Rightarrow> screen" where
  "client_ui_update_screen_size u = u\<lparr>screen_resized := True\<rparr>"

definition resize_if_needed :: "(u16 \<times> u16) option \<Rightarrow> screen \<Rightarrow> screen" where
  "resize_if_needed ws u = (if screen_resized u then (snd (update_screen_size ws u))\<lparr>screen_resized := False\<rparr> else u)"

definition draw_status :: "bool \<Rightarrow> client_ctx_t \<Rightarrow> screen \<Rightarrow> screen option" where
  "draw_status malloc_ok c u =
     (if gs_status (cc_state c) = GAME_LOBBY then draw_screen_lobby c u
      else if gs_status (cc_state c) = GAME_RUNNING then draw_screen_game malloc_ok c u
      else if gs_status (cc_state c) = GAME_END then draw_screen_game_over u
      else Some u)"

definition client_ui_render :: "(u16 \<times> u16) option \<Rightarrow> bool \<Rightarrow> client_ctx_t \<Rightarrow> screen \<Rightarrow> (u8 list \<times> screen) option" where
  "client_ui_render ws malloc_ok c u = do {
     u \<leftarrow> sb_clear (resize_if_needed ws u);
     u \<leftarrow> draw_status malloc_ok c u;
     u \<leftarrow> draw_qlog c (screen_rows u - 5 - 2 - 1) 0 (screen_rows u - 1) (screen_cols u - 1) u;
     u \<leftarrow> draw_rect CHAR_NOCHAR 35 0 0 (screen_rows u - 1) (screen_cols u - 1) u;
     out \<leftarrow> sb_flush u;
     Some (out, u)
   }"

end
