(* ===== verification/Screen_Spec.thy ===== *)
theory Screen_Spec
  imports Screen
begin

text \<open>
  When drawing a client is defined, and what the user then sees: the board, the players and the
  newest lines of the log.
\<close>

section \<open>Painting an area\<close>

text \<open>
  A drawing routine \<open>paints\<close> an area with a picture \<open>v\<close> if it succeeds exactly when the area lies
  inside the buffer, and then changes the buffer to \<open>v\<close> there and nowhere else.
\<close>

definition in_buffer :: "(nat \<times> nat) set" where
  "in_buffer = {0..<MAX_ROWS} \<times> {0..<MAX_COLS}"

definition painted :: "(nat \<times> nat) set \<Rightarrow> (nat \<Rightarrow> nat \<Rightarrow> u8) \<Rightarrow> screen \<Rightarrow> screen" where
  "painted A v u = u\<lparr>sb := (\<lambda>y x. if (y, x) \<in> A then v y x else sb u y x)\<rparr>"

definition paints :: "(screen \<Rightarrow> screen option) \<Rightarrow> (nat \<times> nat) set \<Rightarrow> (nat \<Rightarrow> nat \<Rightarrow> u8) \<Rightarrow> bool" where
  "paints f A v \<longleftrightarrow> (\<forall>u. f u = (if A \<subseteq> in_buffer then Some (painted A v u) else None))"

named_theorems paint_intros \<open>what the drawing routines paint\<close>

lemma painted_fields [simp]:
  "screen_rows (painted A v u) = screen_rows u" "screen_cols (painted A v u) = screen_cols u"
  "screen_resized (painted A v u) = screen_resized u"
  "sb (painted A v u) y x = (if (y, x) \<in> A then v y x else sb u y x)"
  by (simp_all add: painted_def)

lemma painted_painted: "painted B v (painted A v u) = painted (A \<union> B) v u"
  by (simp add: painted_def fun_eq_iff)

lemma painted_empty [simp]: "painted {} v u = u"
  by (simp add: painted_def)

lemma paintsD: "paints f A v \<Longrightarrow> f u = (if A \<subseteq> in_buffer then Some (painted A v u) else None)"
  by (simp add: paints_def)

lemma paints_put [paint_intros]: "v y x = w \<Longrightarrow> paints (sb_put y x w) {(y, x)} v"
  by (auto simp: paints_def sb_put_def in_buffer_def painted_def fun_eq_iff)

lemma paints_skip [paint_intros]: "paints Some {} v"
  by (simp add: paints_def)

lemma paints_seq:
  assumes "paints f A v" "paints g B v"
  shows "paints (\<lambda>u. case f u of None \<Rightarrow> None | Some t \<Rightarrow> g t) (A \<union> B) v"
  using assms by (auto simp: paints_def painted_painted)

lemma paints_bind [paint_intros]:
  assumes "paints f A v" "paints g B v"
  shows "paints (\<lambda>u. f u \<bind> g) (A \<union> B) v"
  using assms by (auto simp: paints_def painted_painted)

lemma paints_if [paint_intros]:
  assumes "b \<Longrightarrow> paints f A v" "\<not> b \<Longrightarrow> paints g B v"
  shows "paints (\<lambda>u. if b then f u else g u) (if b then A else B) v"
  using assms by (auto simp: paints_def)

lemma paints_for [paint_intros]:
  assumes "\<And>i. i \<in> set is \<Longrightarrow> paints (body i) (A i) v"
  shows "paints (for_opt is body) (\<Union>i \<in> set is. A i) v"
  using assms
proof (induction "is")
  case (Cons i "is")
  have "paints (\<lambda>u. case body i u of None \<Rightarrow> None | Some t \<Rightarrow> for_opt is body t) (A i \<union> (\<Union>i \<in> set is. A i)) v"
    using Cons by (intro paints_seq) simp_all
  then show ?case by (simp add: paints_def)
qed (simp add: paints_def)

text \<open>The loop over words, when its bound is not the largest one.\<close>

lemma unat_next: "x \<noteq> - 1 \<Longrightarrow> unat (x + 1 :: u64) = unat x + 1"
  using unatSuc [of x] by (simp add: eq_neg_iff_add_eq_0 add.commute)

lemma below_not_max: "x < (y :: u64) \<Longrightarrow> x \<noteq> - 1"
  using word_order.extremum_strict by blast

lemma for_words_past: "\<not> lo \<le> hi \<Longrightarrow> for_words lo hi body s = Some s"
  by (simp add: for_words.simps)

lemma paints_words:
  assumes "hi \<noteq> - 1" "\<And>i. lo \<le> i \<Longrightarrow> i \<le> hi \<Longrightarrow> paints (body i) (A i) v"
  shows "paints (for_words lo hi body) (\<Union>i \<in> {lo..hi}. A i) v"
  using assms(2)
proof (induction "unat hi + 1 - unat lo" arbitrary: lo)
  case 0
  then have "\<not> lo \<le> hi" by (simp add: word_le_nat_alt)
  then show ?case by (simp add: for_words_past paints_def)
next
  case (Suc n)
  then have le: "lo \<le> hi" by (simp add: word_le_nat_alt)
  then have next_lo: "unat (lo + 1) = unat lo + 1"
    using assms(1) unat_next word_order.extremum_unique by metis
  have "paints (for_words (lo + 1) hi body) (\<Union>i \<in> {lo + 1..hi}. A i) v"
    using Suc(2) next_lo by (intro Suc(1) Suc(3)) (auto simp: word_le_nat_alt)
  then have "paints (\<lambda>u. case body lo u of None \<Rightarrow> None | Some t \<Rightarrow> for_words (lo + 1) hi body t)
      (A lo \<union> (\<Union>i \<in> {lo + 1..hi}. A i)) v"
    using Suc(3) [of lo] le by (intro paints_seq) simp_all
  moreover have "{lo..hi} = insert lo {lo + 1..hi}"
    using le next_lo by (auto simp: word_le_nat_alt word_unat_eq_iff)
  moreover have "for_words lo hi body = (\<lambda>u. case body lo u of None \<Rightarrow> None | Some t \<Rightarrow> for_words (lo + 1) hi body t)"
    using le by (subst for_words.simps [abs_def]) simp
  ultimately show ?case by simp
qed

text \<open>A loop that comes to a step that is undefined in every state.\<close>

lemma for_words_None:
  assumes "lo \<le> k" "k \<le> hi" "\<And>s. body k s = None"
  shows "for_words lo hi body s = None"
  using assms(1)
proof (induction "unat k - unat lo" arbitrary: lo s)
  case 0
  then have "lo = k" by (simp add: word_le_nat_alt word_unat_eq_iff)
  then show ?case using assms(2,3) by (simp add: for_words.simps [of k])
next
  case (Suc n)
  then have less: "lo < k" by (simp add: word_less_nat_alt)
  then have "unat (lo + 1) = unat lo + 1" using unat_next below_not_max by metis
  then have "for_words (lo + 1) hi body t = None" for t
    using Suc(2) less by (intro Suc(1)) (auto simp: word_le_nat_alt word_less_nat_alt)
  moreover have "lo \<le> hi" using less assms(2) by simp
  ultimately show ?case by (simp add: for_words.simps [of lo] split: option.split)
qed

section \<open>Sizes\<close>

definition screen_ok :: "screen \<Rightarrow> bool" where
  "screen_ok u \<longleftrightarrow> unat (screen_rows u) \<le> MAX_ROWS \<and> unat (screen_cols u) \<le> MAX_COLS"

lemma screen_init_ok: "screen_ok screen_init"
  by (simp add: screen_ok_def screen_init_def)

lemma bound_between: "lo \<le> hi \<Longrightarrow> lo \<le> bound x lo hi \<and> bound x lo hi \<le> hi"
  by (simp add: bound_def)

lemma unat_bound: "unat (of_int (bound x 0 512) :: u64) \<le> 512"
proof -
  obtain n where "bound x 0 512 = int n" "n \<le> 512" using bound_between [of 0 512 x] by (metis nat_le_iff int_nat_eq of_nat_numeral zero_le_numeral)
  then show ?thesis by (simp add: unat_of_nat)
qed

lemma resize_ok: "screen_ok u \<Longrightarrow> screen_ok (resize_if_needed ws u)"
  by (auto simp: resize_if_needed_def update_screen_size_def screen_ok_def unat_bound split: option.split)

text \<open>The \<open>int\<close> that a difference of two sizes becomes.\<close>

lemma sint_u32: "- 2147483648 \<le> k \<Longrightarrow> k < 2147483648 \<Longrightarrow> sint (of_int k :: u32) = k"
  by (simp add: sint_sbintrunc' signed_take_bit_int_eq_self)

lemma int_of_size_diff:
  assumes "unat a \<le> 512" "unat b \<le> 512"
  shows "int_of_size (a - b) = int (unat a) - int (unat b)"
proof -
  have "is_down (ucast :: u64 \<Rightarrow> u32)" by (simp add: is_down)
  moreover have "a - b = of_int (int (unat a) - int (unat b))" by simp
  ultimately have "int_of_size (a - b) = sint (of_int (int (unat a) - int (unat b)) :: u32)"
    unfolding int_of_size_def by (simp only: ucast_down_wi)
  moreover have "sint (of_int (int (unat a) - int (unat b)) :: u32) = int (unat a) - int (unat b)"
    using assms by (intro sint_u32) linarith+
  ultimately show ?thesis by simp
qed

section \<open>Lines of text\<close>

definition text_area :: "nat \<Rightarrow> nat \<Rightarrow> nat \<Rightarrow> u8 list \<Rightarrow> (nat \<times> nat) set" where
  "text_area cols y x0 line = {y} \<times> {x. x0 \<le> x \<and> x < x0 + length line \<and> x < cols}"

lemma bound_line: "x \<le> c \<Longrightarrow> bound (int l) 0 (int c - int x) = int (min l (c - x))"
  by (auto simp: bound_def)

lemma bound_line_left: "\<not> x \<le> c \<Longrightarrow> bound (int l) 0 (int c - int x) < 0"
  by (auto simp: bound_def)

text \<open>A line is defined exactly when it starts inside the screen; then it is cut at its right side.\<close>

lemma draw_text_iff:
  assumes "screen_ok u" "unat col \<le> 512"
  shows "draw_text_line_format row col line u =
    (if unat col \<le> unat (screen_cols u) \<and> unat row < MAX_ROWS
     then Some (painted (text_area (unat (screen_cols u)) (unat row) (unat col) line) (\<lambda>_ x. (take 511 line @ [0]) ! (x - unat col)) u)
     else None)"
proof -
  let ?C = "unat (screen_cols u)" and ?x = "unat col"
  have C: "?C \<le> 512" using assms(1) by (simp add: screen_ok_def)
  have d: "int_of_size (screen_cols u - col) = int ?C - int ?x" using int_of_size_diff [OF C assms(2)] .
  have w: "MAX_ROWS - 1 = 511" by simp
  show ?thesis
  proof (cases "?x \<le> ?C")
    case True
    have n: "bound (int (length line)) 0 (int ?C - int ?x) = int (min (length line) (?C - ?x))"
      using True by (rule bound_line)
    have "?x + min (length line) (?C - ?x) \<le> 512" "min (length line) (?C - ?x) \<le> 512" using True C by linarith+
    moreover have "(sb u)(y := (\<lambda>x. if ?x \<le> x \<and> x < ?x + min (length line) (?C - ?x) then w ! (x - ?x) else sb u y x)) =
        (\<lambda>z x. if (z, x) \<in> text_area ?C y ?x line then w ! (x - ?x) else sb u z x)" for y and w :: "u8 list"
      using True by (auto simp: fun_eq_iff text_area_def min_def)
    ultimately show ?thesis
      unfolding draw_text_line_format_def d n Let_def painted_def w using True C by auto
  next
    case False
    then have "bound (int (length line)) 0 (int ?C - int ?x) < 0" by (rule bound_line_left)
    then show ?thesis unfolding draw_text_line_format_def d Let_def using False by simp
  qed
qed

definition same_size :: "screen \<Rightarrow> screen \<Rightarrow> bool" where
  "same_size u u' \<longleftrightarrow> screen_rows u' = screen_rows u \<and> screen_cols u' = screen_cols u"

lemma same_size_refl [simp]: "same_size u u"
  by (simp add: same_size_def)

lemma same_size_painted [simp]: "same_size u (painted A v u)"
  by (simp add: same_size_def)

lemma same_size_trans: "same_size u t \<Longrightarrow> same_size t u' \<Longrightarrow> same_size u u'"
  by (simp add: same_size_def)

lemma same_size_ok: "same_size u u' \<Longrightarrow> screen_ok u' = screen_ok u"
  by (simp add: same_size_def screen_ok_def)

text \<open>The two sides of \<open>draw_text_iff\<close>: a line changes its own row at most.\<close>

lemma draw_text_some:
  assumes "screen_ok u" "unat col \<le> unat (screen_cols u)" "unat row < MAX_ROWS"
  shows "\<exists>u'. draw_text_line_format row col line u = Some u' \<and> same_size u u' \<and>
    (\<forall>y x. y \<noteq> unat row \<longrightarrow> sb u' y x = sb u y x)"
proof -
  have "unat col \<le> 512" using assms(1,2) by (simp add: screen_ok_def)
  from draw_text_iff [OF assms(1) this] show ?thesis using assms(2,3) by (auto simp: text_area_def)
qed

lemma draw_text_none:
  assumes "screen_ok u" "unat col \<le> 512" "unat (screen_cols u) < unat col"
  shows "draw_text_line_format row col line u = None"
  using draw_text_iff [OF assms(1,2)] assms(3) by simp

section \<open>Clearing and flushing\<close>

definition whole :: "screen \<Rightarrow> (nat \<times> nat) set" where
  "whole u = {0..<unat (screen_rows u)} \<times> {0..<unat (screen_cols u)}"

lemma whole_in_buffer: "screen_ok u \<Longrightarrow> whole u \<subseteq> in_buffer"
  by (auto simp: whole_def in_buffer_def screen_ok_def)

lemma clear_exact: "screen_ok u \<Longrightarrow> sb_clear u = Some (painted (whole u) (\<lambda>_ _. 32) u)"
proof -
  assume ok: "screen_ok u"
  have "paints (for_opt [0..<unat (screen_rows u)] (\<lambda>y. for_opt [0..<unat (screen_cols u)] (\<lambda>x. sb_put y x 32)))
      (\<Union>y \<in> set [0..<unat (screen_rows u)]. \<Union>x \<in> set [0..<unat (screen_cols u)]. {(y, x)}) (\<lambda>_ _. 32)"
    by (intro paint_intros refl)
  moreover have "(\<Union>y \<in> set [0..<unat (screen_rows u)]. \<Union>x \<in> set [0..<unat (screen_cols u)]. {(y, x)}) = whole u"
    by (auto simp: whole_def)
  ultimately show ?thesis using whole_in_buffer [OF ok] by (simp add: sb_clear_def paints_def)
qed

text \<open>A frame: the visible rows, separated by line feeds, behind the sequence that moves the cursor home.\<close>

definition frame_line :: "screen \<Rightarrow> nat \<Rightarrow> u8 list" where
  "frame_line u y = map (sb u y) [0..<unat (screen_cols u)] @ (if y + 1 < unat (screen_rows u) then [10] else [])"

lemma unat_pred_u64: "x \<noteq> (0 :: u64) \<Longrightarrow> unat (x - 1) = unat x - 1"
  by (simp add: unat_sub_if') (metis One_nat_def Suc_leI unat_eq_zero neq0_conv)

lemma flush_exact:
  assumes ok: "screen_ok u"
  shows "sb_flush u = Some (esc ''[1;1H'' @ concat (map (frame_line u) [0..<unat (screen_rows u)]))"
proof -
  let ?R = "unat (screen_rows u)" and ?C = "unat (screen_cols u)"
  let ?body = "\<lambda>y buf. let line = map (sb u y) [0..<?C] @ (if y \<noteq> unat (screen_rows u - 1) then [10] else []) in
       if y < MAX_ROWS \<and> ?C \<le> MAX_COLS \<and> length buf + length line \<le> MAX_ROWS * (MAX_COLS + 64) + 64
       then Some (buf @ line) else None"
  have R: "?R \<le> 512" "?C \<le> 512" using ok by (simp_all add: screen_ok_def)
  have step: "for_opt [0..<n] ?body (esc ''[1;1H'') = Some (esc ''[1;1H'' @ concat (map (frame_line u) [0..<n])) \<and>
      length (concat (map (frame_line u) [0..<n])) \<le> n * 513" if "n \<le> ?R" for n
    using that
  proof (induction n)
    case (Suc n)
    have line: "map (sb u n) [0..<?C] @ (if n \<noteq> unat (screen_rows u - 1) then [10] else []) = frame_line u n"
      using Suc.prems unat_pred_u64 [of "screen_rows u"] by (cases "screen_rows u = 0") (auto simp: frame_line_def)
    have len: "length (frame_line u n) \<le> 513" using R by (simp add: frame_line_def)
    have home: "length (esc ''[1;1H'') = 6" by (simp add: esc_def text_of_def)
    have IH: "for_opt [0..<n] ?body (esc ''[1;1H'') = Some (esc ''[1;1H'' @ concat (map (frame_line u) [0..<n]))"
      "length (concat (map (frame_line u) [0..<n])) \<le> n * 513" using Suc by auto
    have "?body n (esc ''[1;1H'' @ concat (map (frame_line u) [0..<n])) =
        Some (esc ''[1;1H'' @ concat (map (frame_line u) [0..<Suc n]))"
      unfolding line Let_def using IH(2) len home Suc.prems R by simp
    then show ?case using IH len by (simp add: for_opt_append)
  qed simp
  show ?thesis unfolding sb_flush_def using step [of ?R] by simp
qed

section \<open>Rectangles\<close>

definition rect_char :: "u8 \<Rightarrow> u8 \<Rightarrow> nat \<Rightarrow> nat \<Rightarrow> nat \<Rightarrow> nat \<Rightarrow> nat \<Rightarrow> nat \<Rightarrow> u8" where
  "rect_char fill border r1 c1 r2 c2 y x = (if y \<noteq> r1 \<and> y \<noteq> r2 \<and> x \<noteq> c1 \<and> x \<noteq> c2 then fill else border)"

definition rect_area :: "u8 \<Rightarrow> u8 \<Rightarrow> nat \<Rightarrow> nat \<Rightarrow> nat \<Rightarrow> nat \<Rightarrow> (nat \<times> nat) set" where
  "rect_area fill border r1 c1 r2 c2 =
     {(y, x). r1 \<le> y \<and> y \<le> r2 \<and> c1 \<le> x \<and> x \<le> c2 \<and> rect_char fill border r1 c1 r2 c2 y x \<noteq> 0}"

lemma below_512: "unat (w :: u64) < 512 \<Longrightarrow> w \<noteq> - 1"
  using unsigned_minus_1_eq_mask [where 'a = nat and 'b = 64] by (auto simp: mask_eq_exp_minus_1)

lemma unat_range: "unat ` {lo..hi :: u64} = {unat lo..unat hi}"
proof
  show "{unat lo..unat hi} \<subseteq> unat ` {lo..hi}"
  proof
    fix y assume y: "y \<in> {unat lo..unat hi}"
    then have "unat (of_nat y :: u64) = y"
      using unsigned_less [of hi, where 'a = nat] by (simp add: unat_of_nat)
    then show "y \<in> unat ` {lo..hi}"
      using y by (intro image_eqI [of _ _ "of_nat y"]) (simp_all add: word_le_nat_alt)
  qed
qed (auto simp: word_le_nat_alt)

lemma rect_exact:
  assumes "unat r2 < MAX_ROWS" "unat c2 < MAX_COLS"
  shows "draw_rect fill border r1 c1 r2 c2 u =
    Some (painted (rect_area fill border (unat r1) (unat c1) (unat r2) (unat c2))
      (rect_char fill border (unat r1) (unat c1) (unat r2) (unat c2)) u)"
proof -
  let ?v = "rect_char fill border (unat r1) (unat c1) (unat r2) (unat c2)"
  let ?px = "\<lambda>y x. if ?v (unat y) (unat x) \<noteq> CHAR_NOCHAR then {(unat y, unat x)} else {}"
  have "paints (\<lambda>u. let ch = (if y \<noteq> r1 \<and> y \<noteq> r2 \<and> x \<noteq> c1 \<and> x \<noteq> c2 then fill else border) in
      if ch \<noteq> CHAR_NOCHAR then sb_put (unat y) (unat x) ch u else Some u) (?px y x) ?v" for y x
  proof -
    have ch: "(if y \<noteq> r1 \<and> y \<noteq> r2 \<and> x \<noteq> c1 \<and> x \<noteq> c2 then fill else border) = ?v (unat y) (unat x)"
      by (simp add: rect_char_def word_unat_eq_iff)
    show ?thesis unfolding ch Let_def by (intro paint_intros refl)
  qed
  then have "paints (draw_rect fill border r1 c1 r2 c2) (\<Union>y \<in> {r1..r2}. \<Union>x \<in> {c1..c2}. ?px y x) ?v"
    unfolding draw_rect_def using below_512 [OF assms(1)] below_512 [OF assms(2)] by (intro paints_words)
  moreover have "(\<Union>y \<in> {r1..r2}. \<Union>x \<in> {c1..c2}. ?px y x) = rect_area fill border (unat r1) (unat c1) (unat r2) (unat c2)"
  proof (rule set_eqI, safe)
    fix y x assume "(y, x) \<in> rect_area fill border (unat r1) (unat c1) (unat r2) (unat c2)"
    then have "y \<in> unat ` {r1..r2}" "x \<in> unat ` {c1..c2}" "?v y x \<noteq> 0"
      by (simp_all add: rect_area_def unat_range)
    then show "(y, x) \<in> (\<Union>y \<in> {r1..r2}. \<Union>x \<in> {c1..c2}. ?px y x)" by auto
  qed (auto simp: rect_area_def word_le_nat_alt split: if_splits)
  moreover have "rect_area fill border (unat r1) (unat c1) (unat r2) (unat c2) \<subseteq> in_buffer"
    using assms by (auto simp: rect_area_def in_buffer_def)
  ultimately show ?thesis by (simp add: paints_def)
qed

text \<open>A border that leaves the buffer, as the one of a screen without rows or columns does.\<close>

lemma rect_outside:
  assumes "border \<noteq> 0" "r1 \<le> y" "y \<le> r2" "y = r1 \<or> y = r2" "c1 \<le> x" "x \<le> c2" "\<not> (unat y < MAX_ROWS \<and> unat x < MAX_COLS)"
  shows "draw_rect fill border r1 c1 r2 c2 u = None"
  unfolding draw_rect_def
proof (rule for_words_None [OF assms(2,3)], rule for_words_None [OF assms(5,6)])
  fix s show "(let ch = if y \<noteq> r1 \<and> y \<noteq> r2 \<and> x \<noteq> c1 \<and> x \<noteq> c2 then fill else border in
      if ch \<noteq> CHAR_NOCHAR then sb_put (unat y) (unat x) ch s else Some s) = None"
    using assms(1,4,7) by (auto simp: Let_def sb_put_def)
qed

section \<open>The board\<close>

text \<open>The byte of the grid that is drawn for a cell, and whether an explosion that is drawn reaches it.\<close>

definition grid_at :: "nat \<Rightarrow> u8 list \<Rightarrow> nat \<Rightarrow> nat \<Rightarrow> u8" where
  "grid_at cols grid r k = grid ! unat (make_cell_index (of_nat r) (of_nat k) (of_nat cols))"

definition ray_reaches :: "nat \<Rightarrow> nat \<Rightarrow> nat \<Rightarrow> nat \<Rightarrow> nat \<Rightarrow> bool" where
  "ray_reaches rad r0 k0 r k \<longleftrightarrow> rad \<noteq> 0 \<and>
     (r0 = r \<and> \<bar>int k - int k0\<bar> \<le> int rad \<or> k0 = k \<and> \<bar>int r - int r0\<bar> \<le> int rad)"

definition lit :: "client_ctx_t \<Rightarrow> nat \<Rightarrow> nat \<Rightarrow> nat \<Rightarrow> nat \<Rightarrow> bool" where
  "lit c rows cols r k \<longleftrightarrow>
     (\<exists>r0 < rows. \<exists>k0 < cols. ray_reaches (unat (cc_explosions c ! (r0 * MAX_MAP_SIDE + k0))) r0 k0 r k)"

definition board_area :: "nat \<Rightarrow> nat \<Rightarrow> (nat \<times> nat) set" where
  "board_area rows cols = {5..<5 + rows} \<times> {5..<5 + 2 * cols}"

definition board_char :: "nat \<Rightarrow> u8 list \<Rightarrow> nat \<Rightarrow> nat \<Rightarrow> u8" where
  "board_char cols grid y x = (if odd x then grid_at cols grid (y - 5) ((x - 5) div 2) else 32)"

lemma paints_board: "paints (draw_board rows cols grid) (board_area rows cols) (board_char cols grid)"
proof -
  have "paints (\<lambda>u. sb_put (r + 5) (k * 2 + 5) (grid_at cols grid r k) u \<bind> sb_put (r + 5) (k * 2 + 1 + 5) 32)
      ({(r + 5, k * 2 + 5)} \<union> {(r + 5, k * 2 + 1 + 5)}) (board_char cols grid)" for r k
    by (intro paint_intros) (simp_all add: board_char_def)
  then have "paints (draw_board rows cols grid)
      (\<Union>r \<in> set [0..<rows]. \<Union>k \<in> set [0..<cols]. {(r + 5, k * 2 + 5)} \<union> {(r + 5, k * 2 + 1 + 5)}) (board_char cols grid)"
    unfolding draw_board_def grid_at_def by (intro paints_for)
  moreover have "(\<Union>r \<in> set [0..<rows]. \<Union>k \<in> set [0..<cols]. {(r + 5, k * 2 + 5)} \<union> {(r + 5, k * 2 + 1 + 5)}) =
      board_area rows cols" (is "?A = _")
  proof
    show "board_area rows cols \<subseteq> ?A"
    proof
      fix p assume "p \<in> board_area rows cols"
      then obtain y x where p: "p = (y, x)" "5 \<le> y" "y < 5 + rows" "5 \<le> x" "x < 5 + 2 * cols"
        by (auto simp: board_area_def)
      let ?k = "(x - 5) div 2"
      have "?k < cols" "x = ?k * 2 + 5 \<or> x = ?k * 2 + 1 + 5" "y - 5 < rows" "y = y - 5 + 5" using p by auto
      then show "p \<in> ?A" unfolding p(1) by (intro UN_I [of "y - 5"] UN_I [of ?k]) auto
    qed
  qed (auto simp: board_area_def)
  ultimately show ?thesis by simp
qed

definition lit_cell :: "nat \<Rightarrow> nat \<Rightarrow> u8 list \<Rightarrow> int \<Rightarrow> int \<Rightarrow> (nat \<times> nat) set" where
  "lit_cell rows cols grid r2 c2 =
     (if 0 \<le> r2 \<and> r2 < int rows \<and> 0 \<le> c2 \<and> c2 < int cols \<and> grid_at cols grid (nat r2) (nat c2) = 46
      then {(nat r2 + 5, nat c2 * 2 + 5)} else {})"

lemma paints_ray_cell: "paints (draw_ray_cell rows cols grid r2 c2) (lit_cell rows cols grid r2 c2) (\<lambda>_ _. 35)"
proof -
  have "of_int r2 = (of_nat (nat r2) :: u16)" "of_int c2 = (of_nat (nat c2) :: u16)" if "0 \<le> r2" "0 \<le> c2"
    using that by simp_all
  then show ?thesis
    using paints_put [of "\<lambda>_ _. 35" "nat r2 + 5" "nat c2 * 2 + 5" 35]
    by (auto simp: paints_def draw_ray_cell_def lit_cell_def grid_at_def)
qed

text \<open>The steps of the four rays are the cells in the row and in the column up to the radius.\<close>

lemma ray_steps:
  "(\<exists>dir \<in> {0..<4}. \<exists>i \<in> {0..<Suc rad}. r2 = int r + int i * ray_dr ! dir \<and> c2 = int k + int i * ray_dc ! dir) \<longleftrightarrow>
   (int r = r2 \<and> \<bar>c2 - int k\<bar> \<le> int rad \<or> int k = c2 \<and> \<bar>r2 - int r\<bar> \<le> int rad)" (is "?steps \<longleftrightarrow> ?cross")
proof
  have dirs: "{0..<4 :: nat} = {0, 1, 2, 3}" by auto
  show "?cross" if ?steps using that unfolding dirs by (auto simp: ray_dr_def ray_dc_def)
  show ?steps if ?cross
  proof (cases "int r = r2")
    case True
    with that have "\<bar>c2 - int k\<bar> \<le> int rad" by auto
    then have "nat \<bar>c2 - int k\<bar> \<in> {0..<Suc rad}" by auto
    moreover have "r2 = int r + int (nat \<bar>c2 - int k\<bar>) * ray_dr ! (if c2 < int k then 2 else 3)"
      "c2 = int k + int (nat \<bar>c2 - int k\<bar>) * ray_dc ! (if c2 < int k then 2 else 3)"
      using True by (simp_all add: ray_dr_def ray_dc_def)
    moreover have "(if c2 < int k then 2 else 3) \<in> {0..<4 :: nat}" by simp
    ultimately show ?thesis by blast
  next
    case False
    with that have c: "\<bar>r2 - int r\<bar> \<le> int rad" "int k = c2" by auto
    then have "nat \<bar>r2 - int r\<bar> \<in> {0..<Suc rad}" by auto
    moreover have "r2 = int r + int (nat \<bar>r2 - int r\<bar>) * ray_dr ! (if r2 < int r then 0 else 1)"
      "c2 = int k + int (nat \<bar>r2 - int r\<bar>) * ray_dc ! (if r2 < int r then 0 else 1)"
      using c by (simp_all add: ray_dr_def ray_dc_def)
    moreover have "(if r2 < int r then 0 else 1) \<in> {0..<4 :: nat}" by simp
    ultimately show ?thesis by blast
  qed
qed

definition lit_area :: "client_ctx_t \<Rightarrow> nat \<Rightarrow> nat \<Rightarrow> u8 list \<Rightarrow> (nat \<times> nat) set" where
  "lit_area c rows cols grid =
     {(y, x). \<exists>r < rows. \<exists>k < cols. y = r + 5 \<and> x = k * 2 + 5 \<and> grid_at cols grid r k = 46 \<and> lit c rows cols r k}"

lemma paints_explosion:
  "paints (draw_explosion rows cols grid r k rad)
     {(y, x). \<exists>r2 < rows. \<exists>k2 < cols. y = r2 + 5 \<and> x = k2 * 2 + 5 \<and> grid_at cols grid r2 k2 = 46 \<and> ray_reaches rad r k r2 k2}
     (\<lambda>_ _. 35)"
proof (cases "rad = 0")
  case False
  let ?p = "\<lambda>dir i. lit_cell rows cols grid (int r + int i * ray_dr ! dir) (int k + int i * ray_dc ! dir)"
  have "paints (draw_explosion rows cols grid r k rad) (\<Union>dir \<in> set [0..<4]. \<Union>i \<in> set [0..<Suc rad]. ?p dir i) (\<lambda>_ _. 35)"
    unfolding draw_explosion_def using False by (simp only: if_False) (intro paints_for paints_ray_cell)
  moreover have "(\<Union>dir \<in> set [0..<4]. \<Union>i \<in> set [0..<Suc rad]. ?p dir i) =
      {(y, x). \<exists>r2 < rows. \<exists>k2 < cols. y = r2 + 5 \<and> x = k2 * 2 + 5 \<and> grid_at cols grid r2 k2 = 46 \<and> ray_reaches rad r k r2 k2}"
    (is "?U = ?A")
  proof (rule set_eqI, unfold split_paired_all)
    fix y x
    have "(y, x) \<in> ?U \<longleftrightarrow> (\<exists>r2 c2. (y, x) \<in> lit_cell rows cols grid r2 c2 \<and>
        (\<exists>dir \<in> {0..<4}. \<exists>i \<in> {0..<Suc rad}. r2 = int r + int i * ray_dr ! dir \<and> c2 = int k + int i * ray_dc ! dir))"
      unfolding set_upt by blast
    also have "\<dots> \<longleftrightarrow> (\<exists>r2 c2. (y, x) \<in> lit_cell rows cols grid r2 c2 \<and>
        (int r = r2 \<and> \<bar>c2 - int k\<bar> \<le> int rad \<or> int k = c2 \<and> \<bar>r2 - int r\<bar> \<le> int rad))"
      by (simp only: ray_steps)
    also have "\<dots> \<longleftrightarrow> (\<exists>r2 < rows. \<exists>k2 < cols. y = r2 + 5 \<and> x = k2 * 2 + 5 \<and> grid_at cols grid r2 k2 = 46 \<and>
        (int r = int r2 \<and> \<bar>int k2 - int k\<bar> \<le> int rad \<or> int k = int k2 \<and> \<bar>int r2 - int r\<bar> \<le> int rad))"
      (is "(\<exists>r2 c2. ?L r2 c2) \<longleftrightarrow> (\<exists>r2 < rows. \<exists>k2 < cols. ?N r2 k2)")
    proof
      assume "\<exists>r2 c2. ?L r2 c2"
      then obtain r2 c2 where "?L r2 c2" by blast
      then have "nat r2 < rows" "nat c2 < cols" "?N (nat r2) (nat c2)"
        by (auto simp: lit_cell_def split: if_splits)
      then show "\<exists>r2 < rows. \<exists>k2 < cols. ?N r2 k2" by blast
    next
      assume "\<exists>r2 < rows. \<exists>k2 < cols. ?N r2 k2"
      then obtain r2 k2 where "r2 < rows" "k2 < cols" "?N r2 k2" by blast
      then have "?L (int r2) (int k2)" by (simp add: lit_cell_def)
      then show "\<exists>r2 c2. ?L r2 c2" by blast
    qed
    also have "\<dots> \<longleftrightarrow> (y, x) \<in> ?A" using False by (simp add: ray_reaches_def)
    finally show "(y, x) \<in> ?U \<longleftrightarrow> (y, x) \<in> ?A" .
  qed
  ultimately show ?thesis by simp
qed (simp add: draw_explosion_def ray_reaches_def paints_skip)

lemma paints_explosions:
  assumes "rows \<le> MAX_MAP_SIDE" "cols \<le> MAX_MAP_SIDE"
  shows "paints (draw_explosions c rows cols grid) (lit_area c rows cols grid) (\<lambda>_ _. 35)"
proof -
  let ?rad = "\<lambda>r k. unat (cc_explosions c ! (r * MAX_MAP_SIDE + k))"
  let ?A = "\<lambda>r k. {(y, x). \<exists>r2 < rows. \<exists>k2 < cols. y = r2 + 5 \<and> x = k2 * 2 + 5 \<and> grid_at cols grid r2 k2 = 46 \<and> ray_reaches (?rad r k) r k r2 k2}"
  have inside: "r * MAX_MAP_SIDE + k < MAX_MAP_CELLS" if "r \<in> set [0..<rows]" "k \<in> set [0..<cols]" for r k
    using that assms by auto
  have "paints (draw_explosions c rows cols grid) (\<Union>r \<in> set [0..<rows]. \<Union>k \<in> set [0..<cols]. ?A r k) (\<lambda>_ _. 35)"
    unfolding draw_explosions_def using inside by (intro paints_for) (simp only: if_True paints_explosion)
  moreover have "(\<Union>r \<in> set [0..<rows]. \<Union>k \<in> set [0..<cols]. ?A r k) = lit_area c rows cols grid"
    by (fastforce simp: lit_area_def lit_def)
  ultimately show ?thesis by simp
qed

section \<open>Screens of text\<close>

text \<open>Drawing below row \<open>low\<close> only, and always with a result.\<close>

definition draws_below :: "nat \<Rightarrow> (screen \<Rightarrow> screen option) \<Rightarrow> screen \<Rightarrow> bool" where
  "draws_below low f u \<longleftrightarrow> (\<exists>u'. f u = Some u' \<and> same_size u u' \<and> (\<forall>y x. y < low \<longrightarrow> sb u' y x = sb u y x))"

lemma draws_below_refl [simp]: "draws_below low Some u"
  by (simp add: draws_below_def)

lemma draws_below_bind:
  assumes "draws_below low f u" "\<And>t. same_size u t \<Longrightarrow> draws_below low g t"
  shows "draws_below low (\<lambda>u. f u \<bind> g) u"
proof -
  from assms(1) obtain t where t: "f u = Some t" "same_size u t" "\<forall>y x. y < low \<longrightarrow> sb t y x = sb u y x"
    unfolding draws_below_def by blast
  moreover from assms(2) [OF t(2)] obtain u' where "g t = Some u'" "same_size t u'" "\<forall>y x. y < low \<longrightarrow> sb u' y x = sb t y x"
    unfolding draws_below_def by blast
  ultimately show ?thesis unfolding draws_below_def using same_size_trans [OF t(2)] by (intro exI [of _ u']) simp
qed

lemma draws_below_for:
  assumes "\<And>i t. i \<in> set is \<Longrightarrow> same_size u t \<Longrightarrow> draws_below low (body i) t"
  shows "draws_below low (for_opt is body) u"
  using assms
proof (induction "is" arbitrary: u)
  case (Cons i "is")
  have eq: "for_opt (i # is) body = (\<lambda>u. body i u \<bind> for_opt is body)"
    by (auto simp: fun_eq_iff split: option.split bind_split)
  show ?case unfolding eq
    by (intro draws_below_bind Cons.IH Cons.prems) (auto dest: same_size_trans)
qed (simp add: draws_below_def)

lemma draws_below_text:
  assumes "screen_ok u" "unat col \<le> unat (screen_cols u)" "unat row < MAX_ROWS" "low \<le> unat row"
  shows "draws_below low (draw_text_line_format row col line) u"
  using draw_text_some [OF assms(1-3), of line] assms(4) unfolding draws_below_def by (metis leD)

lemma text_row: "r \<le> 255 \<Longrightarrow> m < 16 \<Longrightarrow> unat (of_nat r + of_nat m :: u64) = r + m"
  by (simp add: unat_of_nat flip: of_nat_add)

lemma draw_players_some:
  assumes ok: "screen_ok u" and C: "5 \<le> unat (screen_cols u)" and r: "r \<le> 255"
  shows "draws_below (r + 6) (draw_players c (of_nat r)) u"
proof -
  have row: "unat (of_nat r + 6 :: u64) = r + 6" "unat (of_nat r + 7 + of_nat i :: u64) = r + 7 + i" if "i < 8" for i
    using text_row [of r 6] text_row [of r "7 + i"] r that by (simp_all add: add.assoc)
  have lines: "draws_below (r + 6) (draw_text_line_format row 5 line) t"
    if "same_size u t" "r + 6 \<le> unat row" "unat row < 512" for row line t
    using that ok C same_size_ok by (intro draws_below_text) (simp_all add: same_size_def screen_ok_def)
  show ?thesis
    unfolding draw_players_def
  proof (intro draws_below_bind draws_below_for)
    show "draws_below (r + 6) (draw_text_line_format (of_nat r + 6) 5 (text_of ''players:'')) u"
      using lines [of u] row(1) [of 0] r by simp
  next
    fix t i t' assume "same_size u t" "same_size t t'" and i: "i \<in> set [0..<MAX_PLAYERS]"
    then have "same_size u t'" using same_size_trans by blast
    then show "draws_below (r + 6) (\<lambda>u. let player = gs_players (cc_state c) ! i in
        if pl_id player = 0 then Some u
        else draw_text_line_format (of_nat r + 7 + of_nat i) 5 (player_line c player) u) t'"
      using lines [of t'] row(2) [of i] i r by (simp add: Let_def draws_below_def)
  qed
qed

end
