(* ===== verification/Render_Spec.thy ===== *)
theory Render_Spec
  imports Screen_Spec
begin

text \<open>
  Rendering a client: on which terminals it is defined, and what the finished frame shows of the
  board and of the log.
\<close>

section \<open>The screen of the game's status\<close>

lemma board_area_in_buffer:
  "board_area rows cols \<subseteq> in_buffer \<longleftrightarrow> rows = 0 \<or> cols = 0 \<or> rows + 5 \<le> MAX_ROWS \<and> 2 * cols + 5 \<le> MAX_COLS"
proof -
  have "{5..<5 + rows} \<subseteq> {0..<512} \<longleftrightarrow> rows = 0 \<or> rows + 5 \<le> 512"
    "{5..<5 + 2 * cols} \<subseteq> {0..<512} \<longleftrightarrow> cols = 0 \<or> 2 * cols + 5 \<le> 512"
    by (auto simp: ivl_subset)
  then show ?thesis unfolding board_area_def in_buffer_def by (auto simp: times_subset_iff)
qed

lemma lit_area_board: "lit_area c rows cols grid \<subseteq> board_area rows cols"
  by (auto simp: lit_area_def board_area_def)

text \<open>What a client must be like to be drawn on \<open>C\<close> columns.\<close>

definition drawable :: "bool \<Rightarrow> client_ctx_t \<Rightarrow> nat \<Rightarrow> bool" where
  "drawable malloc_ok c C \<longleftrightarrow>
     (if gs_status (cc_state c) = GAME_LOBBY then is_player_id (cc_player_id c) \<and> 10 \<le> C
      else if gs_status (cc_state c) = GAME_RUNNING then
        (case map_cells (gs_map (cc_state c)) of
           None \<Rightarrow> 5 \<le> C
         | Some _ \<Rightarrow> malloc_ok \<longrightarrow> 5 \<le> C \<and> 2 * unat (map_cols (gs_map (cc_state c))) + 5 \<le> MAX_COLS)
      else if gs_status (cc_state c) = GAME_END then 5 \<le> C else True)"

definition cell_char :: "client_ctx_t \<Rightarrow> nat \<Rightarrow> nat \<Rightarrow> u8 list \<Rightarrow> nat \<Rightarrow> nat \<Rightarrow> u8" where
  "cell_char c rows cols grid r k =
     (if grid_at cols grid r k = 46 \<and> lit c rows cols r k then 35 else grid_at cols grid r k)"

lemma client_map_sides:
  assumes "client_ok c" "map_cells (gs_map (cc_state c)) = Some cs"
  shows "0 < unat (map_rows (gs_map (cc_state c)))" "unat (map_rows (gs_map (cc_state c))) \<le> 255"
    "0 < unat (map_cols (gs_map (cc_state c)))" "unat (map_cols (gs_map (cc_state c))) \<le> 255"
    "length cs = unat (map_rows (gs_map (cc_state c))) * unat (map_cols (gs_map (cc_state c)))"
  using assms by (auto simp: client_ok_def client_map_ok_def wf_map_def word_less_nat_alt)

lemma game_some:
  assumes c: "client_ok c" "map_cells (gs_map (cc_state c)) = Some cs"
    and u: "screen_ok u" "5 \<le> unat (screen_cols u)" "2 * unat (map_cols (gs_map (cc_state c))) + 5 \<le> MAX_COLS"
  shows "\<exists>u'. draw_screen_game True c u = Some u' \<and> same_size u u' \<and>
    (\<forall>r < unat (map_rows (gs_map (cc_state c))). \<forall>k < unat (map_cols (gs_map (cc_state c))).
       sb u' (r + 5) (2 * k + 5) = cell_char c (unat (map_rows (gs_map (cc_state c)))) (unat (map_cols (gs_map (cc_state c)))) (board_grid c cs) r k \<and>
       sb u' (r + 5) (2 * k + 6) = 32)"
proof -
  let ?R = "unat (map_rows (gs_map (cc_state c)))" and ?C = "unat (map_cols (gs_map (cc_state c)))" and ?g = "board_grid c cs"
  note sides = client_map_sides [OF c]
  let ?title = "text_of ''GAME (status='' @ [status_char (gs_status (cc_state c))] @
                     text_of '', self='' @ decimal (unat (cc_player_id c)) @ text_of '')''"
  obtain u1 where u1: "draw_text_line_format 3 5 ?title u = Some u1" "same_size u u1"
    using draw_text_some [of u 5 3 ?title] u(1,2) by auto
  have inside: "board_area ?R ?C \<subseteq> in_buffer" using sides u(3) by (simp add: board_area_in_buffer)
  define u2 where "u2 = painted (board_area ?R ?C) (board_char ?C ?g) u1"
  define u3 where "u3 = painted (lit_area c ?R ?C ?g) (\<lambda>_ _. 35) u2"
  have u2: "draw_board ?R ?C ?g u1 = Some u2"
    using paintsD [OF paints_board, of ?R ?C ?g u1] inside by (simp only: u2_def if_True)
  have u3: "draw_explosions c ?R ?C ?g u2 = Some u3"
    using paintsD [OF paints_explosions [OF sides(2,4)], of c ?g u2] order_trans [OF lit_area_board inside] by (simp only: u3_def if_True)
  have size: "same_size u u3" using u1(2) by (simp add: u3_def u2_def same_size_def)
  then have "screen_ok u3" "5 \<le> unat (screen_cols u3)" 
    using u(1,2) same_size_ok [OF size] size by (simp_all add: same_size_def)
  then obtain u4 where u4: "draw_players c (of_nat ?R) u3 = Some u4" "same_size u3 u4"
      "\<forall>y x. y < ?R + 6 \<longrightarrow> sb u4 y x = sb u3 y x"
    using draw_players_some [of u3 ?R c] sides unfolding draws_below_def by blast
  have "draw_screen_game True c u = Some u4"
    unfolding draw_screen_game_def c(2) option.case Let_def by (simp only: u1(1) u2 u3 u4(1) simp_thms if_False bind.bind_lunit)
  moreover have "sb u3 (r + 5) (2 * k + 5) = cell_char c ?R ?C ?g r k" "sb u3 (r + 5) (2 * k + 6) = 32"
    if "r < ?R" "k < ?C" for r k
  proof -
    have "(r + 5, 2 * k + 5) \<in> lit_area c ?R ?C ?g \<longleftrightarrow> grid_at ?C ?g r k = 46 \<and> lit c ?R ?C r k"
      using that by (auto simp: lit_area_def)
    moreover have "(r + 5, 2 * k + 6) \<notin> lit_area c ?R ?C ?g" by (auto simp: lit_area_def) presburger
    moreover have "(r + 5, 2 * k + 5) \<in> board_area ?R ?C" "(r + 5, 2 * k + 6) \<in> board_area ?R ?C"
      using that by (auto simp: board_area_def)
    ultimately show "sb u3 (r + 5) (2 * k + 5) = cell_char c ?R ?C ?g r k" "sb u3 (r + 5) (2 * k + 6) = 32"
      by (simp_all add: u3_def u2_def cell_char_def board_char_def)
  qed
  ultimately show ?thesis using u4 same_size_trans [OF size] by auto
qed

lemma game_none:
  assumes c: "client_ok c" "map_cells (gs_map (cc_state c)) = Some cs" and u: "screen_ok u"
    and out: "\<not> (5 \<le> unat (screen_cols u) \<and> 2 * unat (map_cols (gs_map (cc_state c))) + 5 \<le> MAX_COLS)"
  shows "draw_screen_game True c u = None"
proof -
  let ?title = "text_of ''GAME (status='' @ [status_char (gs_status (cc_state c))] @
                     text_of '', self='' @ decimal (unat (cc_player_id c)) @ text_of '')''"
  have bind: "draw_screen_game True c u = None"
    if "\<And>u1. draw_text_line_format 3 5 ?title u = Some u1 \<Longrightarrow>
      draw_board (unat (map_rows (gs_map (cc_state c)))) (unat (map_cols (gs_map (cc_state c)))) (board_grid c cs) u1 = None"
    using that by (cases "draw_text_line_format 3 5 ?title u") (simp_all add: draw_screen_game_def c(2) Let_def)
  show ?thesis
  proof (cases "5 \<le> unat (screen_cols u)")
    case True
    then have "\<not> board_area (unat (map_rows (gs_map (cc_state c)))) (unat (map_cols (gs_map (cc_state c)))) \<subseteq> in_buffer"
      using out client_map_sides [OF c] by (simp add: board_area_in_buffer)
    then show ?thesis using paintsD [OF paints_board] by (intro bind) simp
  next
    case False
    then show ?thesis using draw_text_none [OF u, of 5 3 ?title] by (intro bind) simp
  qed
qed

text \<open>Two or three lines of text, all starting in the same column.\<close>

lemma draws_text:
  assumes "screen_ok u" "unat col \<le> unat (screen_cols u)" "unat row < MAX_ROWS" "same_size u t"
  shows "draws_below 0 (draw_text_line_format row col line) t"
  using assms by (intro draws_below_text) (simp_all add: same_size_def screen_ok_def)

lemma lobby_iff:
  assumes u: "screen_ok u"
  shows "if is_player_id (cc_player_id c) \<and> 10 \<le> unat (screen_cols u) then draws_below 0 (draw_screen_lobby c) u
    else draw_screen_lobby c u = None"
proof (cases "10 \<le> unat (screen_cols u)")
  case True
  then have lines: "draws_below 0 (draw_text_line_format row 10 line) t" if "unat row < 512" "same_size u t" for row line t
    using that u by (intro draws_text [OF u]) simp_all
  show ?thesis
  proof (cases "is_player_id (cc_player_id c)")
    case id: True
    have "draws_below 0 (draw_screen_lobby c) u"
      unfolding draw_screen_lobby_def using id
      by (simp only: simp_thms if_False) (intro draws_below_bind lines; (simp add: same_size_def)?)
    then show ?thesis using True id by simp
  next
    case False
    then show ?thesis by (auto simp: draw_screen_lobby_def split: bind_split)
  qed
next
  case False
  then show ?thesis using draw_text_none [OF u, of 10] by (simp add: draw_screen_lobby_def)
qed

lemma game_over_iff:
  assumes u: "screen_ok u"
  shows "if 5 \<le> unat (screen_cols u) then draws_below 0 draw_screen_game_over u else draw_screen_game_over u = None"
proof (cases "5 \<le> unat (screen_cols u)")
  case True
  then have lines: "draws_below 0 (draw_text_line_format row 5 line) t" if "unat row < 512" "same_size u t" for row line t
    using that u by (intro draws_text [OF u]) simp_all
  have "draws_below 0 draw_screen_game_over u"
    unfolding draw_screen_game_over_def by (intro draws_below_bind lines; (simp add: same_size_def)?)
  then show ?thesis using True by simp
next
  case False
  then show ?thesis using draw_text_none [OF u, of 5] by (simp add: draw_screen_game_over_def)
qed

lemma game_iff:
  assumes c: "client_ok c" and u: "screen_ok u"
  shows "if (case map_cells (gs_map (cc_state c)) of None \<Rightarrow> 5 \<le> unat (screen_cols u)
        | Some _ \<Rightarrow> m \<longrightarrow> 5 \<le> unat (screen_cols u) \<and> 2 * unat (map_cols (gs_map (cc_state c))) + 5 \<le> MAX_COLS)
    then draws_below 0 (draw_screen_game m c) u else draw_screen_game m c u = None"
proof (cases "map_cells (gs_map (cc_state c))")
  case None
  then have eq: "draw_screen_game m c = draw_text_line_format 5 5 (text_of ''[render] map not available yet'')"
    by (simp add: draw_screen_game_def fun_eq_iff)
  show ?thesis
    unfolding eq None using draws_text [OF u, of 5 5 u] draw_text_none [OF u, of 5] by simp
next
  case (Some cs)
  show ?thesis
  proof (cases m)
    case True
    then show ?thesis using game_some [OF c Some u] game_none [OF c Some u] Some by (auto simp: draws_below_def)
  next
    case False
    then show ?thesis using Some by (simp add: draw_screen_game_def draws_below_def)
  qed
qed

lemma status_iff:
  assumes "client_ok c" "screen_ok u"
  shows "if drawable m c (unat (screen_cols u)) then draws_below 0 (draw_status m c) u else draw_status m c u = None"
proof -
  have "draws_below 0 (draw_status m c) u = draws_below 0 (if gs_status (cc_state c) = GAME_LOBBY then draw_screen_lobby c
      else if gs_status (cc_state c) = GAME_RUNNING then draw_screen_game m c
      else if gs_status (cc_state c) = GAME_END then draw_screen_game_over else Some) u"
    by (simp add: draws_below_def draw_status_def)
  then show ?thesis
    using lobby_iff [OF assms(2), of c] game_iff [OF assms, of m] game_over_iff [OF assms(2)]
    by (auto simp: drawable_def draw_status_def split: if_splits)
qed

section \<open>The log\<close>

text \<open>The number of lines still to draw from slot \<open>i\<close>.\<close>

definition slots_left :: "client_ctx_t \<Rightarrow> nat \<Rightarrow> nat" where
  "slots_left c i = (cc_qlog_end c + MAX_CLIENT_LOG_COUNT - i) mod MAX_CLIENT_LOG_COUNT"

lemma slots_left_step:
  assumes "i < MAX_CLIENT_LOG_COUNT" "cc_qlog_end c < MAX_CLIENT_LOG_COUNT"
  shows "slots_left c i = 0 \<longleftrightarrow> i = cc_qlog_end c"
    and "i \<noteq> cc_qlog_end c \<Longrightarrow> slots_left c i = Suc (slots_left c ((i + 1) mod MAX_CLIENT_LOG_COUNT))"
proof -
  have "\<forall>i \<in> set [0..<16]. \<forall>e \<in> set [0..<16]. ((e + 16 - i) mod 16 = 0 \<longleftrightarrow> i = e) \<and>
      (i \<noteq> e \<longrightarrow> (e + 16 - i) mod 16 = Suc ((e + 16 - (i + 1) mod 16) mod (16 :: nat)))"
    by code_simp
  then have "((cc_qlog_end c + 16 - i) mod 16 = 0 \<longleftrightarrow> i = cc_qlog_end c) \<and>
      (i \<noteq> cc_qlog_end c \<longrightarrow> (cc_qlog_end c + 16 - i) mod 16 = Suc ((cc_qlog_end c + 16 - (i + 1) mod 16) mod 16))"
    using assms by (metis atLeastLessThan_iff set_upt zero_le)
  then show "slots_left c i = 0 \<longleftrightarrow> i = cc_qlog_end c"
    "i \<noteq> cc_qlog_end c \<Longrightarrow> slots_left c i = Suc (slots_left c ((i + 1) mod MAX_CLIENT_LOG_COUNT))"
    by (simp_all add: slots_left_def)
qed

lemma draw_log_step:
  "i \<noteq> cc_qlog_end c \<Longrightarrow> row < r2 \<Longrightarrow> draw_log_lines c col r2 row i u =
    (draw_text_line_format row col (c_string (cc_qlog c ! i)) u \<bind>
     draw_log_lines c col r2 (row + 1) ((i + 1) mod MAX_CLIENT_LOG_COUNT))"
  by (subst draw_log_lines.simps) (auto simp: not_le [symmetric] split: option.split bind_split)

text \<open>Wherever the lines start, they are drawn, and nothing above them changes.\<close>

lemma log_lines_draw:
  assumes ok: "screen_ok u" "unat col \<le> unat (screen_cols u)" and r2: "unat r2 \<le> MAX_ROWS"
    and i: "i < MAX_CLIENT_LOG_COUNT" and e: "cc_qlog_end c < MAX_CLIENT_LOG_COUNT" and low: "low \<le> unat row"
  shows "draws_below low (draw_log_lines c col r2 row i) u"
  using ok i low
proof (induction "slots_left c i" arbitrary: i row u)
  case 0
  then have "i = cc_qlog_end c" using slots_left_step(1) [OF _ e] by metis
  then show ?case by (simp add: draws_below_def draw_log_lines.simps)
next
  case (Suc n)
  then have i: "i \<noteq> cc_qlog_end c" using slots_left_step(1) [OF _ e] by (metis nat.distinct(1))
  show ?case
  proof (cases "row \<ge> r2")
    case True
    then show ?thesis by (simp add: draws_below_def draw_log_lines.simps)
  next
    case False
    then have row: "row < r2" by simp
    then have next_row: "unat (row + 1) = unat row + 1" using unat_next below_not_max by metis
    have "draws_below low (\<lambda>u. draw_text_line_format row col (c_string (cc_qlog c ! i)) u \<bind>
        draw_log_lines c col r2 (row + 1) ((i + 1) mod MAX_CLIENT_LOG_COUNT)) u"
    proof (rule draws_below_bind)
      show "draws_below low (draw_text_line_format row col (c_string (cc_qlog c ! i))) u"
        using Suc.prems row r2 by (intro draws_below_text) (simp_all add: word_less_nat_alt)
      fix t assume t: "same_size u t"
      show "draws_below low (draw_log_lines c col r2 (row + 1) ((i + 1) mod MAX_CLIENT_LOG_COUNT)) t"
      proof (rule Suc.hyps(1))
        show "n = slots_left c ((i + 1) mod MAX_CLIENT_LOG_COUNT)"
          using Suc.hyps(2) slots_left_step(2) [OF Suc.prems(3) e i] by simp
        show "screen_ok t" using Suc.prems(1) same_size_ok [OF t] by simp
        show "unat col \<le> unat (screen_cols t)" using Suc.prems(2) t by (simp add: same_size_def)
      qed (use Suc.prems(4) next_row in simp_all)
    qed
    then show ?thesis by (simp add: draws_below_def draw_log_step [OF i row])
  qed
qed

text \<open>One column of a line over what was there, and the lines from slot \<open>i\<close>, one under the other.\<close>

definition line_char :: "nat \<Rightarrow> nat \<Rightarrow> u8 list \<Rightarrow> nat \<Rightarrow> u8 \<Rightarrow> u8" where
  "line_char C x0 line x old = (if x0 \<le> x \<and> x < x0 + length line \<and> x < C then (take 511 line @ [0]) ! (x - x0) else old)"

lemma text_char:
  assumes "screen_ok u" "unat col \<le> 512" "draw_text_line_format row col line u = Some u'"
  shows "sb u' y x = (if y = unat row then line_char (unat (screen_cols u)) (unat col) line x (sb u y x) else sb u y x)"
  using draw_text_iff [OF assms(1,2), of row line] assms(3)
  by (auto simp: text_area_def line_char_def split: if_splits)

lemma log_lines_exact:
  assumes ok: "screen_ok u" "unat col \<le> unat (screen_cols u)" and r2: "unat row + slots_left c i \<le> unat r2" "unat r2 \<le> MAX_ROWS"
    and i: "i < MAX_CLIENT_LOG_COUNT" and e: "cc_qlog_end c < MAX_CLIENT_LOG_COUNT"
    and u': "draw_log_lines c col r2 row i u = Some u'"
  shows "sb u' y x = (if unat row \<le> y \<and> y < unat row + slots_left c i
      then line_char (unat (screen_cols u)) (unat col) (c_string (cc_qlog c ! ((i + (y - unat row)) mod MAX_CLIENT_LOG_COUNT))) x (sb u y x)
      else sb u y x)"
  using ok r2(1) i u'
proof (induction "slots_left c i" arbitrary: i row u)
  case 0
  then have "i = cc_qlog_end c" using slots_left_step(1) [OF _ e] by metis
  then show ?case using 0 by (auto simp: draw_log_lines.simps)
next
  case (Suc n)
  note step = slots_left_step [OF Suc.prems(4) e]
  have i: "i \<noteq> cc_qlog_end c" using step(1) Suc.hyps(2) by (metis nat.distinct(1))
  have row: "row < r2" using Suc.prems(3) Suc.hyps(2) by (simp add: word_less_nat_alt)
  then have next_row: "unat (row + 1) = unat row + 1" using unat_next below_not_max by metis
  obtain t where t: "draw_text_line_format row col (c_string (cc_qlog c ! i)) u = Some t"
      "draw_log_lines c col r2 (row + 1) ((i + 1) mod MAX_CLIENT_LOG_COUNT) t = Some u'"
    using Suc.prems(5) unfolding draw_log_step [OF i row] by (auto split: bind_splits)
  have col: "unat col \<le> 512" using Suc.prems(1,2) by (simp add: screen_ok_def)
  have size: "same_size u t" using t(1) draw_text_iff [OF Suc.prems(1) col] by (auto split: if_splits)
  let ?i = "(i + 1) mod MAX_CLIENT_LOG_COUNT"
  have IH: "sb u' y x = (if unat row + 1 \<le> y \<and> y < unat row + 1 + n
      then line_char (unat (screen_cols u)) (unat col) (c_string (cc_qlog c ! ((?i + (y - (unat row + 1))) mod MAX_CLIENT_LOG_COUNT))) x (sb t y x)
      else sb t y x)"
    using Suc.hyps(1) [of ?i t "row + 1"] Suc.prems step(2) [OF i] Suc.hyps(2) t(2) next_row same_size_ok [OF size] size
    by (simp add: same_size_def)
  have slot: "(?i + (y - (unat row + 1))) mod MAX_CLIENT_LOG_COUNT = (i + (y - unat row)) mod MAX_CLIENT_LOG_COUNT" if "unat row + 1 \<le> y"
  proof -
    have "(?i + (y - (unat row + 1))) mod MAX_CLIENT_LOG_COUNT = (i + 1 + (y - (unat row + 1))) mod MAX_CLIENT_LOG_COUNT"
      by (rule mod_add_left_eq)
    also have "i + 1 + (y - (unat row + 1)) = i + (y - unat row)" using that by simp
    finally show ?thesis .
  qed
  have "i mod MAX_CLIENT_LOG_COUNT = i" using Suc.prems(4) by simp
  then show ?case
    unfolding Suc.hyps(2) [symmetric] IH text_char [OF Suc.prems(1) col t(1)] using slot by auto
qed

text \<open>The frame of the log at the bottom of the screen, and the lines in it.\<close>

definition log_top :: "nat \<Rightarrow> nat" where
  "log_top R = R - 8"

lemma rows_minus:
  assumes "unat (w :: u64) \<le> 512" "0 < unat w"
  shows "unat (w - 1) = unat w - 1"
    and "8 \<le> unat w \<Longrightarrow> unat (w - 8) = unat w - 8" and "unat w < 8 \<Longrightarrow> unat (w - 8) > 512"
    and "7 \<le> unat w \<Longrightarrow> unat (w - 7) = unat w - 7" and "unat w < 7 \<Longrightarrow> unat (w - 7) > 512"
  using assms by (simp_all add: unat_sub_if' del: unat_eq_0)

text \<open>The arguments that \<open>client_ui_render\<close> gives to \<open>draw_qlog\<close>.\<close>

definition draw_log :: "client_ctx_t \<Rightarrow> screen \<Rightarrow> screen option" where
  "draw_log c u = draw_qlog c (screen_rows u - 5 - 2 - 1) 0 (screen_rows u - 1) (screen_cols u - 1) u"

definition log_first :: "client_ctx_t \<Rightarrow> nat" where
  "log_first c = (cc_qlog_end c + MAX_CLIENT_LOG_COUNT - min 6 (log_count c)) mod MAX_CLIENT_LOG_COUNT"

lemma draw_log_eq:
  "draw_log c u = draw_rect 32 35 (screen_rows u - 8) 0 (screen_rows u - 1) (screen_cols u - 1) u \<bind>
     draw_log_lines c 2 (screen_rows u - 1) (screen_rows u - 7) (log_first c)"
proof -
  have "bound (int_of_size 6) 0 (int n) = int (min 6 n)" for n
    by (simp add: bound_def int_of_size_def)
  then show ?thesis
    by (simp add: draw_log_def draw_qlog_def log_first_def log_count_def Let_def)
qed

lemma log_first_left:
  assumes "cc_qlog_end c < MAX_CLIENT_LOG_COUNT"
  shows "slots_left c (log_first c) = min 6 (log_count c)" "log_first c < MAX_CLIENT_LOG_COUNT"
proof -
  have "\<forall>e \<in> set [0..<16]. \<forall>n \<in> set [0..<7]. (e + 16 - (e + 16 - n) mod 16) mod 16 = (n :: nat)" by code_simp
  then have "(e + 16 - (e + 16 - n) mod 16) mod 16 = n" if "e < 16" "n < 7" for e n :: nat
    using that by (metis atLeastLessThan_iff set_upt zero_le)
  from this [OF assms, of "min 6 (log_count c)"]
  show "slots_left c (log_first c) = min 6 (log_count c)" by (simp add: slots_left_def log_first_def)
qed (simp add: log_first_def)

lemma rect_skip: "\<not> r1 \<le> r2 \<Longrightarrow> draw_rect fill border r1 c1 r2 c2 u = Some u"
  by (simp add: draw_rect_def for_words_past)

text \<open>On a tall screen the frame of the log is drawn, on a low one it is not.\<close>

lemma log_frame:
  assumes u: "screen_ok u" "0 < unat (screen_rows u)" "0 < unat (screen_cols u)"
  defines "R \<equiv> unat (screen_rows u)" and "C \<equiv> unat (screen_cols u)"
  shows "draw_rect 32 35 (screen_rows u - 8) 0 (screen_rows u - 1) (screen_cols u - 1) u =
    Some (if 8 \<le> R then painted (rect_area 32 35 (R - 8) 0 (R - 1) (C - 1)) (rect_char 32 35 (R - 8) 0 (R - 1) (C - 1)) u else u)"
proof -
  have RC: "R \<le> 512" "C \<le> 512" "0 < R" "0 < C" using u by (simp_all add: screen_ok_def R_def C_def)
  have m: "unat (screen_rows u - 1) = R - 1" "unat (screen_cols u - 1) = C - 1"
    using rows_minus(1) u RC by (simp_all add: R_def C_def)
  show ?thesis
  proof (cases "8 \<le> R")
    case True
    then have "unat (screen_rows u - 8) = R - 8" using rows_minus(2) u RC by (simp add: R_def)
    then show ?thesis using rect_exact [of "screen_rows u - 1" "screen_cols u - 1" 32 35 "screen_rows u - 8" 0 u] m RC True by simp
  next
    case False
    then have "unat (screen_rows u - 8) > 512" using rows_minus(3) u RC by (simp add: R_def)
    then show ?thesis using False m RC by (intro trans [OF rect_skip]) (simp_all add: word_le_nat_alt)
  qed
qed

lemma log_iff:
  assumes c: "client_ok c" and u: "screen_ok u" "0 < unat (screen_rows u)" "0 < unat (screen_cols u)"
  shows "if 2 \<le> unat (screen_cols u) \<or> unat (screen_rows u) < 7 \<or> log_count c = 0
    then draws_below (log_top (unat (screen_rows u))) (draw_log c) u else draw_log c u = None"
proof -
  let ?R = "unat (screen_rows u)" and ?C = "unat (screen_cols u)"
  have RC: "?R \<le> 512" "?C \<le> 512" using u by (simp_all add: screen_ok_def)
  define t where "t = (if 8 \<le> ?R then painted (rect_area 32 35 (?R - 8) 0 (?R - 1) (?C - 1)) (rect_char 32 35 (?R - 8) 0 (?R - 1) (?C - 1)) u else u)"
  have frame: "draws_below (log_top ?R) (\<lambda>u. Some t) u"
    by (auto simp: draws_below_def t_def log_top_def rect_area_def same_size_def)
  have size: "same_size u t" by (simp add: t_def same_size_def)
  have eq: "draw_log c u = draw_log_lines c 2 (screen_rows u - 1) (screen_rows u - 7) (log_first c) t"
    unfolding draw_log_eq log_frame [OF u] t_def [symmetric] by simp
  have e: "cc_qlog_end c < MAX_CLIENT_LOG_COUNT" using c by (simp add: client_ok_def qlog_ok_def)
  note first = log_first_left [OF e]
  have r2: "unat (screen_rows u - 1) = ?R - 1" using rows_minus(1) u RC by simp
  have lines: "draws_below (log_top ?R) (draw_log_lines c 2 (screen_rows u - 1) (screen_rows u - 7) (log_first c)) t \<Longrightarrow>
      draws_below (log_top ?R) (draw_log c) u"
    using draws_below_bind [OF frame, of "draw_log_lines c 2 (screen_rows u - 1) (screen_rows u - 7) (log_first c)"] size eq frame
    by (simp add: draws_below_def) (metis same_size_trans)
  consider (low) "?R < 7" | (empty) "log_count c = 0" | (wide) "7 \<le> ?R" "2 \<le> ?C" | (none) "7 \<le> ?R" "?C < 2" "log_count c \<noteq> 0"
    by linarith
  then show ?thesis
  proof cases
    case low
    then have "unat (screen_rows u - 7) > 512" using rows_minus(5) u RC by simp
    then have "screen_rows u - 7 \<ge> screen_rows u - 1" using r2 RC by (simp add: word_le_nat_alt)
    then show ?thesis using low lines by (simp add: draws_below_def draw_log_lines.simps)
  next
    case empty
    then have "log_first c = cc_qlog_end c" using slots_left_step(1) [OF first(2) e] first(1) by simp
    then show ?thesis using empty lines by (simp add: draws_below_def draw_log_lines.simps)
  next
    case wide
    have "screen_ok t" "?C = unat (screen_cols t)" using u(1) same_size_ok [OF size] size by (simp_all add: same_size_def)
    moreover have "log_top ?R \<le> unat (screen_rows u - 7)" using rows_minus(4) u RC wide by (simp add: log_top_def)
    ultimately show ?thesis using wide r2 RC first e by (simp add: lines log_lines_draw)
  next
    case none
    have "screen_ok t" "?C = unat (screen_cols t)" using u(1) same_size_ok [OF size] size by (simp_all add: same_size_def)
    then have "draw_text_line_format row 2 line t = None" for row line using none draw_text_none [of t 2] by simp
    moreover have "log_first c \<noteq> cc_qlog_end c" using slots_left_step(1) [OF first(2) e] first(1) none by auto
    moreover have "screen_rows u - 7 < screen_rows u - 1" using r2 rows_minus(4) u RC none by (simp add: word_less_nat_alt)
    ultimately show ?thesis using none by (simp add: eq draw_log_step)
  qed
qed

text \<open>The two empty screens.\<close>

lemma log_no_rows: "screen_rows u = 0 \<Longrightarrow> draw_log c u = None"
proof -
  assume "screen_rows u = 0"
  then have "draw_rect 32 35 (screen_rows u - 8) 0 (screen_rows u - 1) (screen_cols u - 1) u = None"
    by (intro rect_outside [where y = "- 8" and x = 0]) simp_all
  then show ?thesis by (simp add: draw_log_eq)
qed

lemma log_no_cols:
  assumes u: "screen_ok u" "0 < unat (screen_rows u)" "screen_cols u = 0"
  shows "draw_log c u = None \<or> draw_log c u = Some u"
proof -
  have RC: "unat (screen_rows u) \<le> 512" using u by (simp add: screen_ok_def)
  have m: "unat (screen_rows u - 1) = unat (screen_rows u) - 1" using rows_minus(1) u RC by simp
  show ?thesis
  proof (cases "8 \<le> unat (screen_rows u)")
    case True
    then have "screen_rows u - 8 \<le> screen_rows u - 1" using m rows_minus(2) u RC by (simp add: word_le_nat_alt)
    then have "draw_rect 32 35 (screen_rows u - 8) 0 (screen_rows u - 1) (screen_cols u - 1) u = None"
      using u(3) by (intro rect_outside [where y = "screen_rows u - 8" and x = 512]) simp_all
    then show ?thesis by (simp add: draw_log_eq)
  next
    case False
    then have "\<not> screen_rows u - 8 \<le> screen_rows u - 1"
      using m rows_minus(3) [of "screen_rows u"] u RC by (simp add: word_le_nat_alt)
    moreover have "draw_text_line_format row 2 line u = None" for row line
      using draw_text_none [OF u(1), of 2] u(3) by simp
    ultimately show ?thesis by (simp add: draw_log_eq rect_skip draw_log_lines.simps)
  qed
qed

section \<open>The whole frame\<close>

definition border_of :: "screen \<Rightarrow> screen" where
  "border_of u = painted (rect_area 0 35 0 0 (unat (screen_rows u) - 1) (unat (screen_cols u) - 1)) (\<lambda>_ _. 35) u"

lemma border_exact:
  assumes u: "screen_ok u" "0 < unat (screen_rows u)" "0 < unat (screen_cols u)"
  shows "draw_rect CHAR_NOCHAR 35 0 0 (screen_rows u - 1) (screen_cols u - 1) u = Some (border_of u)"
proof -
  have "unat (screen_rows u - 1) = unat (screen_rows u) - 1" "unat (screen_cols u - 1) = unat (screen_cols u) - 1"
    "unat (screen_rows u) \<le> 512" "unat (screen_cols u) \<le> 512"
    using rows_minus(1) u by (simp_all add: screen_ok_def)
  moreover from this have "draw_rect 0 35 0 0 (screen_rows u - 1) (screen_cols u - 1) u =
      Some (painted (rect_area 0 35 0 0 (unat (screen_rows u) - 1) (unat (screen_cols u) - 1))
        (rect_char 0 35 0 0 (unat (screen_rows u) - 1) (unat (screen_cols u) - 1)) u)"
    using u by (subst rect_exact) simp_all
  moreover have "painted (rect_area 0 35 0 0 R C) (rect_char 0 35 0 0 R C) u = painted (rect_area 0 35 0 0 R C) (\<lambda>_ _. 35) u" for R C
    by (auto simp: painted_def rect_area_def rect_char_def fun_eq_iff)
  ultimately show ?thesis by (simp add: border_of_def)
qed

definition can_render :: "bool \<Rightarrow> client_ctx_t \<Rightarrow> nat \<Rightarrow> nat \<Rightarrow> bool" where
  "can_render malloc_ok c R C \<longleftrightarrow> 0 < R \<and> 0 < C \<and> drawable malloc_ok c C \<and> (2 \<le> C \<or> R < 7 \<or> log_lines c = [])"

lemma render_unfold:
  "client_ui_render ws m c u = do {
     u \<leftarrow> sb_clear (resize_if_needed ws u);
     u \<leftarrow> draw_status m c u;
     u \<leftarrow> draw_log c u;
     u \<leftarrow> draw_rect CHAR_NOCHAR 35 0 0 (screen_rows u - 1) (screen_cols u - 1) u;
     out \<leftarrow> sb_flush u;
     Some (out, u)
   }"
  by (simp add: client_ui_render_def draw_log_def)

text \<open>The stages of a rendering that is defined.\<close>

lemma render_some:
  fixes ws :: "(u16 \<times> u16) option"
  assumes c: "client_ok c" and u: "screen_ok u"
  defines "v \<equiv> resize_if_needed ws u"
  defines "R \<equiv> unat (screen_rows v)" and "C \<equiv> unat (screen_cols v)"
  assumes can: "can_render m c R C"
  shows "\<exists>u2 u3. draw_status m c (painted (whole v) (\<lambda>_ _. 32) v) = Some u2 \<and> same_size v u2 \<and>
    draw_log c u2 = Some u3 \<and> same_size v u3 \<and> (\<forall>y x. y < log_top R \<longrightarrow> sb u3 y x = sb u2 y x) \<and>
    client_ui_render ws m c u = Some (esc ''[1;1H'' @ concat (map (frame_line (border_of u3)) [0..<R]), border_of u3)"
proof -
  let ?u1 = "painted (whole v) (\<lambda>_ _. 32) v"
  have v: "screen_ok v" using resize_ok [OF u] by (simp add: v_def)
  have size: "same_size v ?u1" by simp
  have RC: "0 < R" "0 < C" and can: "drawable m c C" "2 \<le> C \<or> R < 7 \<or> log_count c = 0"
    using can by (auto simp: can_render_def log_lines_def)
  obtain u2 where u2: "draw_status m c ?u1 = Some u2" "same_size ?u1 u2"
    using status_iff [OF c, of ?u1 m] v can(1) same_size_ok [OF size] by (auto simp: C_def draws_below_def)
  have s2: "same_size v u2" using same_size_trans [OF size u2(2)] .
  then have RC2: "unat (screen_rows u2) = R" "unat (screen_cols u2) = C" by (simp_all add: same_size_def R_def C_def)
  have ok2: "screen_ok u2" using same_size_ok [OF s2] v by simp
  obtain u3 where u3: "draw_log c u2 = Some u3" "same_size u2 u3" "\<forall>y x. y < log_top R \<longrightarrow> sb u3 y x = sb u2 y x"
    using log_iff [OF c ok2] RC RC2 can(2) by (auto simp: draws_below_def)
  have s3: "same_size v u3" using same_size_trans [OF s2 u3(2)] .
  then have RC3: "unat (screen_rows u3) = R" "unat (screen_cols u3) = C" by (simp_all add: same_size_def R_def C_def)
  have ok3: "screen_ok u3" "screen_ok (border_of u3)" "unat (screen_rows (border_of u3)) = R"
    using same_size_ok [OF s3] v RC3 by (simp_all add: border_of_def screen_ok_def)
  have "client_ui_render ws m c u = Some (esc ''[1;1H'' @ concat (map (frame_line (border_of u3)) [0..<R]), border_of u3)"
    unfolding render_unfold v_def [symmetric]
    using clear_exact [OF v] u2(1) u3(1) border_exact [OF ok3(1)] RC RC3 flush_exact [OF ok3(2)] ok3(3) by simp
  then show ?thesis using u2(1) s2 u3(1,3) s3 by blast
qed

lemma render_none:
  fixes ws :: "(u16 \<times> u16) option"
  assumes c: "client_ok c" and u: "screen_ok u"
  defines "v \<equiv> resize_if_needed ws u"
  assumes no: "\<not> can_render m c (unat (screen_rows v)) (unat (screen_cols v))"
  shows "client_ui_render ws m c u = None"
proof -
  let ?u1 = "painted (whole v) (\<lambda>_ _. 32) v"
  have v: "screen_ok v" using resize_ok [OF u] by (simp add: v_def)
  then have u1: "sb_clear v = Some ?u1" "screen_ok ?u1" using clear_exact by (simp_all add: screen_ok_def)
  have rest: "client_ui_render ws m c u = None"
    if "\<And>u2. draw_status m c ?u1 = Some u2 \<Longrightarrow> draw_log c u2 = None \<or>
      draw_log c u2 = Some u2 \<and> draw_rect CHAR_NOCHAR 35 0 0 (screen_rows u2 - 1) (screen_cols u2 - 1) u2 = None"
    unfolding render_unfold v_def [symmetric] using that u1(1) by (auto split: bind_split)
  show ?thesis
  proof (cases "drawable m c (unat (screen_cols v))")
    case False
    then show ?thesis using status_iff [OF c u1(2), of m] by (intro rest) simp
  next
    case True
    show ?thesis
    proof (rule rest)
      fix u2 assume "draw_status m c ?u1 = Some u2"
      then have s: "same_size v u2" using status_iff [OF c u1(2), of m] True by (auto simp: draws_below_def same_size_def)
      then have ok: "screen_ok u2" using same_size_ok v by blast
      have eq: "screen_rows u2 = screen_rows v" "screen_cols u2 = screen_cols v" using s by (simp_all add: same_size_def)
      consider "screen_rows u2 = 0" | (col) "0 < unat (screen_rows u2)" "screen_cols u2 = 0" |
          (log) "0 < unat (screen_rows u2)" "0 < unat (screen_cols u2)"
        by (auto simp: unat_gt_0)
      then show "draw_log c u2 = None \<or>
          draw_log c u2 = Some u2 \<and> draw_rect CHAR_NOCHAR 35 0 0 (screen_rows u2 - 1) (screen_cols u2 - 1) u2 = None"
      proof cases
        case col
        then have "0 \<le> screen_rows u2 - 1" by simp
        then have "draw_rect CHAR_NOCHAR 35 0 0 (screen_rows u2 - 1) (screen_cols u2 - 1) u2 = None"
          using col(2) by (intro rect_outside [where y = 0 and x = 512]) simp_all
        then show ?thesis using log_no_cols [OF ok col] by blast
      next
        case log
        then show ?thesis using log_iff [OF c ok log] no True eq by (auto simp: can_render_def log_lines_def split: if_splits)
      qed (simp add: log_no_rows)
    qed
  qed
qed

theorem render_iff:
  assumes "client_ok c" "screen_ok u"
  shows "client_ui_render ws m c u \<noteq> None \<longleftrightarrow>
    can_render m c (unat (screen_rows (resize_if_needed ws u))) (unat (screen_cols (resize_if_needed ws u)))"
  using render_some [OF assms] render_none [OF assms] by fastforce

section \<open>What the user sees\<close>

text \<open>The player drawn on a cell: of those that are alive or ready there, the one in the last slot.\<close>

definition shown_at :: "client_ctx_t \<Rightarrow> nat \<Rightarrow> nat \<Rightarrow> player_t option" where
  "shown_at c r k =
     find (\<lambda>p. (pl_alive p \<or> pl_ready p) \<and> unat (pl_row p) = r \<and> unat (pl_col p) = k) (rev (gs_players (cc_state c)))"

definition cell_shown :: "client_ctx_t \<Rightarrow> u8 list \<Rightarrow> nat \<Rightarrow> nat \<Rightarrow> u8" where
  "cell_shown c cells r k =
     (let rows = unat (map_rows (gs_map (cc_state c))); cols = unat (map_cols (gs_map (cc_state c)));
          cell = cells ! (r * cols + k) in
      case shown_at c r k of
        Some p \<Rightarrow> 48 + pl_id p mod 10
      | None \<Rightarrow> if cell = CELL_EMPTY \<and> lit c rows cols r k then 35 else cell)"

lemma board_grid_at:
  assumes c: "client_ok c" "map_cells (gs_map (cc_state c)) = Some cs"
    and rk: "r < unat (map_rows (gs_map (cc_state c)))" "k < unat (map_cols (gs_map (cc_state c)))"
  shows "grid_at (unat (map_cols (gs_map (cc_state c)))) (board_grid c cs) r k =
    (case shown_at c r k of Some p \<Rightarrow> 48 + pl_id p mod 10
     | None \<Rightarrow> cs ! (r * unat (map_cols (gs_map (cc_state c))) + k))"
proof -
  let ?rows = "map_rows (gs_map (cc_state c))" and ?cols = "map_cols (gs_map (cc_state c))"
  let ?R = "unat ?rows" and ?C = "unat ?cols" and ?ps = "gs_players (cc_state c)"
  let ?P = "\<lambda>p. (pl_alive p \<or> pl_ready p) \<and> unat (pl_row p) = r \<and> unat (pl_col p) = k"
  let ?g = "\<lambda>n. for_range n (\<lambda>i. put_player ?rows ?cols (?ps ! i)) (map (\<lambda>i. cs ! i) [0..<?R * ?C])"
  note sides = client_map_sides [OF c]
  have len: "length ?ps = 8" and ids: "\<And>i. i < 8 \<Longrightarrow> pl_id (?ps ! i) \<noteq> 0"
    using c(1) by (auto simp: client_ok_def)
  have cells: "?R * ?C \<le> MAX_MAP_CELLS" using sides(2,4) mult_le_mono [of ?R 255 ?C 255] by simp
  have below: "r * ?C + k < ?R * ?C" using rk by (rule cell_offset_less)
  have at: "put_player ?rows ?cols p g ! (r * ?C + k) = (if ?P p then 48 + pl_id p mod 10 else g ! (r * ?C + k))"
    if "pl_id p \<noteq> 0" "length g = ?R * ?C" for p g
  proof (cases "pl_row p < ?rows \<and> pl_col p < ?cols")
    case True
    then have index: "unat (make_cell_index (pl_row p) (pl_col p) ?cols) = unat (pl_row p) * ?C + unat (pl_col p)"
      using cells by (intro unat_make_cell_index) simp_all
    have "unat (pl_col p) < ?C" using True by (simp add: word_less_nat_alt)
    then have "unat (pl_row p) * ?C + unat (pl_col p) = r * ?C + k \<longleftrightarrow> unat (pl_row p) = r \<and> unat (pl_col p) = k"
      using cell_offset_inj rk(2) by blast
    then show ?thesis using True that below unfolding put_player_def index by (auto simp: not_le)
  next
    case False
    then have "\<not> ?P p" using rk by (auto simp: word_less_nat_alt)
    then show ?thesis using False that by (auto simp: put_player_def not_le)
  qed
  have loop: "length (?g n) = ?R * ?C \<and>
      ?g n ! (r * ?C + k) = (case find ?P (rev (take n ?ps)) of Some p \<Rightarrow> 48 + pl_id p mod 10 | None \<Rightarrow> cs ! (r * ?C + k))"
    if "n \<le> 8" for n
    using that
  proof (induction n)
    case 0
    then show ?case using below by simp
  next
    case (Suc n)
    then have IH: "length (?g n) = ?R * ?C"
      "?g n ! (r * ?C + k) = (case find ?P (rev (take n ?ps)) of Some p \<Rightarrow> 48 + pl_id p mod 10 | None \<Rightarrow> cs ! (r * ?C + k))"
      by simp_all
    have "length (?g (Suc n)) = ?R * ?C" using IH(1) by (simp add: put_player_def)
    moreover have "take (Suc n) ?ps = take n ?ps @ [?ps ! n]" using Suc.prems len by (simp add: take_Suc_conv_app_nth)
    ultimately show ?case using at [OF ids [of n] IH(1)] IH(2) Suc.prems by auto
  qed
  have "unat (make_cell_index (of_nat r) (of_nat k) ?cols) = r * ?C + k"
  proof -
    have "unat (of_nat r :: u16) = r" "unat (of_nat k :: u16) = k" using rk sides by (simp_all add: unat_of_nat_u16)
    then show ?thesis using rk cells unat_make_cell_index [of "of_nat r" ?rows "of_nat k" ?cols] by (simp add: word_less_nat_alt)
  qed
  then show ?thesis using loop [of 8] len by (simp add: grid_at_def board_grid_def Let_def shown_at_def)
qed

lemma cell_char_shown:
  assumes c: "client_ok c" "map_cells (gs_map (cc_state c)) = Some cs"
    and rk: "r < unat (map_rows (gs_map (cc_state c)))" "k < unat (map_cols (gs_map (cc_state c)))"
  shows "cell_char c (unat (map_rows (gs_map (cc_state c)))) (unat (map_cols (gs_map (cc_state c)))) (board_grid c cs) r k = cell_shown c cs r k"
proof (cases "shown_at c r k")
  case (Some p)
  have "48 + pl_id p mod 10 \<noteq> 46"
  proof
    assume "48 + pl_id p mod 10 = 46"
    then have "unat (48 + pl_id p mod 10) = unat (46 :: u8)" by (rule arg_cong)
    moreover have "unat (48 + pl_id p mod 10) = 48 + unat (pl_id p) mod 10"
    proof -
      have "unat (pl_id p) mod 10 < 10" by simp
      then show ?thesis by (simp add: unat_word_ariths unat_mod)
    qed
    ultimately show False by simp
  qed
  then show ?thesis using board_grid_at [OF c rk] Some by (simp add: cell_char_def cell_shown_def)
next
  case None
  then show ?thesis using board_grid_at [OF c rk] by (simp add: cell_char_def cell_shown_def Let_def)
qed

lemma border_inside:
  assumes "0 < y" "y + 1 < unat (screen_rows u)" "0 < x" "x + 1 < unat (screen_cols u)"
  shows "sb (border_of u) y x = sb u y x"
  using assms by (simp add: border_of_def rect_area_def rect_char_def)

lemma same_size_border: "same_size u (border_of u)"
  by (simp add: border_of_def)

theorem board_shown:
  fixes ws :: "(u16 \<times> u16) option"
  assumes c: "client_ok c" "gs_status (cc_state c) = GAME_RUNNING" "map_cells (gs_map (cc_state c)) = Some cs"
    and u: "screen_ok u" and render: "client_ui_render ws True c u = Some (out, u')"
    and rk: "r < unat (map_rows (gs_map (cc_state c)))" "k < unat (map_cols (gs_map (cc_state c)))"
    and fits: "r + 13 < unat (screen_rows u')" "2 * k + 7 < unat (screen_cols u')"
  shows "sb u' (r + 5) (2 * k + 5) = cell_shown c cs r k \<and> sb u' (r + 5) (2 * k + 6) = 32"
proof -
  let ?v = "resize_if_needed ws u" and ?u1 = "painted (whole (resize_if_needed ws u)) (\<lambda>_ _. 32) (resize_if_needed ws u)"
  have can: "can_render True c (unat (screen_rows ?v)) (unat (screen_cols ?v))"
    using render_none [OF c(1) u, of True ws] render by force
  from render_some [OF c(1) u can] obtain u2 u3 where stages:
    "draw_status True c ?u1 = Some u2" "same_size ?v u2" "same_size ?v u3"
    "\<forall>y x. y < log_top (unat (screen_rows ?v)) \<longrightarrow> sb u3 y x = sb u2 y x" "u' = border_of u3"
    using render by auto
  have dims: "unat (screen_rows u') = unat (screen_rows ?v)" "unat (screen_rows u3) = unat (screen_rows u')"
    "unat (screen_cols u3) = unat (screen_cols u')"
    using stages(3) same_size_border [of u3] by (simp_all add: stages(5) same_size_def)
  have wide: "5 \<le> unat (screen_cols ?v)" "2 * unat (map_cols (gs_map (cc_state c))) + 5 \<le> MAX_COLS"
    using can c(2,3) by (simp_all add: can_render_def drawable_def)
  have "screen_ok ?u1" using resize_ok [OF u] by (simp add: screen_ok_def)
  moreover have "draw_screen_game True c ?u1 = Some u2" using stages(1) c(2) by (simp add: draw_status_def)
  ultimately have "sb u2 (r + 5) (2 * k + 5) = cell_shown c cs r k" "sb u2 (r + 5) (2 * k + 6) = 32"
    using game_some [OF c(1,3), of ?u1] wide rk cell_char_shown [OF c(1,3) rk] by auto
  moreover have "sb u3 (r + 5) x = sb u2 (r + 5) x" for x
    using stages(4) fits(1) dims by (simp add: log_top_def)
  ultimately show ?thesis
    unfolding stages(5) using border_inside [of "r + 5" u3] fits dims by simp
qed

text \<open>The text in row \<open>j\<close> of the log window: the newest six lines at most, oldest first.\<close>

definition log_row :: "client_ctx_t \<Rightarrow> nat \<Rightarrow> u8 list" where
  "log_row c j =
     (let n = min 6 (length (log_lines c)) in if j < n then log_lines c ! (length (log_lines c) - n + j) else [])"

lemma log_slot:
  assumes ok: "qlog_ok c" and j: "j < min 6 (log_count c)"
  shows "c_string (cc_qlog c ! ((log_first c + j) mod MAX_CLIENT_LOG_COUNT)) = log_row c j"
proof -
  let ?n = "min 6 (log_count c)" and ?N = "log_count c"
  have N: "?N < 16" by (rule log_count_less)
  have "(log_first c + j) mod 16 = (cc_qlog_end c + 16 - ?n + j) mod 16"
    unfolding log_first_def by (rule mod_add_left_eq)
  also have "cc_qlog_end c + 16 - ?n + j = cc_qlog_end c + (16 - ?n + j)" by linarith
  also have "\<dots> mod 16 = (cc_qlog_beg c + ?N + (16 - ?n + j)) mod 16"
    unfolding log_end [OF ok, symmetric] by (rule mod_add_left_eq)
  also have "cc_qlog_beg c + ?N + (16 - ?n + j) = cc_qlog_beg c + (?N - ?n + j) + 16" by linarith
  also have "\<dots> mod 16 = (cc_qlog_beg c + (?N - ?n + j)) mod 16" by (rule mod_add_self2)
  finally have slot: "(log_first c + j) mod 16 = (cc_qlog_beg c + (?N - ?n + j)) mod 16" .
  have "?N - ?n + j < ?N" using j by linarith
  then show ?thesis using j unfolding slot log_row_def Let_def length_log_lines by (simp only: if_True nth_log_lines)
qed

theorem log_shown:
  fixes ws :: "(u16 \<times> u16) option"
  assumes c: "client_ok c" and u: "screen_ok u" and render: "client_ui_render ws m c u = Some (out, u')"
    and R: "8 \<le> unat (screen_rows u')" and j: "j < 6" and x: "2 \<le> x" "x + 1 < unat (screen_cols u')"
  shows "sb u' (unat (screen_rows u') - 7 + j) x = (if x - 2 < length (log_row c j) then log_row c j ! (x - 2) else 32)"
proof -
  let ?v = "resize_if_needed ws u"
  have can: "can_render m c (unat (screen_rows ?v)) (unat (screen_cols ?v))"
    using render_none [OF c u, of m ws] render by force
  from render_some [OF c u can] obtain u2 u3 where stages:
    "same_size ?v u2" "draw_log c u2 = Some u3" "same_size ?v u3" "u' = border_of u3"
    using render by auto
  let ?R = "unat (screen_rows u')" and ?C = "unat (screen_cols u')"
  define y where "y = ?R - 7 + j"
  have y: "?R - 8 \<le> y" "y \<le> ?R - 1" "y \<noteq> ?R - 8" "y \<noteq> ?R - 1" "x \<noteq> 0" "x \<noteq> ?C - 1" "x \<le> ?C - 1"
    using R j x by (simp_all add: y_def)
  have dims: "unat (screen_rows u2) = ?R" "unat (screen_cols u2) = ?C" "screen_rows u3 = screen_rows u'" "screen_cols u3 = screen_cols u'"
    using stages(1,3) same_size_border [of u3] by (simp_all add: stages(4) same_size_def)
  have ok2: "screen_ok u2" using same_size_ok [OF stages(1)] resize_ok [OF u] by simp
  then have RC: "?R \<le> 512" "?C \<le> 512" "0 < ?C" using dims x by (simp_all add: screen_ok_def)
  define t where "t = painted (rect_area 32 35 (?R - 8) 0 (?R - 1) (?C - 1)) (rect_char 32 35 (?R - 8) 0 (?R - 1) (?C - 1)) u2"
  have t: "screen_ok t" "unat (screen_cols t) = ?C" "sb t y x = 32"
    using ok2 dims y by (simp_all add: t_def screen_ok_def rect_area_def rect_char_def)
  have q: "qlog_ok c" "cc_qlog_end c < MAX_CLIENT_LOG_COUNT" using c by (simp_all add: client_ok_def qlog_ok_def)
  note first = log_first_left [OF q(2)]
  have rows: "unat (screen_rows u2 - 7) = ?R - 7" "unat (screen_rows u2 - 1) = ?R - 1"
    using rows_minus(1,4) [of "screen_rows u2"] dims RC R by simp_all
  have lines: "draw_log_lines c 2 (screen_rows u2 - 1) (screen_rows u2 - 7) (log_first c) t = Some u3"
    using stages(2) log_frame [OF ok2] dims RC R by (simp add: draw_log_eq t_def)
  have c1: "unat (2 :: u64) \<le> unat (screen_cols t)" using t(2) x by simp
  have c2: "unat (screen_rows u2 - 7) + slots_left c (log_first c) \<le> unat (screen_rows u2 - 1)"
    unfolding rows first(1) using R by linarith
  have c3: "unat (screen_rows u2 - 1) \<le> 512" unfolding rows using RC by linarith
  have at: "?R - 7 \<le> y" "y < ?R - 7 + n \<longleftrightarrow> j < n" "y - (?R - 7) = j" for n by (simp_all add: y_def)
  have "sb u3 y x = (if j < min 6 (log_count c)
      then line_char ?C 2 (c_string (cc_qlog c ! ((log_first c + j) mod MAX_CLIENT_LOG_COUNT))) x 32 else 32)"
    using log_lines_exact [OF t(1) c1 c2 c3 first(2) q(2) lines, of y x] at
    unfolding rows first(1) t(2,3) by simp
  also have "\<dots> = (if x - 2 < length (log_row c j) then log_row c j ! (x - 2) else 32)"
  proof (cases "j < min 6 (log_count c)")
    case True
    then show ?thesis
      using x RC log_slot [OF q(1) True] by (auto simp: line_char_def nth_append)
  next
    case False
    then have "log_row c j = []" by (simp only: log_row_def Let_def length_log_lines if_False)
    with False show ?thesis by (simp only: if_False list.size not_less_zero)
  qed
  finally have "sb u3 y x = (if x - 2 < length (log_row c j) then log_row c j ! (x - 2) else 32)" .
  moreover have "0 < y" "y + 1 < unat (screen_rows u3)" "0 < x" "x + 1 < unat (screen_cols u3)"
    unfolding dims(3,4) using R j x by (simp_all add: y_def)
  then have "sb u' y x = sb u3 y x" unfolding stages(4) by (rule border_inside)
  ultimately show ?thesis by (simp only: y_def)
qed

lemma render_size:
  fixes ws :: "(u16 \<times> u16) option"
  assumes "client_ok c" "screen_ok u" "client_ui_render ws m c u = Some (out, u')"
  shows "same_size (resize_if_needed ws u) u'"
proof -
  have "can_render m c (unat (screen_rows (resize_if_needed ws u))) (unat (screen_cols (resize_if_needed ws u)))"
    using render_none [OF assms(1,2), of m ws] assms(3) by force
  from render_some [OF assms(1,2) this] obtain u3 where "same_size (resize_if_needed ws u) u3" "u' = border_of u3"
    using assms(3) by auto
  then show ?thesis using same_size_trans same_size_border by blast
qed

text \<open>What is written: the frame, row by row.\<close>

lemma render_written:
  fixes ws :: "(u16 \<times> u16) option"
  assumes "client_ok c" "screen_ok u" "client_ui_render ws m c u = Some (out, u')"
  shows "out = esc ''[1;1H'' @ concat (map (frame_line u') [0..<unat (screen_rows u')])"
proof -
  have can: "can_render m c (unat (screen_rows (resize_if_needed ws u))) (unat (screen_cols (resize_if_needed ws u)))"
    using render_none [OF assms(1,2), of m ws] assms(3) by force
  have "unat (screen_rows u') = unat (screen_rows (resize_if_needed ws u))"
    using render_size [OF assms] by (simp add: same_size_def)
  then show ?thesis using render_some [OF assms(1,2) can] assms(3) by auto
qed

end
