(* ===== verification/Client_Screen.thy ===== *)
theory Client_Screen
  imports Client_Run Render_Spec
begin

text \<open>
  The client of \<open>client/client.c\<close> with its screen: the event loop draws a frame after every iteration
  that leaves the client running, and \<open>main\<close> draws one before the first.
\<close>

section \<open>The loop with its frames\<close>

abbreviation (input) SIGWINCH :: int where "SIGWINCH \<equiv> 28"

text \<open>What an iteration gets from outside: as before, and what \<open>ioctl\<close> and \<open>malloc\<close> answer.\<close>

record frame_input =
  fi_client :: client_input
  fi_winsize :: "(u16 \<times> u16) option"
  fi_malloc :: bool

record client_screen =
  cs_io :: client_io
  cs_screen :: screen
  cs_frames :: "u8 list list"

definition draw_frame :: "(u16 \<times> u16) option \<Rightarrow> bool \<Rightarrow> client_screen \<Rightarrow> client_screen outcome" where
  "draw_frame ws malloc_ok d =
     (case client_ui_render ws malloc_ok (cctx (fst (cs_io d))) (cs_screen d) of
        None \<Rightarrow> Undefined
      | Some (out, u) \<Rightarrow> Done (d\<lparr>cs_screen := u, cs_frames := cs_frames d @ [out]\<rparr>))"

definition window_signals :: "int list option \<Rightarrow> screen \<Rightarrow> screen" where
  "window_signals sigs u =
     (case sigs of
        None \<Rightarrow> u
      | Some sigs \<Rightarrow> fold (\<lambda>sig u. if sig = SIGWINCH then client_ui_update_screen_size u else u) sigs u)"

definition drawn_iteration :: "frame_input \<Rightarrow> client_screen \<Rightarrow> (bool \<times> client_screen) outcome" where
  "drawn_iteration inp d =
     and_then (client_iteration (fi_client inp) (cs_io d)) (\<lambda>(left, io).
       let u = (if left then cs_screen d else window_signals (ci_signals (fi_client inp)) (cs_screen d));
           d = d\<lparr>cs_io := io, cs_screen := u\<rparr>
       in if left \<or> \<not> cc_running (cctx (fst io)) then Done (left, d)
          else and_then (draw_frame (fi_winsize inp) (fi_malloc inp) d) (\<lambda>d. Done (False, d)))"

fun drawn_loop :: "frame_input list \<Rightarrow> client_screen \<Rightarrow> (bool \<times> client_screen) outcome" where
  "drawn_loop [] d = Done (\<not> cc_running (cctx (fst (cs_io d))), d)"
| "drawn_loop (inp # inps) d =
     (if \<not> cc_running (cctx (fst (cs_io d))) then Done (True, d)
      else and_then (drawn_iteration inp d) (\<lambda>(left, d). if left then Done (True, d) else drawn_loop inps d))"

text \<open>\<open>main\<close> once HELLO is sent: the screen is set up, a line logged and the first frame drawn.\<close>

definition drawn_main :: "bool \<Rightarrow> bool \<Rightarrow> frame_input \<Rightarrow> client_args \<Rightarrow> frame_input list \<Rightarrow> inbox \<Rightarrow>
    (int option \<times> client_screen) outcome" where
  "drawn_main ok1 ok2 first a inps inb =
     (let s = \<lparr>cctx = client_init (ca_name a) (ca_fd a), cs_sent = [], cs_calloc = ca_calloc a, cs_calloc_pos = 0\<rparr>;
          free = upd_cctx (upd_cstate gs_free);
          stopped = (\<lambda>s. Done (Some 1, \<lparr>cs_io = (s, inb), cs_screen = screen_init, cs_frames = []\<rparr>)) in
      if ca_port a \<le> 0 \<or> ca_port a > 65535 then stopped s
      else if ca_fd a < 0 then stopped (free s)
      else case send_hello (ca_hello_rc a) s of (rc, s) \<Rightarrow>
        if rc \<noteq> 0 then stopped (free s)
        else case client_ui_init ok1 ok2 (fi_winsize first) screen_init of (_, out, u) \<Rightarrow>
          let s = upd_cctx (qlogf (text_of ''client started'')) s in
          and_then (draw_frame (fi_winsize first) (fi_malloc first) \<lparr>cs_io = (s, inb), cs_screen = u, cs_frames = out\<rparr>) (\<lambda>d.
          and_then (drawn_loop inps d) (\<lambda>(ended, d).
          if ended then Done (Some 0, d\<lparr>cs_io := (free (snd (send_leave (ca_leave_rc a) (fst (cs_io d)))), snd (cs_io d)),
            cs_frames := cs_frames d @ snd (client_ui_deinit ok1 ok2)\<rparr>)
          else Done (None, d))))"

section \<open>Frames\<close>

text \<open>Every frame of a run shows a well-formed client on a screen of at most 512 rows and columns.\<close>

definition drawn_ok :: "client_screen \<Rightarrow> bool" where
  "drawn_ok d \<longleftrightarrow> client_ok (cctx (fst (cs_io d))) \<and> screen_ok (cs_screen d)"

lemma ui_update_ok: "screen_ok u \<Longrightarrow> screen_ok (client_ui_update_screen_size u)"
  by (simp add: screen_ok_def client_ui_update_screen_size_def)

lemma window_signals_ok: "screen_ok u \<Longrightarrow> screen_ok (window_signals sigs u)"
proof -
  have "screen_ok (fold (\<lambda>sig u. if sig = SIGWINCH then client_ui_update_screen_size u else u) l u)" if "screen_ok u" for l
    using that by (induction l arbitrary: u) (simp_all add: ui_update_ok)
  then show "screen_ok u \<Longrightarrow> screen_ok (window_signals sigs u)" by (simp add: window_signals_def split: option.split)
qed

lemma render_keeps_ok:
  "client_ok c \<Longrightarrow> screen_ok u \<Longrightarrow> client_ui_render ws m c u = Some (out, u') \<Longrightarrow> screen_ok u'"
  using render_size resize_ok same_size_ok by blast

lemma drawn_iteration_cases:
  assumes "drawn_iteration inp d = Done (left, d')"
  shows "client_iteration (fi_client inp) (cs_io d) = Done (left, cs_io d') \<and>
    (let u = if left then cs_screen d else window_signals (ci_signals (fi_client inp)) (cs_screen d) in
     cs_screen d' = u \<or> (\<exists>out. client_ui_render (fi_winsize inp) (fi_malloc inp) (cctx (fst (cs_io d'))) u = Some (out, cs_screen d')))"
proof -
  obtain l io where it: "client_iteration (fi_client inp) (cs_io d) = Done (l, io)"
    using assms by (auto simp: drawn_iteration_def and_then_Done)
  let ?u = "if l then cs_screen d else window_signals (ci_signals (fi_client inp)) (cs_screen d)"
  let ?d = "d\<lparr>cs_io := io, cs_screen := ?u\<rparr>"
  show ?thesis
  proof (cases "l \<or> \<not> cc_running (cctx (fst io))")
    case True
    then have "left = l" "d' = ?d" using assms it by (auto simp: drawn_iteration_def Let_def)
    then show ?thesis using it by (simp add: Let_def)
  next
    case False
    then have "and_then (draw_frame (fi_winsize inp) (fi_malloc inp) ?d) (\<lambda>d. Done (False, d)) = Done (left, d')"
      using assms it by (simp add: drawn_iteration_def Let_def)
    then obtain out u where "client_ui_render (fi_winsize inp) (fi_malloc inp) (cctx (fst io)) ?u = Some (out, u)"
        "left = False" "d' = ?d\<lparr>cs_screen := u, cs_frames := cs_frames d @ [out]\<rparr>"
      by (auto simp: and_then_Done draw_frame_def split: option.splits)
    then show ?thesis using it False by (simp add: Let_def)
  qed
qed

lemma drawn_iteration_ok:
  assumes "drawn_ok d" "drawn_iteration inp d = Done (left, d')"
  shows "drawn_ok d'"
proof -
  note cases = drawn_iteration_cases [OF assms(2)]
  have "and_then (client_iteration (fi_client inp) (cs_io d)) (\<lambda>(left, io). Done io) = Done (cs_io d')"
    using cases by simp
  then have c: "client_ok (cctx (fst (cs_io d')))"
    using iteration.step assms(1) unfolding client_step_ok_def drawn_ok_def by blast
  let ?u = "if left then cs_screen d else window_signals (ci_signals (fi_client inp)) (cs_screen d)"
  have u: "screen_ok ?u" using assms(1) window_signals_ok by (simp add: drawn_ok_def)
  have "cs_screen d' = ?u \<or> (\<exists>out. client_ui_render (fi_winsize inp) (fi_malloc inp) (cctx (fst (cs_io d'))) ?u = Some (out, cs_screen d'))"
    using cases unfolding Let_def by (rule conjunct2)
  then have "screen_ok (cs_screen d')"
  proof
    assume "cs_screen d' = ?u"
    then show ?thesis using u by (simp only:)
  qed (use render_keeps_ok [OF c u] in blast)
  with c show ?thesis by (simp add: drawn_ok_def)
qed

lemma drawn_loop_ok: "drawn_ok d \<Longrightarrow> drawn_loop inps d = Done (b, d') \<Longrightarrow> drawn_ok d'"
proof (induction inps arbitrary: d)
  case (Cons inp inps)
  then show ?case using drawn_iteration_ok [OF Cons.prems(1)] by (auto simp: and_then_Done split: if_splits)
qed simp

text \<open>The loop with its frames is the loop without them, if it gets to its end.\<close>

lemma drawn_loop_client:
  "drawn_loop inps d = Done (b, d') \<Longrightarrow> client_main_loop (map fi_client inps) (cs_io d) = Done (b, cs_io d')"
proof (induction inps arbitrary: d)
  case (Cons inp inps)
  show ?case
  proof (cases "cc_running (cctx (fst (cs_io d)))")
    case True
    then obtain left d1 where one: "drawn_iteration inp d = Done (left, d1)"
        "(if left then Done (True, d1) else drawn_loop inps d1) = Done (b, d')"
      using Cons.prems by (auto simp: and_then_Done)
    then have "client_iteration (fi_client inp) (cs_io d) = Done (left, cs_io d1)"
      using drawn_iteration_cases by blast
    then show ?thesis using True one(2) Cons.IH by (auto split: if_splits)
  next
    case False
    then show ?thesis using Cons.prems by auto
  qed
qed auto

text \<open>Before WELCOME the lobby cannot be drawn: it reads the player before the first.\<close>

lemma no_number_no_lobby:
  assumes "client_ok c" "screen_ok u" "gs_status (cc_state c) = GAME_LOBBY" "cc_player_id c = 0"
  shows "client_ui_render ws m c u = None"
  using assms(3,4) by (intro render_none [OF assms(1,2)]) (simp add: can_render_def drawable_def is_player_id_def)

lemma ui_init_ok: "client_ui_init ok1 ok2 ws u = (r, out, u') \<Longrightarrow> screen_ok u \<Longrightarrow> screen_ok u'"
  by (auto simp: client_ui_init_def write_esc_def update_screen_size_def screen_ok_def unat_bound split: option.splits)

lemma first_frame:
  assumes "0 < ca_port a" "ca_port a \<le> 65535" "0 \<le> ca_fd a" "ca_hello_rc a = 0"
  shows "drawn_main ok1 ok2 first a inps inb = Undefined"
proof -
  let ?c = "client_init (ca_name a) (ca_fd a)"
  obtain r out u where init: "client_ui_init ok1 ok2 (fi_winsize first) screen_init = (r, out, u)" by (metis prod_cases3)
  have "client_ui_render ws m (qlogf line ?c) u = None" for ws m line
  proof (rule no_number_no_lobby)
    show "client_ok (qlogf line ?c)" by (rule ok_qlogf [OF init_ok])
    show "screen_ok u" by (rule ui_init_ok [OF init screen_init_ok])
  qed (simp_all add: client_init_def gs_init_def)
  then show ?thesis
    using assms init by (simp add: drawn_main_def Let_def send_hello_eq draw_frame_def)
qed

end
