(* ===== verification/Descriptors.thy ===== *)
theory Descriptors
  imports Prelude Config
begin

text \<open>
  Opening sockets: \<open>create_listener\<close> of \<open>server/server.c\<close> and \<open>connect_to_server\<close> of
  \<open>client/client.c\<close>.  Every system call takes the next answer of the operating system and is
  recorded; a call for which no answer is left blocks, with the result \<open>None\<close>.  The list of open
  descriptors grows by a successful \<open>socket\<close> and shrinks by a \<open>close\<close>.
\<close>

section \<open>System calls\<close>

datatype syscall = Sys_Socket | Sys_Reuseaddr int | Sys_Bind int u16 | Sys_Listen int nat | Sys_Connect int "u8 list" | Sys_Close int

record os =
  os_answers :: "int list"
  os_calls :: "(syscall \<times> int) list"
  os_open :: "int list"

definition opened :: "syscall \<Rightarrow> int \<Rightarrow> int list \<Rightarrow> int list" where
  "opened call answer fds =
     (case call of
        Sys_Socket \<Rightarrow> if answer < 0 then fds else answer # fds
      | Sys_Close fd \<Rightarrow> remove1 fd fds
      | _ \<Rightarrow> fds)"

definition sys :: "syscall \<Rightarrow> os \<Rightarrow> (int \<times> os) option" where
  "sys call s =
     (case os_answers s of
        [] \<Rightarrow> None
      | answer # answers \<Rightarrow> Some (answer,
          s\<lparr>os_answers := answers, os_calls := os_calls s @ [(call, answer)], os_open := opened call answer (os_open s)\<rparr>))"

section \<open>The server's socket\<close>

text \<open>A call on the new socket: when it fails, the socket is closed and the function returns \<open>-1\<close>.\<close>

definition checked :: "syscall \<Rightarrow> int \<Rightarrow> (os \<Rightarrow> (int \<times> os) option) \<Rightarrow> os \<Rightarrow> (int \<times> os) option" where
  "checked call fd continue s = do {
     (rc, s) \<leftarrow> sys call s;
     if rc < 0 then do { (_, s) \<leftarrow> sys (Sys_Close fd) s; Some (-1, s) } else continue s
   }"

definition create_listener :: "u16 \<Rightarrow> os \<Rightarrow> (int \<times> os) option" where
  "create_listener prt s = do {
     (fd, s) \<leftarrow> sys Sys_Socket s;
     if fd < 0 then Some (-1, s)
     else
       checked (Sys_Reuseaddr fd) fd (
       checked (Sys_Bind fd prt) fd (
       checked (Sys_Listen fd MAX_PLAYERS) fd (\<lambda>s. Some (fd, s)))) s
   }"

section \<open>The client's socket\<close>

text \<open>The loop over the addresses; \<open>fd\<close> is the variable of the code before the loop goes on.\<close>

fun connect_loop :: "u8 list list \<Rightarrow> int \<Rightarrow> os \<Rightarrow> (int \<times> os) option" where
  "connect_loop [] fd s = Some (fd, s)"
| "connect_loop (it # result) fd s = do {
     (fd, s) \<leftarrow> sys Sys_Socket s;
     if fd < 0 then connect_loop result fd s
     else do {
       (rc, s) \<leftarrow> sys (Sys_Connect fd it) s;
       if rc = 0 then Some (fd, s)
       else do {
         (_, s) \<leftarrow> sys (Sys_Close fd) s;
         connect_loop result (-1) s
       }
     }
   }"

text \<open>\<open>addresses\<close> is what \<open>getaddrinfo\<close> finds for the host and the port, \<open>None\<close> when it fails.\<close>

definition connect_to_server :: "u8 list list option \<Rightarrow> os \<Rightarrow> (int \<times> os) option" where
  "connect_to_server addresses s =
     (case addresses of None \<Rightarrow> Some (-1, s) | Some result \<Rightarrow> connect_loop result (-1) s)"

section \<open>No descriptor is lost\<close>

text \<open>What a call that opens a socket promises: the descriptor it returns is the only new one.\<close>

definition holds_only :: "int \<Rightarrow> os \<Rightarrow> os \<Rightarrow> bool" where
  "holds_only fd s s' \<longleftrightarrow> os_open s' = (if fd < 0 then os_open s else fd # os_open s)"

lemma sys_Some: "sys call s = Some (a, s') \<longleftrightarrow> (\<exists>as. os_answers s = a # as \<and>
    s' = s\<lparr>os_answers := as, os_calls := os_calls s @ [(call, a)], os_open := opened call a (os_open s)\<rparr>)"
  by (auto simp: sys_def split: list.splits)

lemma sys_total: "os_answers s \<noteq> [] \<Longrightarrow> \<exists>a s'. sys call s = Some (a, s') \<and> os_answers s = a # os_answers s'"
  by (cases "os_answers s") (simp_all add: sys_def)

lemma checked_cases:
  assumes "checked call fd k s = Some (r, s')" "\<And>a fds. opened call a fds = fds"
  obtains (failed) "r = -1" "os_open s' = remove1 fd (os_open s)"
  | (passed) a t where "0 \<le> a" "os_open t = os_open s" "os_calls t = os_calls s @ [(call, a)]" "k t = Some (r, s')"
proof -
  obtain a t where t: "sys call s = Some (a, t)" using assms(1) by (auto simp: checked_def split: bind_splits)
  then have st: "os_open t = os_open s" "os_calls t = os_calls s @ [(call, a)]" using assms(2) by (auto simp: sys_Some)
  show ?thesis
  proof (cases "a < 0")
    case True
    then have "r = -1 \<and> os_open s' = remove1 fd (os_open t)"
      using assms(1) t by (auto simp: checked_def sys_Some opened_def split: bind_splits)
    then show ?thesis using st failed by simp
  next
    case False
    then show ?thesis using assms(1) t passed [OF _ st] by (simp add: checked_def)
  qed
qed

lemma opened_other [simp]: "opened (Sys_Reuseaddr fd) a fds = fds" "opened (Sys_Bind fd p) a fds = fds" "opened (Sys_Listen fd n) a fds = fds"
  by (simp_all add: opened_def)

lemma listener_exact:
  assumes run: "create_listener prt s = Some (fd, s')"
  shows "holds_only fd s s' \<and> (if 0 \<le> fd
    then \<exists>a b c. os_calls s' = os_calls s @ [(Sys_Socket, fd), (Sys_Reuseaddr fd, a), (Sys_Bind fd prt, b), (Sys_Listen fd MAX_PLAYERS, c)] \<and>
      0 \<le> a \<and> 0 \<le> b \<and> 0 \<le> c
    else fd = -1)"
proof -
  obtain f s1 where one: "sys Sys_Socket s = Some (f, s1)" using run by (auto simp: create_listener_def split: bind_splits)
  show ?thesis
  proof (cases "f < 0")
    case True
    then have "fd = -1" "s' = s1" using run one by (simp_all add: create_listener_def)
    then show ?thesis using one True by (auto simp: sys_Some opened_def holds_only_def)
  next
    case False
    then have s1: "os_open s1 = f # os_open s" "os_calls s1 = os_calls s @ [(Sys_Socket, f)]"
      using one by (auto simp: sys_Some opened_def)
    have "checked (Sys_Reuseaddr f) f (checked (Sys_Bind f prt) f (checked (Sys_Listen f MAX_PLAYERS) f (\<lambda>s. Some (f, s)))) s1 = Some (fd, s')"
      using run one False by (simp add: create_listener_def)
    then show ?thesis
      using s1 False by (elim checked_cases) (simp_all add: holds_only_def)
  qed
qed

lemma listener_total:
  assumes "5 \<le> length (os_answers s)"
  shows "\<exists>fd s'. create_listener prt s = Some (fd, s')"
proof -
  obtain a b c d e rest where "os_answers s = a # b # c # d # e # rest"
    using assms by (auto simp: Suc_le_length_iff numeral_eq_Suc)
  then show ?thesis by (simp add: create_listener_def checked_def sys_def)
qed

lemma connect_loop_holds:
  "connect_loop result fd0 s = Some (fd, s') \<Longrightarrow> fd0 < 0 \<Longrightarrow> holds_only fd s s'"
proof (induction result fd0 s rule: connect_loop.induct)
  case (2 it result fd0 s)
  then obtain f s1 where one: "sys Sys_Socket s = Some (f, s1)" by (auto split: bind_splits)
  show ?case
  proof (cases "f < 0")
    case True
    then have "holds_only fd s1 s'" using 2(1) [OF one refl True] 2(3) one by simp
    then show ?thesis using one True by (auto simp: holds_only_def sys_Some opened_def)
  next
    case False
    then obtain rc s2 where two: "sys (Sys_Connect f it) s1 = Some (rc, s2)" using 2(3) one by (auto split: bind_splits)
    show ?thesis
    proof (cases "rc = 0")
      case True
      then show ?thesis using 2(3) one two False by (auto simp: holds_only_def sys_Some opened_def)
    next
      case rc: False
      then obtain z s3 where three: "sys (Sys_Close f) s2 = Some (z, s3)" using 2(3) one two False by (auto split: bind_splits)
      then have "holds_only fd s3 s'" using 2(2) [OF one refl False two refl rc three refl] 2(3) one two False rc by simp
      moreover have "os_open s3 = os_open s" using one two three False by (auto simp: sys_Some opened_def)
      ultimately show ?thesis by (simp add: holds_only_def)
    qed
  qed
qed (simp add: holds_only_def)

text \<open>The address that is connected: every one before it was tried and failed.\<close>

lemma connect_loop_first:
  "connect_loop result fd0 s = Some (fd, s') \<Longrightarrow> fd0 < 0 \<Longrightarrow> 0 \<le> fd \<Longrightarrow>
   \<exists>it \<in> set result. last (os_calls s') = (Sys_Connect fd it, 0)"
proof (induction result fd0 s rule: connect_loop.induct)
  case (2 it result fd0 s)
  then obtain f s1 where one: "sys Sys_Socket s = Some (f, s1)" by (auto split: bind_splits)
  show ?case
  proof (cases "f < 0")
    case True
    then show ?thesis using 2(1) [OF one refl True] 2(3,5) one by auto
  next
    case False
    then obtain rc s2 where two: "sys (Sys_Connect f it) s1 = Some (rc, s2)" using 2(3) one by (auto split: bind_splits)
    show ?thesis
    proof (cases "rc = 0")
      case True
      then show ?thesis using 2(3) one two False by (auto simp: sys_Some)
    next
      case rc: False
      then obtain z s3 where three: "sys (Sys_Close f) s2 = Some (z, s3)" using 2(3) one two False by (auto split: bind_splits)
      then show ?thesis using 2(2) [OF one refl False two refl rc three refl] 2(3,5) one two False rc by auto
    qed
  qed
qed simp

lemma connect_loop_total: "3 * length result \<le> length (os_answers s) \<Longrightarrow> \<exists>fd s'. connect_loop result fd0 s = Some (fd, s')"
proof (induction result arbitrary: fd0 s)
  case (Cons it result)
  then obtain a b c rest where as: "os_answers s = a # b # c # rest" "3 * length result \<le> length rest"
    by (auto simp: Suc_le_length_iff numeral_eq_Suc)
  then show ?case
    by (auto simp: sys_def intro!: Cons.IH)
qed simp

end
