(* ===== verification/Screen_Samples.thy ===== *)
theory Screen_Samples
  imports Client_Samples Client_Screen Descriptors
begin

text \<open>Concrete clients on a screen of 128 rows and columns, and answers of an operating system.\<close>

text \<open>A client in a running round on a map of one row, and one with a line in its log.\<close>

definition sample_gamer :: client_ctx_t where
  "sample_gamer = upd_cstate (\<lambda>st. st\<lparr>gs_status := GAME_RUNNING,
     gs_map := \<lparr>map_rows = 1, map_cols = 5, map_cells = Some [46, 46, 83, 46, 72]\<rparr>\<rparr>) sample_player"

definition sample_reader :: client_ctx_t where
  "sample_reader = qlogf (text_of ''hi'') sample_player"

lemma sample_gamer_ok: "client_ok sample_gamer"
  using sample_player_ok(1)
  by (auto simp: sample_gamer_def upd_cstate_def client_ok_def client_map_ok_def wf_map_def qlog_ok_def)

lemma sample_gamer_fields:
  "gs_status (cc_state sample_gamer) = GAME_RUNNING"
  "gs_map (cc_state sample_gamer) = \<lparr>map_rows = 1, map_cols = 5, map_cells = Some [46, 46, 83, 46, 72]\<rparr>"
  "gs_players (cc_state sample_gamer) = gs_players gs_init" "log_lines sample_gamer = []"
  by (simp_all add: sample_gamer_def upd_cstate_def sample_player_def sample_client_def client_init_def log_lines_def log_count_def)

lemma sample_gamer_cell: "cell_shown sample_gamer [46, 46, 83, 46, 72] 0 2 = 83"
proof -
  have "shown_at sample_gamer 0 2 = None"
    by (auto simp: shown_at_def sample_gamer_fields find_None_iff gs_init_def init_player_def zero_player_def)
  then show ?thesis by (simp add: cell_shown_def sample_gamer_fields)
qed

lemma sample_reader_ok: "client_ok sample_reader"
  by (simp add: sample_reader_def ok_qlogf sample_player_ok)

lemma sample_reader_fields: "gs_status (cc_state sample_reader) = GAME_LOBBY" "is_player_id (cc_player_id sample_reader)"
  using sample_player_ok(2) by (simp_all add: sample_reader_def sample_player_def sample_client_def client_init_def gs_init_def)

lemma sample_reader_log: "log_row sample_reader 0 = text_of ''hi''"
proof -
  have "log_lines sample_player = []"
    by (simp add: sample_player_def sample_client_def client_init_def log_lines_def log_count_def)
  moreover have "qlog_ok sample_player" using sample_player_ok(1) by (simp add: client_ok_def)
  ultimately have "log_lines sample_reader = [log_entry (text_of ''hi'')]"
    unfolding sample_reader_def by (simp add: qlogf_lines last_n_def)
  moreover have "log_entry (text_of ''hi'') = text_of ''hi''" by (simp add: log_entry_def c_string_def text_of_def)
  ultimately show ?thesis by (simp add: log_row_def)
qed

text \<open>Both are drawn on the initial screen.\<close>

lemma sample_resize: "resize_if_needed None screen_init = screen_init"
  by (simp add: resize_if_needed_def screen_init_def)

lemma screen_init_size: "unat (screen_rows screen_init) = 128" "unat (screen_cols screen_init) = 128"
  by (simp_all add: screen_init_def)

lemma sample_frames:
  "\<exists>out u. client_ui_render None True sample_gamer screen_init = Some (out, u) \<and> unat (screen_rows u) = 128 \<and> unat (screen_cols u) = 128"
  "\<exists>out u. client_ui_render None True sample_reader screen_init = Some (out, u) \<and> unat (screen_rows u) = 128 \<and> unat (screen_cols u) = 128"
proof -
  have frame: "\<exists>out u. client_ui_render None True c screen_init = Some (out, u) \<and> unat (screen_rows u) = 128 \<and> unat (screen_cols u) = 128"
    if "client_ok c" "drawable True c 128" for c
  proof -
    have "client_ui_render None True c screen_init \<noteq> None"
      unfolding render_iff [OF that(1) screen_init_ok] sample_resize using that(2)
      by (simp add: can_render_def screen_init_size)
    then obtain out u where r: "client_ui_render None True c screen_init = Some (out, u)" by auto
    from render_size [OF that(1) screen_init_ok r] have "unat (screen_rows u) = 128 \<and> unat (screen_cols u) = 128"
      by (simp add: same_size_def sample_resize screen_init_size)
    then show ?thesis using r by blast
  qed
  show "\<exists>out u. client_ui_render None True sample_gamer screen_init = Some (out, u) \<and> unat (screen_rows u) = 128 \<and> unat (screen_cols u) = 128"
    by (intro frame sample_gamer_ok) (simp add: drawable_def sample_gamer_fields)
  show "\<exists>out u. client_ui_render None True sample_reader screen_init = Some (out, u) \<and> unat (screen_rows u) = 128 \<and> unat (screen_cols u) = 128"
    using sample_reader_fields by (intro frame sample_reader_ok) (simp add: drawable_def)
qed

definition sample_os :: "int list \<Rightarrow> os" where
  "sample_os answers = \<lparr>os_answers = answers, os_calls = [], os_open = [0, 1, 2]\<rparr>"

end
