(* ===== verification/Signals.thy ===== *)
theory Signals
  imports Client_Screen
begin

text \<open>
  \<open>client/sigthread.c\<close>, and \<open>init_signals\<close> and the terminal modes of \<open>client/client.c\<close>: a thread takes the
  blocked signals with \<open>sigwait\<close> and writes their numbers into a pipe, which the main thread empties in
  \<open>handle_fd_sigthread\<close>.  The two threads interleave freely, so they are a step relation.  A write of an
  \<open>int\<close> into a pipe is atomic, so the pipe is a list of numbers; a signal that is raised while it is
  pending already is raised once, so the pending signals are a set.
\<close>

section \<open>Setting up\<close>

abbreviation (input) O_NONBLOCK :: u32 where "O_NONBLOCK \<equiv> 2048"
abbreviation (input) PIPE_CAPACITY :: nat where "PIPE_CAPACITY \<equiv> 16384"

definition signal_set :: "int set" where
  "signal_set = {SIGWINCH, SIGINT}"

record sig_setup =
  ss_blocked :: "int set"
  ss_flags :: "u32 option"
  ss_thread :: bool

text \<open>\<open>flags\<close> is what \<open>fcntl\<close> reports of the new pipe; the results of \<open>pipe\<close> and of \<open>fcntl\<close> are not looked at.\<close>

definition st_pipe_init :: "u32 \<Rightarrow> sig_setup \<Rightarrow> sig_setup" where
  "st_pipe_init flags s = s\<lparr>ss_flags := Some (flags OR O_NONBLOCK)\<rparr>"

definition init_signals :: "int \<Rightarrow> u32 \<Rightarrow> int \<Rightarrow> sig_setup \<Rightarrow> int \<times> sig_setup" where
  "init_signals mask_rc flags create_rc s =
     (if mask_rc \<noteq> 0 then (1, s)
      else let s = st_pipe_init flags (s\<lparr>ss_blocked := ss_blocked s \<union> signal_set\<rparr>) in
        if 0 \<noteq> create_rc then (1, s) else (0, s\<lparr>ss_thread := True\<rparr>))"

lemma init_signals_done:
  "fst (init_signals m f c s) = 0 \<longleftrightarrow> m = 0 \<and> c = 0"
  "fst (init_signals m f c s) = 0 \<Longrightarrow> signal_set \<subseteq> ss_blocked (snd (init_signals m f c s)) \<and> ss_thread (snd (init_signals m f c s))"
  by (auto simp: init_signals_def st_pipe_init_def Let_def)

section \<open>The terminal\<close>

record termios =
  c_iflag :: u32
  c_lflag :: u32
  c_cc :: "u8 list"

abbreviation (input) ECHO :: u32 where "ECHO \<equiv> 8"
abbreviation (input) ICANON :: u32 where "ICANON \<equiv> 2"
abbreviation (input) ISIG :: u32 where "ISIG \<equiv> 1"
abbreviation (input) IXON :: u32 where "IXON \<equiv> 1024"
abbreviation (input) ICRNL :: u32 where "ICRNL \<equiv> 256"
abbreviation (input) VTIME :: nat where "VTIME \<equiv> 5"
abbreviation (input) VMIN :: nat where "VMIN \<equiv> 6"

text \<open>The mode of the terminal and \<open>orig_termios\<close>, in which it is kept.\<close>

definition enable_raw_input_mode :: "termios \<times> termios \<Rightarrow> termios \<times> termios" where
  "enable_raw_input_mode p =
     (let orig = fst p;
          raw = orig\<lparr>c_lflag := c_lflag orig AND NOT (ECHO OR ICANON), c_iflag := c_iflag orig AND NOT (IXON OR ICRNL),
            c_cc := (c_cc orig)[VMIN := 1, VTIME := 0]\<rparr>
      in (raw, orig))"

definition restore_orig_input_mode :: "termios \<times> termios \<Rightarrow> termios \<times> termios" where
  "restore_orig_input_mode p = (snd p, snd p)"

text \<open>The keys arrive one at a time and unseen, the interrupt key is still a signal, and the mode is restored.\<close>

lemma raw_mode:
  fixes t t0 :: termios
  defines "raw \<equiv> fst (enable_raw_input_mode (t, t0))"
  shows "c_lflag raw AND (ECHO OR ICANON) = 0" "c_lflag raw AND ISIG = c_lflag t AND ISIG"
    "fst (restore_orig_input_mode (enable_raw_input_mode (t, t0))) = t"
proof -
  show "c_lflag raw AND (ECHO OR ICANON) = 0"
    by (rule bit_word_eqI) (auto simp: raw_def enable_raw_input_mode_def Let_def bit_simps)
  show "c_lflag raw AND ISIG = c_lflag t AND ISIG"
    by (rule bit_word_eqI) (auto simp: raw_def enable_raw_input_mode_def Let_def bit_simps)
  show "fst (restore_orig_input_mode (enable_raw_input_mode (t, t0))) = t"
    by (simp add: restore_orig_input_mode_def enable_raw_input_mode_def Let_def)
qed

section \<open>The two threads\<close>

text \<open>
  \<open>sw_held\<close> is the signal that the thread has taken and not written yet; \<open>sw_reading\<close> that the main
  thread is in the loop of \<open>handle_fd_sigthread\<close>.  \<open>sw_taken\<close> and \<open>sw_handled\<close> record what \<open>sigwait\<close> and the
  loop have returned.
\<close>

record sig_world =
  sw_pending :: "int set"
  sw_held :: "int option"
  sw_pipe :: "int list"
  sw_reading :: bool
  sw_taken :: "int list"
  sw_handled :: "int list"
  sw_client :: client_sys
  sw_screen :: screen

definition sig_start :: "client_sys \<Rightarrow> screen \<Rightarrow> sig_world" where
  "sig_start s u = \<lparr>sw_pending = {}, sw_held = None, sw_pipe = [], sw_reading = False, sw_taken = [], sw_handled = [],
     sw_client = s, sw_screen = u\<rparr>"

text \<open>The body of the loop that empties the pipe.\<close>

definition read_signal :: "int \<Rightarrow> sig_world \<Rightarrow> sig_world" where
  "read_signal sig w = w\<lparr>sw_handled := sw_handled w @ [sig],
     sw_client := (if sig = SIGINT then stop (sw_client w) else sw_client w),
     sw_screen := (if sig = SIGWINCH then client_ui_update_screen_size (sw_screen w) else sw_screen w)\<rparr>"

text \<open>The steps of the program: the signal thread's two calls, then the main thread's loop.\<close>

inductive sig_step :: "sig_world \<Rightarrow> sig_world \<Rightarrow> bool" where
  sigwait: "sw_held w = None \<Longrightarrow> sig \<in> sw_pending w \<Longrightarrow>
    sig_step w (w\<lparr>sw_pending := sw_pending w - {sig}, sw_held := Some sig, sw_taken := sw_taken w @ [sig]\<rparr>)"
| pipe_write: "sw_held w = Some sig \<Longrightarrow> length (sw_pipe w) < PIPE_CAPACITY \<Longrightarrow>
    sig_step w (w\<lparr>sw_held := None, sw_pipe := sw_pipe w @ [sig]\<rparr>)"
| selected: "\<not> sw_reading w \<Longrightarrow> cc_running (cctx (sw_client w)) \<Longrightarrow> sw_pipe w \<noteq> [] \<Longrightarrow> sig_step w (w\<lparr>sw_reading := True\<rparr>)"
| pipe_read: "sw_reading w \<Longrightarrow> sw_pipe w = sig # rest \<Longrightarrow> sig_step w (read_signal sig (w\<lparr>sw_pipe := rest\<rparr>))"
| pipe_empty: "sw_reading w \<Longrightarrow> sw_pipe w = [] \<Longrightarrow> sig_step w (w\<lparr>sw_reading := False\<rparr>)"

inductive sig_reachable :: "client_sys \<Rightarrow> screen \<Rightarrow> sig_world \<Rightarrow> bool" for s u where
  start: "sig_reachable s u (sig_start s u)"
| raised: "sig_reachable s u w \<Longrightarrow> sig \<in> signal_set \<Longrightarrow> sig_reachable s u (w\<lparr>sw_pending := insert sig (sw_pending w)\<rparr>)"
| step: "sig_reachable s u w \<Longrightarrow> sig_step w w' \<Longrightarrow> sig_reachable s u w'"

inductive_cases sig_stepE: "sig_step w w'"

section \<open>No signal is lost\<close>

definition held_list :: "sig_world \<Rightarrow> int list" where
  "held_list w = (case sw_held w of None \<Rightarrow> [] | Some sig \<Rightarrow> [sig])"

definition sig_inv :: "client_sys \<Rightarrow> screen \<Rightarrow> sig_world \<Rightarrow> bool" where
  "sig_inv s u w \<longleftrightarrow> sw_taken w = sw_handled w @ sw_pipe w @ held_list w \<and>
     sw_client w = handle_fd_sigthread (sw_handled w) s \<and> sw_screen w = window_signals (Some (sw_handled w)) u \<and>
     sw_pending w \<subseteq> signal_set \<and> length (sw_pipe w) \<le> PIPE_CAPACITY"

lemma sig_inv_start: "sig_inv s u (sig_start s u)"
  by (simp add: sig_inv_def sig_start_def held_list_def handle_fd_sigthread_def window_signals_def)

lemma sig_inv_step: "sig_step w w' \<Longrightarrow> sig_inv s u w \<Longrightarrow> sig_inv s u w'"
  by (induction rule: sig_step.induct)
    (auto simp: sig_inv_def held_list_def read_signal_def handle_fd_sigthread_def window_signals_def)

lemma sig_inv_reachable: "sig_reachable s u w \<Longrightarrow> sig_inv s u w"
proof (induction rule: sig_reachable.induct)
  case (raised w sig)
  then show ?case by (simp add: sig_inv_def held_list_def)
qed (auto intro: sig_inv_start sig_inv_step)

lemma handled_running: "cc_running (cctx (handle_fd_sigthread sigs s)) \<longleftrightarrow> cc_running (cctx s) \<and> SIGINT \<notin> set sigs"
proof (induction sigs arbitrary: s)
  case (Cons sig sigs)
  then show ?case by (simp add: handle_fd_sigthread_def stop_def)
qed (simp add: handle_fd_sigthread_def)

section \<open>Every signal is handled\<close>

text \<open>The main thread empties the pipe.\<close>

lemma drained:
  "sw_reading w \<Longrightarrow> \<exists>w'. sig_step\<^sup>*\<^sup>* w w' \<and> \<not> sw_reading w' \<and> sw_pipe w' = [] \<and> sw_held w' = sw_held w \<and> sw_pending w' = sw_pending w"
proof (induction "sw_pipe w" arbitrary: w)
  case Nil
  then show ?case using pipe_empty [of w] by (intro exI [of _ "w\<lparr>sw_reading := False\<rparr>"]) auto
next
  case (Cons sig rest)
  let ?w = "read_signal sig (w\<lparr>sw_pipe := rest\<rparr>)"
  have "sig_step w ?w" using Cons.prems Cons.hyps(2) by (intro pipe_read) simp_all
  moreover obtain w' where "sig_step\<^sup>*\<^sup>* ?w w'" "\<not> sw_reading w'" "sw_pipe w' = []" "sw_held w' = sw_held ?w" "sw_pending w' = sw_pending ?w"
    using Cons.hyps(1) [of ?w] Cons.prems by (auto simp: read_signal_def)
  ultimately show ?case by (auto simp: read_signal_def intro: converse_rtranclp_into_rtranclp)
qed

text \<open>Until the client stops or nothing is left to be handled.\<close>

definition at_rest :: "sig_world \<Rightarrow> bool" where
  "at_rest w \<longleftrightarrow> \<not> sw_reading w \<and> (cc_running (cctx (sw_client w)) \<longrightarrow> sw_pending w = {} \<and> sw_held w = None \<and> sw_pipe w = [])"

lemma emptied:
  "\<exists>w'. sig_step\<^sup>*\<^sup>* w w' \<and> \<not> sw_reading w' \<and> (cc_running (cctx (sw_client w')) \<longrightarrow> sw_pipe w' = []) \<and> sw_held w' = sw_held w \<and>
    sw_pending w' = sw_pending w"
proof (cases "sw_reading w \<or> \<not> cc_running (cctx (sw_client w)) \<or> sw_pipe w = []")
  case True
  then show ?thesis using drained [of w] by blast
next
  case False
  then have "sig_step w (w\<lparr>sw_reading := True\<rparr>)" by (intro selected) simp_all
  then show ?thesis using drained [of "w\<lparr>sw_reading := True\<rparr>"] by (auto intro: converse_rtranclp_into_rtranclp)
qed

lemma written:
  "\<exists>w'. sig_step\<^sup>*\<^sup>* w w' \<and> \<not> sw_reading w' \<and> (cc_running (cctx (sw_client w')) \<longrightarrow> sw_pipe w' = [] \<and> sw_held w' = None) \<and>
    sw_pending w' = sw_pending w"
proof -
  obtain w1 where w1: "sig_step\<^sup>*\<^sup>* w w1" "\<not> sw_reading w1" "cc_running (cctx (sw_client w1)) \<longrightarrow> sw_pipe w1 = []"
    "sw_held w1 = sw_held w" "sw_pending w1 = sw_pending w" using emptied by blast
  show ?thesis
  proof (cases "cc_running (cctx (sw_client w1)) \<and> sw_held w1 \<noteq> None")
    case False
    then show ?thesis using w1 by auto
  next
    case True
    then obtain sig where "sw_held w1 = Some sig" by blast
    then have step: "sig_step w1 (w1\<lparr>sw_held := None, sw_pipe := sw_pipe w1 @ [sig]\<rparr>)"
      using True w1(3) by (intro pipe_write) simp_all
    obtain w2 where "sig_step\<^sup>*\<^sup>* (w1\<lparr>sw_held := None, sw_pipe := sw_pipe w1 @ [sig]\<rparr>) w2" "\<not> sw_reading w2"
      "cc_running (cctx (sw_client w2)) \<longrightarrow> sw_pipe w2 = []" "sw_held w2 = None" "sw_pending w2 = sw_pending w1"
      using emptied [of "w1\<lparr>sw_held := None, sw_pipe := sw_pipe w1 @ [sig]\<rparr>"] by auto
    then show ?thesis
      using w1(1,5) step by (intro exI [of _ w2]) (auto intro: rtranclp_trans converse_rtranclp_into_rtranclp)
  qed
qed

lemma rests:
  assumes "finite (sw_pending w)"
  shows "\<exists>w'. sig_step\<^sup>*\<^sup>* w w' \<and> at_rest w'"
  using assms
proof (induction "card (sw_pending w)" arbitrary: w rule: less_induct)
  case less
  obtain w1 where w1: "sig_step\<^sup>*\<^sup>* w w1" "\<not> sw_reading w1"
    "cc_running (cctx (sw_client w1)) \<longrightarrow> sw_pipe w1 = [] \<and> sw_held w1 = None" "sw_pending w1 = sw_pending w"
    using written by blast
  show ?case
  proof (cases "cc_running (cctx (sw_client w1)) \<and> sw_pending w1 \<noteq> {}")
    case False
    then show ?thesis using w1 by (auto simp: at_rest_def)
  next
    case True
    then obtain sig where sig: "sig \<in> sw_pending w1" by blast
    let ?w = "w1\<lparr>sw_pending := sw_pending w1 - {sig}, sw_held := Some sig, sw_taken := sw_taken w1 @ [sig]\<rparr>"
    have step: "sig_step w1 ?w" using True w1(3) sig by (intro sigwait) simp_all
    have "card (sw_pending ?w) < card (sw_pending w)"
      using card_Diff1_less [of "sw_pending w" sig] less.prems sig w1(4) by (simp del: card_Diff_singleton)
    then obtain w2 where "sig_step\<^sup>*\<^sup>* ?w w2" "at_rest w2" using less.hyps [of ?w] less.prems w1(4) by auto
    then show ?thesis using w1(1) step by (auto intro: rtranclp_trans converse_rtranclp_into_rtranclp)
  qed
qed

lemma raised_kept: "sig_step w w' \<Longrightarrow> sig \<in> sw_pending w \<union> set (sw_taken w) \<Longrightarrow> sig \<in> sw_pending w' \<union> set (sw_taken w')"
  by (induction rule: sig_step.induct) (auto simp: read_signal_def)

lemma run_inv:
  assumes "sig_step\<^sup>*\<^sup>* w w'" "sig_inv s u w"
  shows "sig_inv s u w'" "sig \<in> sw_pending w \<union> set (sw_taken w) \<Longrightarrow> sig \<in> sw_pending w' \<union> set (sw_taken w')"
  using assms by (induction rule: rtranclp_induct) (blast intro: sig_inv_step dest: raised_kept)+

text \<open>At rest an interrupt has stopped the client.\<close>

lemma interrupt_stops:
  assumes "sig_inv s u w" "at_rest w" "SIGINT \<in> sw_pending w \<union> set (sw_taken w)"
  shows "\<not> cc_running (cctx (sw_client w))"
proof
  assume run: "cc_running (cctx (sw_client w))"
  then have "sw_taken w = sw_handled w" "sw_pending w = {}" using assms(1,2) by (auto simp: sig_inv_def at_rest_def held_list_def)
  then have "SIGINT \<in> set (sw_handled w)" using assms(3) by simp
  then show False using run assms(1) handled_running [of "sw_handled w" s] by (simp add: sig_inv_def)
qed

end
