(* ===== verification/Programs.thy ===== *)
theory Programs
  imports Server_Loop Signals Descriptors
begin

text \<open>
  The two programs from their command lines: \<open>main\<close> of \<open>server/server.c\<close>, with its map file and its
  listening socket, and \<open>main\<close> of \<open>client/client.c\<close>, with its signal thread and its connection.
\<close>

section \<open>Numbers on the command line\<close>

text \<open>\<open>strtol\<close> with base ten: white space, an optional sign and digits; a value that is no \<open>long\<close> becomes the nearest
  one, and text without digits is zero.\<close>

abbreviation (input) LONG_MAX :: int where "LONG_MAX \<equiv> 2 ^ 63 - 1"

definition strtol :: "u8 list \<Rightarrow> int" where
  "strtol bs =
     (let bs = dropWhile is_space bs;
          neg = (bs \<noteq> [] \<and> hd bs = 45);
          bs = (if bs \<noteq> [] \<and> (hd bs = 45 \<or> hd bs = 43) then tl bs else bs);
          v = digits_value (takeWhile is_digit bs)
      in max (- LONG_MAX - 1) (min LONG_MAX (if neg then - v else v)))"

definition valid_port :: "int \<Rightarrow> bool" where
  "valid_port prt \<longleftrightarrow> 0 < prt \<and> prt \<le> 65535"

lemma digits_value_append: "digits_value (ds @ [d]) = 10 * digits_value ds + (int (unat d) - 48)"
  by (simp add: digits_value_def)

lemma digit_byte:
  assumes "n < 10"
  shows "unat (of_nat (48 + n) :: u8) = 48 + n" "is_digit (of_nat (48 + n))" "\<not> is_space (of_nat (48 + n))"
    "(of_nat (48 + n) :: u8) \<noteq> 45" "(of_nat (48 + n) :: u8) \<noteq> 43"
proof -
  have "n = 0 \<or> n = 1 \<or> n = 2 \<or> n = 3 \<or> n = 4 \<or> n = 5 \<or> n = 6 \<or> n = 7 \<or> n = 8 \<or> n = 9" using assms by auto
  then show "unat (of_nat (48 + n) :: u8) = 48 + n" "is_digit (of_nat (48 + n))" "\<not> is_space (of_nat (48 + n))"
    "(of_nat (48 + n) :: u8) \<noteq> 45" "(of_nat (48 + n) :: u8) \<noteq> 43"
    by (auto simp: is_digit_def is_space_def)
qed

lemma decimal_digits: "decimal n \<noteq> [] \<and> list_all is_digit (decimal n) \<and> digits_value (decimal n) = int n"
proof (induction n rule: decimal.induct)
  case (1 n)
  show ?case
  proof (cases "n < 10")
    case True
    then show ?thesis using digit_byte [OF True] by (simp add: decimal.simps [of n] digits_value_def del: of_nat_add of_nat_unat)
  next
    case False
    have d: "n mod 10 < 10" by simp
    have "10 * int (n div 10) + int (n mod 10) = int n" by presburger
    then show ?thesis
      using 1 [OF False] False digit_byte [OF d]
      by (simp add: decimal.simps [of n] digits_value_append del: of_nat_add of_nat_unat)
  qed
qed

text \<open>What \<open>snprintf\<close> prints of a port is read back as this port.\<close>

lemma strtol_decimal:
  assumes "n < 2 ^ 63"
  shows "strtol (decimal n) = int n"
proof -
  obtain b bs where d: "decimal n = b # bs" using decimal_digits [of n] by (cases "decimal n") auto
  then have "is_digit b" using decimal_digits [of n] by simp
  then have b: "\<not> is_space b" "b \<noteq> 45" "b \<noteq> 43" by (auto simp: is_digit_def is_space_def word_le_nat_alt)
  have "takeWhile is_digit (decimal n) = decimal n" using decimal_digits [of n] by (simp add: takeWhile_eq_all_conv list_all_iff)
  then have "digits_value (takeWhile is_digit (decimal n)) = int n" using decimal_digits [of n] by argo
  moreover have "dropWhile is_space (decimal n) = decimal n" "hd (decimal n) \<noteq> 45" "hd (decimal n) \<noteq> 43" using b d by simp_all
  ultimately show ?thesis using decimal_digits [of n] assms by (simp add: strtol_def)
qed

section \<open>The server\<close>

text \<open>
  \<open>files\<close> are the contents of the files that can be opened; \<open>s\<close> is the operating system as
  \<open>create_listener\<close> sees it.  The exit code is \<open>None\<close> while the loop waits for more input; a program that
  exits before it has a context has none in its result.
\<close>

definition server_serve ::
  "u16 \<Rightarrow> server_sys \<Rightarrow> loop_input list \<Rightarrow> os \<Rightarrow> (int option \<times> server_sys option \<times> os) option" where
  "server_serve prt s inps os = do {
     (fd, os) \<leftarrow> create_listener prt os;
     let s = upd_ctx (\<lambda>c. c\<lparr>listen_fd := fd\<rparr>) s;
     let free = upd_ctx (upd_state gs_free);
     if fd < 0 then Some (Some 1, Some (free s), os)
     else do {
       (r, s) \<leftarrow> server_run_loop inps s;
       (case r of
          None \<Rightarrow> Some (None, Some s, os)
        | Some r \<Rightarrow> do {
            (_, os) \<leftarrow> sys (Sys_Close fd) os;
            Some (Some (if r \<noteq> 0 then 1 else 0), Some (free s), os)
          })
     }
   }"

definition server_main ::
  "u8 list list \<Rightarrow> (u8 list \<Rightarrow> u8 list option) \<Rightarrow> bool \<Rightarrow> environment \<Rightarrow> loop_input list \<Rightarrow> os \<Rightarrow>
     (int option \<times> server_sys option \<times> os) option" where
  "server_main argv files calloc_ok e inps os =
     (if length argv < 3 then Some (Some 1, None, os)
      else let prt = strtol (argv ! 1) in
        if prt \<le> 0 \<or> prt > 65535 then Some (Some 1, None, os)
        else let s = \<lparr>ctx = server_init_context (of_int prt), env = e\<rparr> in
          case (case files (argv ! 2) of None \<Rightarrow> None | Some bytes \<Rightarrow> server_load_map calloc_ok bytes (ctx s)) of
            None \<Rightarrow> Some (Some 1, Some (upd_ctx (upd_state gs_free) s), os)
          | Some c \<Rightarrow> server_serve (of_int prt) (upd_ctx (\<lambda>_. c) s) inps os)"

text \<open>The loaded context of a command line that is in order.\<close>

definition prepared :: "u8 list list \<Rightarrow> (u8 list \<Rightarrow> u8 list option) \<Rightarrow> bool \<Rightarrow> server_ctx_t option" where
  "prepared argv files calloc_ok =
     (if 3 \<le> length argv \<and> valid_port (strtol (argv ! 1))
      then Option.bind (files (argv ! 2)) (\<lambda>bytes. server_load_map calloc_ok bytes (server_init_context (of_int (strtol (argv ! 1)))))
      else None)"

text \<open>A command line that is not in order ends the program before any socket is asked for.\<close>

lemma server_not_prepared:
  assumes "prepared argv files ok = None"
  shows "\<exists>s. server_main argv files ok e inps os = Some (Some 1, s, os)"
  using assms
  by (auto simp: server_main_def prepared_def valid_port_def Let_def not_less not_le split: option.splits if_splits)

lemma server_prepared:
  assumes "prepared argv files ok = Some c"
  shows "server_main argv files ok e inps os = server_serve (of_int (strtol (argv ! 1))) \<lparr>ctx = c, env = e\<rparr> inps os"
    "server_start \<lparr>ctx = c\<lparr>listen_fd := fd\<rparr>, env = e\<rparr>"
proof -
  obtain bytes where load: "3 \<le> length argv" "valid_port (strtol (argv ! 1))" "files (argv ! 2) = Some bytes"
    "server_load_map ok bytes (server_init_context (of_int (strtol (argv ! 1)))) = Some c"
    using assms by (auto simp: prepared_def bind_eq_Some_conv split: if_splits)
  then show "server_main argv files ok e inps os = server_serve (of_int (strtol (argv ! 1))) \<lparr>ctx = c, env = e\<rparr> inps os"
    by (simp add: server_main_def valid_port_def Let_def upd_ctx_def)
  show "server_start \<lparr>ctx = c\<lparr>listen_fd := fd\<rparr>, env = e\<rparr>"
    using load(4) unfolding server_start_def by fastforce
qed

text \<open>
  A program that gets as far as the socket: without a listener it exits with 1; with one it runs the loop
  from a start of the server, and its exit closes the listener again.
\<close>

lemma create_listener_answers:
  "create_listener prt s = Some (fd, s') \<Longrightarrow> length (os_answers s) \<le> length (os_answers s') + 5 \<and>
     (0 \<le> fd \<longrightarrow> length (os_answers s) = length (os_answers s') + 4)"
  by (auto simp: create_listener_def checked_def sys_Some split: bind_splits if_splits)

abbreviation (input) freed :: "server_sys \<Rightarrow> server_sys" where
  "freed \<equiv> upd_ctx (upd_state gs_free)"

lemma server_serve_exact:
  assumes "5 \<le> length (os_answers os)"
    and inv: "\<And>fd. server_inv (c\<lparr>listen_fd := fd\<rparr>)" and sane: "\<And>fd. sane_run inps \<lparr>ctx = c\<lparr>listen_fd := fd\<rparr>, env = e\<rparr>"
  shows "\<exists>r t os' fd os1. server_serve prt \<lparr>ctx = c, env = e\<rparr> inps os = Some (r, Some t, os') \<and>
    create_listener prt os = Some (fd, os1) \<and>
    (if fd < 0 then r = Some 1 \<and> os_open os' = os_open os
     else \<exists>q u. server_run_loop inps \<lparr>ctx = c\<lparr>listen_fd := fd\<rparr>, env = e\<rparr> = Some (q, u) \<and> server_inv (ctx u) \<and>
       r = map_option (\<lambda>q. if q \<noteq> 0 then 1 else 0) q \<and> t = (if q = None then u else freed u) \<and>
       os_open os' = (if q = None then fd # os_open os else os_open os))"
proof -
  obtain fd os1 where l: "create_listener prt os = Some (fd, os1)" using listener_total assms(1) by blast
  then have open1: "os_open os1 = (if fd < 0 then os_open os else fd # os_open os)"
    using listener_exact by (simp add: holds_only_def)
  show ?thesis
  proof (cases "fd < 0")
    case True
    then show ?thesis using l open1 by (simp add: server_serve_def)
  next
    case False
    let ?s = "\<lparr>ctx = c\<lparr>listen_fd := fd\<rparr>, env = e\<rparr>"
    obtain q u where run: "server_run_loop inps ?s = Some (q, u)" "server_inv (ctx u)"
      using run_loop_total [of ?s inps] inv sane by auto
    have "os_answers os1 \<noteq> []" using create_listener_answers [OF l] False assms(1) by auto
    then obtain z os2 where close: "sys (Sys_Close fd) os1 = Some (z, os2)" using sys_total by blast
    then have "os_open os2 = os_open os" using open1 False by (auto simp: sys_Some opened_def)
    then show ?thesis
      using l False run close open1 by (cases q) (simp_all add: server_serve_def upd_ctx_def)
  qed
qed

section \<open>The client\<close>

text \<open>
  \<open>answers\<close> is what \<open>pthread_sigmask\<close>, \<open>fcntl\<close> and \<open>pthread_create\<close> answer, \<open>resolve\<close> what \<open>getaddrinfo\<close> finds for
  a host and the text of a port.  The part of \<open>main\<close> between the connection and its end is \<open>drawn_main\<close>.
\<close>

definition signals_off :: sig_setup where
  "signals_off = \<lparr>ss_blocked = {}, ss_flags = None, ss_thread = False\<rparr>"

definition client_program ::
  "u8 list list \<Rightarrow> int \<times> u32 \<times> int \<Rightarrow> (u8 list \<Rightarrow> u8 list \<Rightarrow> u8 list list option) \<Rightarrow> bool \<Rightarrow> bool \<Rightarrow> frame_input \<Rightarrow>
     client_args \<Rightarrow> frame_input list \<Rightarrow> inbox \<Rightarrow> os \<Rightarrow> (int option \<times> client_screen option \<times> os) outcome" where
  "client_program argv answers resolve ok1 ok2 first a inps inb os =
     (if length argv < 4 then Done (Some 1, None, os)
      else case answers of (mask_rc, flags, create_rc) \<Rightarrow>
        if fst (init_signals mask_rc flags create_rc signals_off) \<noteq> 0 then Done (Some 1, None, os)
        else let prt = strtol (argv ! 2) in
          if prt \<le> 0 \<or> prt > 65535 then Done (Some 1, None, os)
          else case connect_to_server (resolve (argv ! 1) (decimal (unat (of_int prt :: u16)))) os of
            None \<Rightarrow> Blocked
          | Some (fd, os) \<Rightarrow>
              and_then (drawn_main ok1 ok2 first (a\<lparr>ca_port := prt, ca_name := argv ! 3, ca_fd := fd\<rparr>) inps inb) (\<lambda>(r, d).
                if r = None \<or> fd < 0 then Done (r, Some d, os)
                else case sys (Sys_Close fd) os of
                  None \<Rightarrow> Blocked
                | Some (_, os) \<Rightarrow> Done (r, Some d, os)))"

text \<open>How far a command line leads: to the descriptor of the connection.\<close>

definition client_connection :: "u8 list list \<Rightarrow> int \<times> u32 \<times> int \<Rightarrow> (u8 list \<Rightarrow> u8 list \<Rightarrow> u8 list list option) \<Rightarrow> os \<Rightarrow> (int \<times> os) option" where
  "client_connection argv answers resolve os =
     (if 4 \<le> length argv \<and> fst answers = 0 \<and> snd (snd answers) = 0 \<and> valid_port (strtol (argv ! 2))
      then connect_to_server (resolve (argv ! 1) (decimal (nat (strtol (argv ! 2))))) os else None)"

lemma port_word: "valid_port p \<Longrightarrow> unat (of_int p :: u16) = nat p"
  by (simp add: valid_port_def unat_eq_nat_uint word_uint_eq_iff uint_word_of_int take_bit_int_eq_self)

lemma drawn_main_fails:
  assumes "ca_fd a < 0 \<or> ca_hello_rc a \<noteq> 0" "valid_port (ca_port a)"
  shows "\<exists>d. drawn_main ok1 ok2 first a inps inb = Done (Some 1, d)"
  using assms by (auto simp: drawn_main_def valid_port_def Let_def send_hello_eq split: prod.split)

lemma connect_holds: "connect_to_server addresses s = Some (fd, s') \<Longrightarrow> holds_only fd s s'"
  using connect_loop_holds [of _ "-1"] by (auto simp: connect_to_server_def holds_only_def split: option.splits)

lemma client_connected:
  assumes "client_connection argv answers resolve os = Some (fd, os1)"
  shows "client_program argv answers resolve ok1 ok2 first a inps inb os =
    and_then (drawn_main ok1 ok2 first (a\<lparr>ca_port := strtol (argv ! 2), ca_name := argv ! 3, ca_fd := fd\<rparr>) inps inb) (\<lambda>(r, d).
      if r = None \<or> fd < 0 then Done (r, Some d, os1)
      else case sys (Sys_Close fd) os1 of None \<Rightarrow> Blocked | Some (_, os) \<Rightarrow> Done (r, Some d, os))"
    "valid_port (strtol (argv ! 2))" "holds_only fd os os1"
proof -
  obtain m f c where answers: "answers = (m, f, c)" by (cases answers)
  have c: "4 \<le> length argv" "m = 0" "c = 0" "valid_port (strtol (argv ! 2))"
    "connect_to_server (resolve (argv ! 1) (decimal (nat (strtol (argv ! 2))))) os = Some (fd, os1)"
    using assms by (auto simp: client_connection_def answers split: if_splits)
  then show "client_program argv answers resolve ok1 ok2 first a inps inb os =
    and_then (drawn_main ok1 ok2 first (a\<lparr>ca_port := strtol (argv ! 2), ca_name := argv ! 3, ca_fd := fd\<rparr>) inps inb) (\<lambda>(r, d).
      if r = None \<or> fd < 0 then Done (r, Some d, os1)
      else case sys (Sys_Close fd) os1 of None \<Rightarrow> Blocked | Some (_, os) \<Rightarrow> Done (r, Some d, os))"
    using c(4) by (simp add: client_program_def answers init_signals_done(1) port_word Let_def) (simp add: valid_port_def)
  show "valid_port (strtol (argv ! 2))" "holds_only fd os os1" by (rule c(4), rule connect_holds [OF c(5)])
qed

text \<open>A client that is connected and has sent HELLO draws its first frame, which is undefined; every other exit closes the connection.\<close>

lemma client_undefined:
  assumes "client_connection argv answers resolve os = Some (fd, os1)" "0 \<le> fd" "ca_hello_rc a = 0"
  shows "client_program argv answers resolve ok1 ok2 first a inps inb os = Undefined"
  using client_connected [OF assms(1)] assms(2,3) first_frame [of "a\<lparr>ca_port := _, ca_name := _, ca_fd := _\<rparr>"]
  by (simp add: valid_port_def)

lemma client_exits:
  assumes "client_program argv answers resolve ok1 ok2 first a inps inb os = Done (r, d, os')"
  shows "r = Some 1 \<and> os_open os' = os_open os"
proof (cases "client_connection argv answers resolve os")
  case None
  then show ?thesis
    using assms by (auto simp: client_program_def client_connection_def init_signals_done(1) port_word valid_port_def Let_def split: if_splits prod.splits option.splits)
next
  case (Some v)
  then obtain fd os1 where v: "client_connection argv answers resolve os = Some (fd, os1)" by (cases v) simp
  note run = client_connected [OF v]
  have "fd < 0 \<or> ca_hello_rc a \<noteq> 0" using client_undefined [OF v] assms by (metis not_less outcome.distinct(3))
  then obtain d1 where "drawn_main ok1 ok2 first (a\<lparr>ca_port := strtol (argv ! 2), ca_name := argv ! 3, ca_fd := fd\<rparr>) inps inb = Done (Some 1, d1)"
    using drawn_main_fails [of "a\<lparr>ca_port := strtol (argv ! 2), ca_name := argv ! 3, ca_fd := fd\<rparr>" ok1 ok2 first inps inb] run(2) by auto
  then show ?thesis
    using assms run(1,3) by (auto simp: holds_only_def sys_Some opened_def split: if_splits option.splits)
qed

end
