(* ===== verification/Spec2Isabelle.thy ===== *)
theory Spec2Isabelle
  imports Screen_Samples Programs
begin

text \<open>
  A verification of the multiplayer Bomberman of this repository: the server, the client and the
  library they share.

  \<^bold>\<open>The program.\<close>  One server holds a game (\<open>server_ctx_t\<close>): the map, eight players, sixty-four bombs, the
  explosions that are shown, and eight client slots.  Its loop (\<open>src/server/server.c\<close>) waits with
  \<open>select\<close>, accepts a connection, reads one message from every client that has sent something, hands it
  to \<open>server_handle_client_message\<close> (\<open>client_handler.c\<close>), and then runs one tick (\<open>game_loop.c\<close>), in
  which bombs explode (\<open>bomb_logic.c\<close>).  Handlers and ticks answer by messages to one or all clients.
  A message is a header of three bytes and a payload (\<open>src/common/src/serialization.c\<close>) whose length
  follows from its type and its first bytes (\<open>socket_io.c\<close>).  A client (\<open>src/client/client.c\<close>) keeps a
  copy of the game that it builds from what the server sends (\<open>client_comms.c\<close>), turns keys into
  requests (\<open>input_handler.c\<close>), and draws its copy (\<open>ui.c\<close>).

  \<^bold>\<open>Theories and sources.\<close>
  \<^item> \<open>Prelude\<close>: machine words, counted loops (\<open>for_range\<close>, \<open>for_opt\<close>), arrays, bounded C strings.
  \<^item> \<open>Config\<close> (\<open>config.h\<close>), \<open>Protocol\<close> (\<open>protocol.h\<close>, \<open>protocol.c\<close>), \<open>Game_State\<close> (\<open>game_state.c\<close>): data.
  \<^item> \<open>Byte_Buffer\<close>, \<open>Serialization\<close> (\<open>serialization.c\<close>): every encoder and decoder; \<open>Codec\<close>: the
    contract \<open>codec\<close> of such a pair, with the byte sequence of a message as its specification, and
    its interpretation for all seventeen messages.
  \<^item> \<open>Socket_IO\<close> (\<open>socket_io.c\<close>), \<open>Socket_Spec\<close>, \<open>Frames\<close>, \<open>Streams\<close>: sending and receiving against the
    answers of \<open>poll\<close>, \<open>recv\<close> and \<open>send\<close>; what comes out of a stream of framed messages.
  \<^item> \<open>Server_State\<close> (\<open>server.h\<close>, \<open>server.c\<close>), \<open>Server_Inv\<close>: the server's operations and the invariant
    \<open>server_inv\<close>.  \<open>Bomb_Logic\<close>, \<open>Game_Loop\<close> (the files of that name) with \<open>Blast\<close>, \<open>Explosion\<close> and
    \<open>Tick\<close>: what an explosion reaches, what a tick does, and that both end.  \<open>Client_Handler\<close>
    (\<open>client_handler.c\<close>) with \<open>Handler_Spec\<close>, \<open>Round_Spec\<close> and \<open>Handler_Wire\<close>: every branch of every
    handler, and what it puts on the wire.  \<open>Map_Loader\<close> (\<open>map_loader.c\<close>).  \<open>Server_Loop\<close>
    (\<open>server_run_loop\<close>): reachable systems and their invariant.
  \<^item> \<open>Client_State\<close> (\<open>client.h\<close>, \<open>qlogf\<close>), \<open>Client_Comms\<close> (\<open>client_comms.c\<close>), \<open>Input_Handler\<close>
    (\<open>input_handler.c\<close>), \<open>Client_Loop\<close> (\<open>client.c\<close>); \<open>Client_Spec\<close>, \<open>Client_Run\<close>, \<open>Client_Stream\<close>: the
    client's invariant \<open>client_ok\<close>, the messages it survives, the shape of what it sends.
  \<^item> \<open>Screen\<close> (\<open>ui.c\<close>), \<open>Screen_Spec\<close>, \<open>Render_Spec\<close>, \<open>Client_Screen\<close>: the screen buffer, when drawing is
    defined, what a frame shows, and the client's loop with its frames.
  \<^item> \<open>Descriptors\<close>: \<open>create_listener\<close> and \<open>connect_to_server\<close> as sequences of system calls.  \<open>Signals\<close>
    (\<open>sigthread.c\<close>, \<open>init_signals\<close>, the terminal modes): the signal thread and the main thread, interleaved.
  \<^item> \<open>Programs\<close>: both programs from their command lines, with \<open>strtol\<close>, the map file, the listener, the signal
    thread's setup and the connection composed as \<open>main\<close> composes them.
  \<^item> \<open>Board_Messages\<close>, \<open>Mirror\<close>, \<open>Mirror_Requests\<close>: server and client together; the relation \<open>mirrors\<close> says
    that a client's copy is the server's game, \<open>kept R R'\<close> that the packets of a step lead every client
    from \<open>R\<close> to \<open>R'\<close>, and the locale \<open>kept_events\<close> that whatever happens to the server returns, keeps
    its invariant and keeps a relation.  \<open>Fire\<close>, \<open>Follow\<close>, \<open>Follow_Tick\<close>: explosions and ticks, with the weaker
    relation \<open>follows\<close> that allows a bomb to be shown while its explosion runs.
  \<^item> \<open>Samples\<close>, \<open>Client_Samples\<close>, \<open>Screen_Samples\<close>: concrete systems on which the properties are applied.

  \<^bold>\<open>Conventions.\<close>  Integers are words of their C width where the width can matter (cell indices, radii,
  timers, counters, sizes); sizes inside a fixed buffer are natural numbers.  Arrays are lists of their
  fixed length; a pointer into an array is an index.  State is passed explicitly: \<open>server_sys\<close> and
  \<open>client_sys\<close> hold a context and its environment, which records what was sent and holds what
  \<open>rand\<close>, \<open>malloc\<close> and \<open>calloc\<close> will answer.  What the operating system decides is an input: the results of
  \<open>select\<close>, \<open>accept\<close>, \<open>poll\<close>, \<open>recv\<close>, \<open>send\<close>, \<open>read\<close>, \<open>ioctl\<close> and the clock, one record per iteration, so
  that a loop runs for as many iterations as there are inputs.

  \<^bold>\<open>What \<open>None\<close> means.\<close>  For an encoder, decoder or table operation it is the code's \<open>-1\<close>.  For the loops
  of the server (\<open>explode_dir\<close>, \<open>explode_all\<close>, partial functions) it is a loop that does not end; they are
  proved total on every reachable system.  For the sockets it is a call that blocks since no answer or
  byte is left, with totality for streams that deliver.  For the client and the screen it is undefined
  behaviour of C: a division by zero or an access outside an array.  There is no fuel anywhere.

  \<^bold>\<open>What the properties show.\<close>  C1 to C3: the server keeps its invariant and never hangs.  C4 to C8: the
  client's copy follows the server over the wire, through requests, explosions and ticks, and where
  it does not.  The next group states the game's rules exactly:
  explosions, moves, bombs, rounds, connections.  Then the client: safe messages, what it sends, keys
  and their throttle, the log.  Then the screen: on which terminals it can be drawn and what it shows.
  The last groups are the stream of bytes and the round trips of the wire format.

  \<^bold>\<open>Not modelled.\<close>  Output to \<open>stdout\<close> and \<open>stderr\<close> and the checks for \<open>NULL\<close> arguments have no
  counterpart.  \<open>fscanf\<close> is modelled for the two formats
  the map loader uses.  The signals that one iteration of the client's loop reads are an input of the
  loop; \<open>Signals\<close> shows which they can be.  Real time is absent: a tick is a step.  The test programs
  under \<open>src/tests\<close> are not modelled.
\<close>

section \<open>The server as a whole\<close>







text \<open>C3: one tick.  It always returns.  Outside a round only the explosion timers run.  In a round
  both timers run, then bombs that are due explode one after the other until none is due (chain
  reactions included), and then the round ends exactly when at most one player is alive and at
  least two are connected.\<close>

theorem tick_effect:
  assumes "server_inv (ctx s)"
  shows "\<exists>t c1. server_tick s = Some t \<and> server_inv (ctx t) \<and>
    (if gs_status (state (ctx s)) \<noteq> GAME_RUNNING then ctx t = timers_ticked (ctx s)
     else explosion_step\<^sup>*\<^sup>* (timers_ticked (ctx s)) c1 \<and> settled c1 \<and>
       ctx t = (if round_over c1 then upd_state (\<lambda>g. g\<lparr>gs_status := GAME_END\<rparr>) c1 else c1))"
  using server_tick_run [OF assms] by (auto split: if_splits)

lemma tick_effect_witness:
  "\<exists>t. server_tick (sample_sys sample_bombed) = Some t \<and> server_inv (ctx t) \<and>
    (\<exists>c1. explosion_step\<^sup>*\<^sup>* (timers_ticked sample_bombed) c1 \<and> settled c1)"
proof -
  have "server_inv (ctx (sample_sys sample_bombed))" by (simp add: sample_bombed_inv)
  from tick_effect [OF this] show ?thesis unfolding ctx_sample_sys sample_bombed_inv(2) by auto
qed

section \<open>Server and client together\<close>

text \<open>C4: the whole board.  When the server sends the map and the board to everybody, at the start of a round
  and after the return to the lobby, every message has the length its type announces, and every
  connected client that handles what is sent to it then holds the server's map, status and players,
  whatever it held before.  The fire it shows stays as it was: no message of the board puts it out.\<close>

theorem board_mirrored:
  assumes "server_inv (ctx s)" and "\<And>n. env_malloc (env s) n"
  shows "\<exists>new. env_sent (env (server_send_sync_to_all (send_map_to_all s))) = env_sent (env s) @ new \<and>
    (\<forall>q \<in> set new. sendable (message_of q)) \<and>
    (\<forall>j \<in> set (active_slots (ctx s)). \<forall>t. client_ok (cctx t) \<longrightarrow> cs_calloc t (cs_calloc_pos t) \<longrightarrow>
      (\<exists>t'. apply_messages (delivered (cl_fd (clients (ctx s) ! j)) new) t = Some t' \<and> mirrors (cctx t') (ctx s) \<and>
        cc_explosions (cctx t') = cc_explosions (cctx t)))"
  by (rule board_broadcast [OF assms])

lemma board_mirrored_witness:
  "\<exists>new. env_sent (env (server_send_sync_to_all (send_map_to_all (sample_sys sample_round)))) = new \<and>
    (\<exists>t'. apply_messages (delivered (cl_fd (clients sample_round ! 0)) new) sample_client = Some t' \<and> mirrors (cctx t') sample_round)"
proof -
  have "server_inv (ctx (sample_sys sample_round))" by (simp add: sample_round_inv)
  moreover have "env_malloc (env (sample_sys sample_round)) n" for n by (simp add: sample_sys_def sample_start_def)
  ultimately have b: "\<exists>new. env_sent (env (server_send_sync_to_all (send_map_to_all (sample_sys sample_round)))) =
      env_sent (env (sample_sys sample_round)) @ new \<and>
      (\<forall>j \<in> set (active_slots sample_round). \<forall>t. client_ok (cctx t) \<longrightarrow> cs_calloc t (cs_calloc_pos t) \<longrightarrow>
        (\<exists>t'. apply_messages (delivered (cl_fd (clients sample_round ! j)) new) t = Some t' \<and> mirrors (cctx t') sample_round))"
    using board_mirrored [of "sample_sys sample_round"] unfolding ctx_sample_sys by blast
  have "0 \<in> set (active_slots sample_round)" "env_sent (env (sample_sys sample_round)) = []"
    using sample_active_clients by (simp_all add: active_slots_def sample_sys_def sample_start_def)
  then show ?thesis using b sample_client_ok sample_client_fields(1) by auto
qed

text \<open>C5: a round over the wire.  Whatever moves, bombs, pings and synchronisation requests the connected
  clients send and in whatever order, accepted or refused, a client that mirrors the server before
  and reads the bytes the server then sends to it, in whatever pieces they arrive, mirrors the
  server afterwards.\<close>

theorem round_mirrored:
  fixes s :: server_sys and rs :: "(nat \<times> msg_header_t \<times> u8 list) list"
  defines "s' \<equiv> fold (\<lambda>(i, h, p) s. snd (server_handle_client_message i h p s)) rs s"
  assumes inv: "server_inv (ctx s)"
    and rs: "\<forall>(i, h, p) \<in> set rs. i < MAX_PLAYERS \<and> cl_active (clients (ctx s) ! i) \<and> round_request h p"
  shows "\<exists>new. env_sent (env s') = env_sent (env s) @ new \<and>
    (\<forall>j \<in> set (active_slots (ctx s)). \<forall>t inb r.
       let ms = delivered (cl_fd (clients (ctx s) ! j)) new in
       mirrors (cctx t) (ctx s) \<longrightarrow> in_stream inb = concat (map frame ms) @ r \<longrightarrow>
       steady (-1) (length (concat (map frame ms))) inb \<longrightarrow>
       (\<exists>t' inb'. repeat_op (length ms) handle_fd_server (t, inb) = Done (t', inb') \<and> in_stream inb' = r \<and>
          mirrors (cctx t') (ctx s')))"
proof -
  have "for_opt rs (\<lambda>(i, h, p) s. Some (snd (server_handle_client_message i h p s))) s = Some s'"
    unfolding s'_def for_opt_total_fold [symmetric] by (rule arg_cong [where f = "\<lambda>f. for_opt rs f s"]) (auto simp: fun_eq_iff)
  then have "kept mirrors mirrors s s'" using round.keeps_all [OF inv, of rs] rs by (auto split: prod.splits)
  then show ?thesis by (rule kept_over_wire)
qed

lemma round_mirrored_witness:
  "\<exists>n t inb t' inb'. mirrors (cctx t) sample_round \<and>
    repeat_op n handle_fd_server (t, inb) = Done (t', inb') \<and>
    mirrors (cctx t') (ctx (snd (server_handle_client_message 0
      \<lparr>h_msg_type = msg_code MSG_MOVE_ATTEMPT, h_sender_id = 1, h_target_id = 255\<rparr> [DIR_RIGHT] (sample_sys sample_round))))"
proof -
  let ?r = "(0, \<lparr>h_msg_type = msg_code MSG_MOVE_ATTEMPT, h_sender_id = 1, h_target_id = 255\<rparr>, [DIR_RIGHT])"
  obtain t :: client_sys where t: "mirrors (cctx t) sample_round" using sample_mirror by blast
  have zero: "0 \<in> set (active_slots (ctx (sample_sys sample_round)))"
    using sample_active_clients by (simp add: active_slots_def)
  have "server_inv (ctx (sample_sys sample_round))" by (simp add: sample_round_inv)
  moreover have "\<forall>(i, h, p) \<in> set [?r]. i < 8 \<and> cl_active (clients (ctx (sample_sys sample_round)) ! i) \<and> round_request h p"
    using sample_active_clients by (simp add: round_request_def)
  ultimately obtain new where new: "\<forall>j \<in> set (active_slots (ctx (sample_sys sample_round))). \<forall>t inb r.
       let ms = delivered (cl_fd (clients (ctx (sample_sys sample_round)) ! j)) new in
       mirrors (cctx t) (ctx (sample_sys sample_round)) \<longrightarrow> in_stream inb = concat (map frame ms) @ r \<longrightarrow>
       steady (-1) (length (concat (map frame ms))) inb \<longrightarrow>
       (\<exists>t' inb'. repeat_op (length ms) handle_fd_server (t, inb) = Done (t', inb') \<and> in_stream inb' = r \<and>
          mirrors (cctx t') (ctx (fold (\<lambda>(i, h, p) s. snd (server_handle_client_message i h p s)) [?r] (sample_sys sample_round))))"
    using round_mirrored [of "sample_sys sample_round" "[?r]"] by blast
  let ?ms = "delivered (cl_fd (clients sample_round ! 0)) new"
  have "\<exists>t' inb'. repeat_op (length ?ms) handle_fd_server (t, drip (concat (map frame ?ms))) = Done (t', inb') \<and>
      mirrors (cctx t') (ctx (snd (server_handle_client_message 0 (fst (snd ?r)) [DIR_RIGHT] (sample_sys sample_round))))"
    using bspec [OF new zero, THEN spec, THEN spec, THEN spec, of t "drip (concat (map frame ?ms))" "[]"] t
    by (simp add: drip_steady Let_def del: msg_code.simps) blast
  then show ?thesis using t by (simp del: msg_code.simps) blast
qed



text \<open>C7: the end of an explosion can wipe a bomb off the clients' boards.  When an explosion runs out on a cell on
  which a new bomb lies, the server keeps the bomb, but every client that followed it shows the cell
  as empty afterwards.\<close>

theorem expiry_wipes_bomb:
  fixes s :: server_sys
  assumes inv: "server_inv (ctx s)" and cell: "in_map (ctx s) r k" "gs_cell_get (state (ctx s)) r k = CELL_BOMB"
    and i: "i < MAX_BOMBS" "ex_active (explosions (ctx s) ! i)" "ex_remaining_ticks (explosions (ctx s) ! i) \<le> 1"
      "ex_cell_index (explosions (ctx s) ! i) = make_cell_index r k (map_cols (game_map (ctx s)))"
  shows "gs_cell_get (state (ctx (process_explosion_timers s))) r k = CELL_BOMB \<and>
    (\<exists>new. env_sent (env (process_explosion_timers s)) = env_sent (env s) @ new \<and>
      (\<forall>j \<in> set (active_slots (ctx s)). \<forall>t. follows (cctx t) (ctx s) \<longrightarrow>
        (\<exists>t'. apply_messages (delivered (cl_fd (clients (ctx s) ! j)) new) t = Some t' \<and>
           gs_cell_get (cc_state (cctx t')) r k = CELL_EMPTY)))"
proof -
  note I = server_invD [OF inv]
  have "timing s" using I(1,2,9,11) by (simp add: timing_def arrays_ok_def)
  moreover have "(r, k) \<in> (\<Union>i < MAX_BOMBS. expiring (ctx s) i)" using cell(1) i by (auto simp: expiring_def)
  ultimately have "kept follows (\<lambda>t c. gs_cell_get (cc_state t) r k = CELL_EMPTY) s (process_explosion_timers s)"
    by (intro kept_weaken [OF explosion_timers_kept]) (auto simp: follows_empty_def)
  moreover have "gs_cell_get (state (ctx (process_explosion_timers s))) r k = CELL_BOMB"
    using cell(2) I(1) by (simp add: process_explosion_timers_ctx arrays_ok_def)
  ultimately show ?thesis unfolding kept_def by blast
qed

lemma expiry_wipes_bomb_witness:
  "\<exists>(t :: client_sys) t' ms. follows (cctx t) sample_burning \<and> apply_messages ms t = Some t' \<and>
    gs_cell_get (state (ctx (process_explosion_timers (sample_sys sample_burning)))) 0 0 = CELL_BOMB \<and>
    gs_cell_get (cc_state (cctx t')) 0 0 = CELL_EMPTY"
proof -
  note B = sample_bombed_cell
  have cls: "clients sample_burning = clients sample_round" by (simp add: sample_burning_def B)
  have slot: "0 \<in> set (active_slots sample_burning)" using sample_slot by (simp add: active_slots_def cls)
  obtain t :: client_sys where t: "follows (cctx t) sample_burning" using sample_follower [OF sample_burning_inv slot] by blast
  have "server_inv (ctx (sample_sys sample_burning))" "in_map (ctx (sample_sys sample_burning)) 0 0"
    "gs_cell_get (state (ctx (sample_sys sample_burning))) 0 0 = CELL_BOMB" "(0 :: nat) < 64"
    "ex_active (explosions (ctx (sample_sys sample_burning)) ! 0)" "ex_remaining_ticks (explosions (ctx (sample_sys sample_burning)) ! 0) \<le> 1"
    "ex_cell_index (explosions (ctx (sample_sys sample_burning)) ! 0) =
      make_cell_index 0 0 (map_cols (game_map (ctx (sample_sys sample_burning))))"
    using sample_burning_inv B(1,2) by (simp_all add: sample_burning_def in_map_def B make_cell_index_def)
  from expiry_wipes_bomb [OF this] show ?thesis unfolding ctx_sample_sys using t slot by blast
qed

text \<open>C8: a bomb from the keyboard.  A client that mirrors a running round and presses the bomb key asks for a
  bomb on exactly the cell on which the server has its player: the server never refuses it for naming
  another cell, only because the player is dead, has no bomb in hand or stands on one.\<close>

theorem bomb_key_accepted:
  assumes "server_inv (ctx s)" and "mirrors c (ctx s)" and "gs_status (state (ctx s)) = GAME_RUNNING"
    and "i < MAX_PLAYERS" and "cl_active (clients (ctx s) ! i)" and "cc_player_id c = of_nat (Suc i)" and "cc_has_welcome c"
    and "2 \<le> length (co_payload out)"
  shows "\<exists>out' idx. client_build_command (key CHR ''b'') now out c = Some (CLIENT_BUILD_COMMAND_ERR_OK, out', c) \<and>
    command_message out' = (\<lparr>h_msg_type = msg_code MSG_BOMB_ATTEMPT, h_sender_id = of_nat (Suc i), h_target_id = SERVER_ENDPOINT_ID\<rparr>,
      u16_bytes idx) \<and>
    (may_place (ctx s) i idx \<longleftrightarrow> (let p = players (ctx s) ! i in pl_alive p \<and> pl_bomb_count p \<noteq> 0 \<and>
      (\<forall>j < MAX_BOMBS. bm_owner_id (bombs (ctx s) ! j) \<noteq> 0 \<longrightarrow>
         \<not> (bm_row (bombs (ctx s) ! j) = pl_row p \<and> bm_col (bombs (ctx s) ! j) = pl_col p))))"
proof -
  have take_two: "take 2 (u16_bytes v @ r) = u16_bytes v" for v r by (simp add: u16_bytes_def)
  have id: "unat (cc_player_id c) = Suc i" unfolding assms(6) using assms(4) by (intro unat_of_nat_u8) simp
  then have pid: "is_player_id (cc_player_id c)" using assms(4) by (auto simp: player_id_range)
  have "player_view (own_player c) = player_view (players (ctx s) ! i)" "gs_map (cc_state c) = game_map (ctx s)"
    "gs_status (cc_state c) = GAME_RUNNING"
    using assms(2-5) id by (auto simp: mirrors_def same_players_def own_player_def)
  then show ?thesis
    using bomb_command [OF mirrorsD(1) [OF assms(2)] pid assms(8), of now] assms(3,6,7)
    by (simp add: command_message_def command_start_def may_place_def Let_def player_view_eq take_two del: msg_code.simps of_nat_Suc)
      (rule exI [of _ "make_cell_index (pl_row (players (ctx s) ! i)) (pl_col (players (ctx s) ! i)) (map_cols (game_map (ctx s)))"], simp)
qed

lemma bomb_key_accepted_witness:
  "\<exists>(t :: client_sys) out'. client_build_command (key CHR ''b'') \<lparr>tv_sec = 9, tv_nsec = 0\<rparr>
     \<lparr>co_msg_type = 0, co_sender_id = 0, co_target_id = 0, co_payload = [0, 0], co_payload_len = 0, co_should_quit = False\<rparr> (cctx t) =
   Some (CLIENT_BUILD_COMMAND_ERR_OK, out', cctx t)"
proof -
  obtain t :: client_sys where t: "mirrors (cctx t) sample_round" "cc_player_id (cctx t) = 1" "cc_has_welcome (cctx t)"
    using sample_mirror_player by blast
  let ?s = "sample_sys sample_round"
  have "server_inv (ctx ?s)" "mirrors (cctx t) (ctx ?s)" "gs_status (state (ctx ?s)) = GAME_RUNNING" "(0 :: nat) < 8"
    "cl_active (clients (ctx ?s) ! 0)" "cc_player_id (cctx t) = of_nat (Suc 0)" "cc_has_welcome (cctx t)"
    using t sample_round_inv sample_active_clients by simp_all
  note bomb_key_accepted [OF this, of "\<lparr>co_msg_type = 0, co_sender_id = 0, co_target_id = 0, co_payload = [0, 0],
    co_payload_len = 0, co_should_quit = False\<rparr>" "\<lparr>tv_sec = 9, tv_nsec = 0\<rparr>"]
  then show ?thesis by auto
qed

section \<open>Explosions\<close>

text \<open>C9: the explosion of a bomb returns and reaches exactly the blast area: the bomb's cell and, in
  each of the four directions, the cells within the radius up to the first hard block (which stays)
  or soft block (which is hit).  The living players in the area die and no others; the other bombs
  in the area become due and all others keep their timers; a soft block in the area gives way to an
  empty cell or a bonus, the bomb's own cell becomes empty, every other cell stays; the bomb is
  gone.\<close>

theorem explosion_exact:
  fixes s :: server_sys and x :: nat
  defines "c \<equiv> ctx s"
  defines "b \<equiv> bombs c ! x"
  defines "B \<equiv> blast_area c b"
  assumes inv: "server_inv c" and x: "x < MAX_BOMBS" "bm_owner_id b \<noteq> 0"
  shows "\<exists>t. server_process_bomb_explosion x s = Some t \<and>
    (\<forall>i < MAX_PLAYERS. pl_alive (players (ctx t) ! i) \<longleftrightarrow>
       pl_alive (players c ! i) \<and> pos_of (pl_row (players c ! i)) (pl_col (players c ! i)) \<notin> B) \<and>
    (\<forall>j < MAX_BOMBS. bombs (ctx t) ! j =
       (if j = x then zero_bomb
        else if bm_owner_id (bombs c ! j) \<noteq> 0 \<and> pos_of (bm_row (bombs c ! j)) (bm_col (bombs c ! j)) \<in> B
        then (bombs c ! j)\<lparr>bm_timer_ticks := 0\<rparr> else bombs c ! j)) \<and>
    (\<forall>r k. let old = gs_cell_get (state c) r k; new = gs_cell_get (state (ctx t)) r k in
       if r = bm_row b \<and> k = bm_col b then new = CELL_EMPTY
       else if pos_of r k \<in> B \<and> old = CELL_SOFT then new = CELL_EMPTY \<or> is_bonus_cell new
       else new = old)"
proof -
  note I = server_invD [OF inv]
  have len: "length (players c) = 8" "length (bombs c) = 64" using I(1) by (simp_all add: arrays_ok_def)
  have "unat (bm_owner_id b) \<le> 8" "in_map c (bm_row b) (bm_col b)"
    using I(6) x by (simp_all add: bombs_ok_def b_def)
  then obtain t where t: "server_process_bomb_explosion x s = Some t" and e: "exploded c x (ctx t)"
    using process_explosion [of s x] I(1-3) x unfolding c_def b_def by blast
  have "pl_alive (players (ctx t) ! i) \<longleftrightarrow>
      pl_alive (players c ! i) \<and> pos_of (pl_row (players c ! i)) (pl_col (players c ! i)) \<notin> B" if "i < 8" for i
    using that len I(5) by (auto simp: explodedD(1) [OF e] killed_in_alive life_ok_def B_def b_def)
  moreover have "bombs (ctx t) ! j = (if j = x then zero_bomb
      else if bm_owner_id (bombs c ! j) \<noteq> 0 \<and> pos_of (bm_row (bombs c ! j)) (bm_col (bombs c ! j)) \<in> B
      then (bombs c ! j)\<lparr>bm_timer_ticks := 0\<rparr> else bombs c ! j)" if "j < 64" for j
    using that len by (simp add: explodedD(2) [OF e] chained_in_def B_def b_def)
  ultimately show ?thesis
    using t explodedD(6,7) [OF e] unfolding B_def b_def Let_def cell_blast_def
    by (intro exI [of _ t]) auto
qed

lemma explosion_exact_witness:
  "\<exists>x < 64. \<exists>t. server_process_bomb_explosion x (sample_sys sample_bombed) = Some t \<and>
     bombs (ctx t) ! x = zero_bomb"
proof -
  obtain k where k: "k < 64" "bm_owner_id (bombs sample_bombed ! k) = 1" using sample_bomb by blast
  have "server_inv (ctx (sample_sys sample_bombed))" by (simp add: sample_bombed_inv)
  from explosion_exact [OF this, of k] k show ?thesis by (intro exI [of _ k]) auto
qed

text \<open>C10: the loop along one direction returns, whatever the radius (its byte counter does not wrap
  before the border stops it), and its effect is that of the fire on the cells at distance
  \<open>1, \<dots>, n\<close>, none of them a hard block and only the last possibly a soft one.  It does not stop
  early: \<open>n\<close> is the radius, or the last cell is a soft block, or the next cell is a hard block or
  outside the map.\<close>

theorem fire_in_direction:
  fixes s :: server_sys and b :: bomb_t and d :: nat
  defines "c \<equiv> ctx s"
  assumes inv: "server_inv c" and b: "in_map c (bm_row b) (bm_col b)" and d: "d < 4"
  shows "\<exists>t n. explode_dir (explosion_dr ! d) (explosion_dc ! d) b x 1 s = Some t \<and>
    blasted (step_pos b d ` {1..n}) x c (ctx t) \<and> n \<le> unat (bm_radius b) \<and>
    (\<forall>j \<in> {1..n}. on_board c (step_pos b d j) \<and> cell_at c (step_pos b d j) \<noteq> CELL_HARD \<and>
       (j < n \<longrightarrow> cell_at c (step_pos b d j) \<noteq> CELL_SOFT)) \<and>
    (n = unat (bm_radius b) \<or> 0 < n \<and> cell_at c (step_pos b d n) = CELL_SOFT \<or>
       \<not> on_board c (step_pos b d (Suc n)) \<or> cell_at c (step_pos b d (Suc n)) = CELL_HARD)"
proof -
  obtain t where t: "explode_dir (explosion_dr ! d) (explosion_dc ! d) b x 1 s = Some t" "blasted (ray c b d) x c (ctx t)"
    using explode_dir_segment [of s b d x] server_invD(1,2) [OF inv] b d unfolding c_def by blast
  obtain n where n: "n \<le> unat (bm_radius b)" "ray c b d = step_pos b d ` {1..n}"
    "\<forall>j \<in> {1..n}. on_board c (step_pos b d j) \<and> cell_at c (step_pos b d j) \<noteq> CELL_HARD \<and>
       (j < n \<longrightarrow> cell_at c (step_pos b d j) \<noteq> CELL_SOFT)"
    "n = unat (bm_radius b) \<or> 0 < n \<and> cell_at c (step_pos b d n) = CELL_SOFT \<or>
       \<not> on_board c (step_pos b d (Suc n)) \<or> cell_at c (step_pos b d (Suc n)) = CELL_HARD"
    using ray_segment [of b c d] by blast
  have "blasted (step_pos b d ` {1..n}) x c (ctx t)" using t(2) by (simp only: n(2))
  then show ?thesis using t(1) n(1,3,4) by blast
qed

lemma fire_in_direction_witness:
  "\<exists>t n. explode_dir (explosion_dr ! 3) (explosion_dc ! 3) (bomb_of (players sample_round ! 0)) 0 1
     (sample_sys sample_round) = Some t \<and>
   blasted (step_pos (bomb_of (players sample_round ! 0)) 3 ` {1..n}) 0 sample_round (ctx t) \<and> n \<le> 1"
proof -
  let ?b = "bomb_of (players sample_round ! 0)"
  have b: "in_map (ctx (sample_sys sample_round)) (bm_row ?b) (bm_col ?b)" "bm_radius ?b = 1"
    by (simp_all add: bomb_of_def sample_round_players in_map_def sample_round_fields sample_loaded_fields)
  have "server_inv (ctx (sample_sys sample_round))" by (simp add: sample_round_inv)
  from fire_in_direction [OF this b(1), of 3 0] b(2) show ?thesis by auto
qed

text \<open>C11: the bookkeeping of an explosion: the owner, and nobody else, has one bomb more in hand; nothing
  else of any player changes except who dies; one bomb fewer is on the board; the end of the
  explosion is scheduled; the connections, the status, the clock and the settings stay; and the
  invariant is kept.\<close>

theorem explosion_bookkeeping:
  fixes s :: server_sys and x :: nat
  defines "c \<equiv> ctx s"
  defines "b \<equiv> bombs c ! x"
  assumes inv: "server_inv c" and run: "gs_status (state c) = GAME_RUNNING"
    and x: "x < MAX_BOMBS" "bm_owner_id b \<noteq> 0"
  shows "\<exists>t. server_process_bomb_explosion x s = Some t \<and>
    (\<forall>i < MAX_PLAYERS. let p = players c ! i; p' = players (ctx t) ! i in
       unat (pl_bomb_count p') = unat (pl_bomb_count p) +
         (if of_nat (Suc i) = bm_owner_id b \<and> unat (pl_bomb_count p) < 200 then 1 else 0) \<and>
       p' = p\<lparr>pl_alive := pl_alive p', pl_lives := if pl_alive p' then 1 else 0, pl_bomb_count := pl_bomb_count p'\<rparr>) \<and>
    Suc (bombs_left (ctx t)) = bombs_left c \<and>
    explosions (ctx t) = scheduled c (make_cell_index (bm_row b) (bm_col b) (map_cols (game_map c))) \<and>
    clients (ctx t) = clients c \<and> gs_status (state (ctx t)) = GAME_RUNNING \<and>
    gs_tick (state (ctx t)) = gs_tick (state c) \<and> server_inv (ctx t)"
proof -
  note I = server_invD [OF inv]
  have len: "length (players c) = 8" "x < length (bombs c)" using I(1) x by (simp_all add: arrays_ok_def)
  have "unat (bm_owner_id b) \<le> 8" "in_map c (bm_row b) (bm_col b)"
    using I(6) x by (simp_all add: bombs_ok_def b_def)
  then obtain t where t: "server_process_bomb_explosion x s = Some t" and e: "exploded c x (ctx t)"
    using process_explosion [of s x] I(1-3) x unfolding c_def b_def by blast
  note inv' = exploded_inv [OF e inv run x [unfolded b_def]]
  have "let p = players c ! i; p' = players (ctx t) ! i in
       unat (pl_bomb_count p') = unat (pl_bomb_count p) +
         (if of_nat (Suc i) = bm_owner_id b \<and> unat (pl_bomb_count p) < 200 then 1 else 0) \<and>
       p' = p\<lparr>pl_alive := pl_alive p', pl_lives := if pl_alive p' then 1 else 0, pl_bomb_count := pl_bomb_count p'\<rparr>"
    if i: "i < 8" for i
    using i len server_invD(5) [OF inv'(1)] I(5) unat_Suc_u8 [of "pl_bomb_count (players c ! i)"]
    by (auto simp: explodedD(1) [OF e] life_ok_def refunded_def killed_in_def b_def Let_def simp del: of_nat_Suc)
  then show ?thesis
    using t inv' exploded_bombs_left [OF e len(2)] x explodedD(8) [OF e] exploded_rest(1,3) [OF e]
    unfolding b_def by blast
qed

lemma explosion_bookkeeping_witness:
  "\<exists>x < 64. \<exists>t. server_process_bomb_explosion x (sample_sys sample_bombed) = Some t \<and>
     Suc (bombs_left (ctx t)) = bombs_left sample_bombed"
proof -
  obtain k where k: "k < 64" "bm_owner_id (bombs sample_bombed ! k) = 1" using sample_bomb by blast
  have "server_inv (ctx (sample_sys sample_bombed))" "gs_status (state (ctx (sample_sys sample_bombed))) = GAME_RUNNING"
    by (simp_all add: sample_bombed_inv)
  from explosion_bookkeeping [OF this, of k] k show ?thesis by (intro exI [of _ k]) auto
qed

section \<open>What the clients can do\<close>

text \<open>C12: a move.  The server moves the player exactly when the direction is valid, a round is
  running, the player is alive and the next cell is inside the map, empty or a bonus, and without a
  bomb and without another living player.  Then the player stands on the next cell, a bonus there is
  applied and gone, and nothing else changes.  Otherwise the client gets one error message and
  nothing changes at all.\<close>

theorem move_exact:
  fixes s :: server_sys and i :: nat and d :: u8
  defines "c \<equiv> ctx s"
  defines "q \<equiv> move_target d (players c ! i)"
  defines "r \<equiv> handle_move_attempt i [d] s"
  assumes inv: "server_inv c" and i: "i < MAX_PLAYERS" "cl_active (clients c ! i)"
  shows "fst r = 0 \<and>
    (if may_move c i d then
       players (ctx (snd r)) = (players c)[i := bonus_applied (cell_at c q)
         ((players c ! i)\<lparr>pl_row := of_int (fst q), pl_col := of_int (snd q)\<rparr>)] \<and>
       (\<forall>y x. gs_cell_get (state (ctx (snd r))) y x =
          (if is_bonus_cell (cell_at c q) \<and> pos_of y x = q then CELL_EMPTY else gs_cell_get (state c) y x)) \<and>
       bombs (ctx (snd r)) = bombs c \<and> rest (ctx (snd r)) = rest c
     else refused i s (snd r))"
proof (cases "may_move c i d")
  case True
  note M = move_effect [OF inv [unfolded c_def] i(1) True [unfolded c_def]]
  have "fst r = 0 \<and> ctx (snd r) = ctx (take_bonus i i (upd_ctx (stepped i d) s))"
    using handle_move_cases(1) [of s i d] inv i True unfolding c_def r_def by blast
  then show ?thesis using True M(1-4) unfolding c_def q_def by simp
next
  case False
  then show ?thesis using handle_move_cases(2) [of s i d] inv i unfolding c_def r_def by simp
qed

lemma move_exact_witness:
  "may_move sample_round 0 DIR_RIGHT \<and>
   pl_col (players (ctx (snd (handle_move_attempt 0 [DIR_RIGHT] (sample_sys sample_round)))) ! 0) = 1 \<and>
   refused 0 (sample_sys sample_round) (snd (handle_move_attempt 0 [DIR_LEFT] (sample_sys sample_round)))"
proof -
  have "server_inv (ctx (sample_sys sample_round))" "cl_active (clients (ctx (sample_sys sample_round)) ! 0)"
    by (simp_all add: sample_round_inv sample_active_clients)
  note M = move_exact [OF this(1) _ this(2)]
  have q: "move_target 3 (players sample_round ! 0) = (0, 1)" "move_target 2 (players sample_round ! 0) = (0, -1)"
    by (simp_all add: move_target_def Let_def sample_round_players)
  have "cell_at sample_round (0, 1) = CELL_EMPTY"
    by (simp add: cell_at_def gs_cell_get_def gs_in_bounds_def sample_round_fields sample_loaded_fields make_cell_index_def)
  moreover have "on_board sample_round (0, 1)" "\<not> on_board sample_round (0, -1)"
    by (simp_all add: on_board_def sample_round_fields sample_loaded_fields)
  moreover have "pos_of (pl_row (players sample_round ! j)) (pl_col (players sample_round ! j)) \<noteq> (0, 1)"
    if "j < 8" "j \<noteq> 0" "cl_active (clients sample_round ! j)" for j
  proof -
    have "j = 1"
      using that by (simp add: sample_round_fields sample_lobby_fields zero_client_def nth_list_update split: if_splits)
    then show ?thesis by (simp add: pos_of_def sample_round_players [unfolded One_nat_def])
  qed
  moreover have "bm_owner_id (bombs sample_round ! j) = 0" if "j < 64" for j
    using that by (simp add: sample_round_fields)
  ultimately have may: "may_move sample_round 0 3" "\<not> may_move sample_round 0 2"
    unfolding may_move_def Let_def q using sample_round_players(1) sample_round_inv(2) by auto
  have "length (players sample_round) = 8" using server_invD(1) [OF sample_round_inv(1)] by (simp add: arrays_ok_def)
  then show ?thesis using M [of 3] M [of 2] may by (simp add: q)
qed

text \<open>C13: placing a bomb.  The server accepts the attempt exactly when a round is running, the player is
  alive, the message names the player's own cell, the player has a bomb in hand and no bomb lies
  there already.  Then one free place of the bomb table holds the new bomb, the cell is a bomb cell,
  the player has one bomb less, and nothing else changes.  Otherwise the client gets one error
  message and nothing changes.\<close>

theorem bomb_exact:
  assumes "server_inv (ctx s)" and "i < MAX_PLAYERS" and "cl_active (clients (ctx s) ! i)"
  shows "fst (handle_bomb_attempt i (u16_bytes idx) s) = 0 \<and>
    (if may_place (ctx s) i idx then placed i (ctx s) (ctx (snd (handle_bomb_attempt i (u16_bytes idx) s)))
     else refused i s (snd (handle_bomb_attempt i (u16_bytes idx) s)))"
  using handle_bomb_cases [OF assms] by simp

lemma bomb_exact_witness:
  "placed 0 sample_round (ctx (snd (handle_bomb_attempt 0 (u16_bytes 0) (sample_sys sample_round)))) \<and>
   refused 0 (sample_sys sample_round) (snd (handle_bomb_attempt 0 (u16_bytes 1) (sample_sys sample_round)))"
proof -
  have "server_inv (ctx (sample_sys sample_round))" "cl_active (clients (ctx (sample_sys sample_round)) ! 0)"
    by (simp_all add: sample_round_inv sample_active_clients)
  note B = bomb_exact [OF this(1) _ this(2)]
  have "\<not> may_place sample_round 0 1"
    by (simp add: may_place_def Let_def sample_round_players make_cell_index_def)
  then show ?thesis using B [of 0] B [of 1] sample_may_place by simp
qed

text \<open>C14: the bomb table never overflows.  There are never more than eight bombs on the board, so
  \<open>gs_add_bomb\<close> always finds a place and the answer \<open>bomb storage full\<close> is never given.\<close>

theorem bomb_table_never_full:
  assumes "server_reachable s"
  shows "bombs_left (ctx s) \<le> MAX_PLAYERS \<and> gs_add_bomb (state (ctx s)) b \<noteq> None"
  using few_bombs [OF server_invD(6,7,1) [OF reachable_inv [OF assms]]]
    bomb_storage_free [OF server_invD(6,7,1) [OF reachable_inv [OF assms]]]
  by (auto simp: gs_add_bomb_def)

lemma bomb_table_never_full_witness:
  "gs_add_bomb (state (ctx sample_start)) zero_bomb \<noteq> None"
  using bomb_table_never_full [OF sample_reachable] by blast

text \<open>C15: the start of a round.  When a player says it is ready, the round starts exactly when the game
  is in the lobby, at least two clients are connected and every connected player is ready; then
  every connected player is alive with one life.  Otherwise only the ready flag changes.\<close>

theorem round_starts:
  assumes "server_inv (ctx s)" and "i < MAX_PLAYERS" and "cl_active (clients (ctx s) ! i)"
  shows "fst (handle_set_ready i s) = 0 \<and>
    ctx (snd (handle_set_ready i s)) =
      (let c = upd_player i (\<lambda>p. p\<lparr>pl_ready := True\<rparr>) (ctx s) in if can_start c then started c else c)"
proof -
  note I = server_invD [OF assms(1)]
  note sl = slot_of_client(1) [OF I(3) assms(2,3)]
  let ?c = "upd_player i (\<lambda>p. p\<lparr>pl_ready := True\<rparr>) (ctx s)"
  let ?t = "if \<not> pl_ready (players (ctx s) ! i)
      then server_broadcast (msg_code MSG_SET_READY) (cl_id (clients (ctx s) ! i)) [] (-1)
        (upd_ctx (upd_player i (\<lambda>p. p\<lparr>pl_ready := True\<rparr>)) s) else s"
  have "?c = ctx s" if "pl_ready (players (ctx s) ! i)"
  proof -
    have "(players (ctx s) ! i)\<lparr>pl_ready := True\<rparr> = players (ctx s) ! i" using that by simp
    then show ?thesis unfolding upd_player_def upd_state_def by simp
  qed
  then have t: "ctx ?t = ?c" by simp
  have "length (players ?c) = 8" using I(1) by (simp add: arrays_ok_def upd_player_def upd_state_def)
  then have "ctx (maybe_start_game ?t) = (if can_start ?c then started ?c else ?c)"
    using maybe_start_game_ctx(1) [of ?t] unfolding t by simp
  then show ?thesis unfolding handle_set_ready_def Let_def sl fst_conv snd_conv by simp
qed

lemma round_starts_witness:
  "gs_status (state (ctx (snd (handle_set_ready 0 (sample_sys sample_lobby))))) = GAME_RUNNING"
proof -
  have "cl_active (clients sample_lobby ! 0)" using sample_active_clients by (simp add: sample_round_fields)
  then have R: "ctx (snd (handle_set_ready 0 (sample_sys sample_lobby))) =
      (let c = upd_player 0 (\<lambda>p. p\<lparr>pl_ready := True\<rparr>) sample_lobby in if can_start c then started c else c)"
    using round_starts [of "sample_sys sample_lobby" 0] sample_lobby_inv by simp
  have "(players sample_lobby ! 0)\<lparr>pl_ready := True\<rparr> = players sample_lobby ! 0" by (simp add: sample_lobby_players)
  then have "upd_player 0 (\<lambda>p. p\<lparr>pl_ready := True\<rparr>) sample_lobby = sample_lobby"
    unfolding upd_player_def upd_state_def by simp
  then show ?thesis unfolding R Let_def using sample_can_start by (simp add: started_def)
qed

text \<open>C16: the return to the lobby.  A request for the lobby after the end of a round restores the map as it
  was loaded, removes every bomb and explosion, gives every player the default equipment, one
  bomb and its spawn point, and nobody is alive or ready; any other status request is answered with
  an error and changes nothing.\<close>

theorem lobby_reset_exact:
  fixes s :: server_sys and i :: nat and v :: u8
  defines "c \<equiv> ctx s"
  defines "c' \<equiv> ctx (snd (handle_set_status i [v] s))"
  assumes inv: "server_inv c" and act: "cl_active (clients c ! i)"
  shows "if gs_status (state c) = GAME_END \<and> v = 0 then
      gs_status (state c') = GAME_LOBBY \<and>
      map_cells (game_map c') = Some (take (unat (initial_cell_count c)) (initial_cells c)) \<and>
      bombs c' = replicate MAX_BOMBS zero_bomb \<and> explosions c' = replicate MAX_BOMBS zero_explosion \<and>
      players c' = imap (\<lambda>i p. let p = reset_player c p in
        if spawn_defined c ! i then p\<lparr>pl_row := spawn_rows c ! i, pl_col := spawn_cols c ! i\<rparr> else p) (players c) \<and>
      clients c' = clients c \<and> server_inv c'
    else refused i s (snd (handle_set_status i [v] s))"
proof (cases "gs_status (state c) = GAME_END \<and> v = 0")
  case True
  then have "c' = lobby_reset c"
    using handle_set_status_cases(1) [of s i] inv act unfolding c_def c'_def by simp
  moreover have "respawned c = (\<lambda>i p. let p = reset_player c p in
      if spawn_defined c ! i then p\<lparr>pl_row := spawn_rows c ! i, pl_col := spawn_cols c ! i\<rparr> else p)"
    by (intro ext) (simp add: respawned_def)
  ultimately show ?thesis
    using True lobby_reset_inv [OF inv] by (simp add: lobby_reset_def fresh_round_def upd_state_def)
next
  case False
  then show ?thesis
    using handle_set_status_cases(2) [of s i v] inv act unfolding c_def by auto
qed

lemma lobby_reset_exact_witness:
  "gs_status (state (ctx (snd (handle_set_status 0 [0] (sample_sys sample_end))))) = GAME_LOBBY \<and>
   refused 0 (sample_sys sample_end) (snd (handle_set_status 0 [1] (sample_sys sample_end)))"
proof -
  have "cl_active (clients sample_end ! 0)"
    using sample_active_clients by (simp add: sample_end_def upd_state_def)
  then have "server_inv (ctx (sample_sys sample_end))" "cl_active (clients (ctx (sample_sys sample_end)) ! 0)"
    by (simp_all add: sample_end_inv)
  note S = lobby_reset_exact [OF this]
  show ?thesis using S [of 0] S [of 1] sample_end_inv(2) by simp
qed



text \<open>C18: the greeting.  A client whose HELLO cannot be decoded, or whose name another connected client
  has, gets an error and is dropped; otherwise it and its player get the name (and the client its
  identifier), cut to the length of the field and terminated, and nothing else changes.\<close>

theorem hello_exact:
  assumes "server_inv (ctx s)" and "i < MAX_PLAYERS" and "cl_active (clients (ctx s) ! i)"
  shows "case proto_decode_hello_payload zero_hello payload of
      Some hello \<Rightarrow>
        if may_join (ctx s) i hello
        then fst (handle_hello i payload s) = 0 \<and> ctx (snd (handle_hello i payload s)) = joined i hello (ctx s) \<and>
          server_inv (joined i hello (ctx s))
        else fst (handle_hello i payload s) = -1 \<and> refused i s (snd (handle_hello i payload s))
    | None \<Rightarrow> fst (handle_hello i payload s) = -1 \<and> refused i s (snd (handle_hello i payload s))"
  using handle_hello_cases [OF assms, of payload] joined_inv [OF assms] by (simp split: option.split)

lemma hello_exact_witness:
  "fst (handle_hello 0 [1, 2, 3] (sample_sys sample_round)) = -1"
proof -
  have "server_inv (ctx (sample_sys sample_round))" "cl_active (clients (ctx (sample_sys sample_round)) ! 0)"
    by (simp_all add: sample_round_inv sample_active_clients)
  from hello_exact [OF this(1) _ this(2), of "[1, 2, 3]"] show ?thesis
    by (simp add: proto_decode_hello_payload_def)
qed

text \<open>C19: the status machine.  A message changes the status only from lobby to running, with a ready
  message, and from end to lobby, with a status message; the end of a round is the tick's alone.\<close>

theorem status_machine:
  fixes h :: msg_header_t and payload :: "u8 list"
  assumes "server_inv (ctx s)" and "i < MAX_PLAYERS" and "cl_active (clients (ctx s) ! i)"
  shows "let old = gs_status (state (ctx s));
             new = gs_status (state (ctx (snd (server_handle_client_message i h payload s)))) in
    new = old \<or>
    old = GAME_LOBBY \<and> new = GAME_RUNNING \<and> msg_type_of (h_msg_type h) = Some MSG_SET_READY \<or>
    old = GAME_END \<and> new = GAME_LOBBY \<and> msg_type_of (h_msg_type h) = Some MSG_SET_STATUS"
  using message_status [OF assms, of h payload] unfolding Let_def .

lemma status_machine_witness:
  "gs_status (state (ctx (snd (server_handle_client_message 0 \<lparr>h_msg_type = 40, h_sender_id = 1, h_target_id = 255\<rparr>
     [] (sample_sys sample_round))))) = GAME_RUNNING"
proof -
  have "server_inv (ctx (sample_sys sample_round))" "cl_active (clients (ctx (sample_sys sample_round)) ! 0)"
    by (simp_all add: sample_round_inv sample_active_clients)
  from status_machine [OF this(1) _ this(2), of "\<lparr>h_msg_type = 40, h_sender_id = 1, h_target_id = 255\<rparr>" "[]"]
  show ?thesis by (simp add: sample_round_inv)
qed

text \<open>C20: the verdict.  When at most one player is alive and at least two clients are connected, the round
  ends: every connected client gets the status message and then, if one player is left, the message
  that names it as the winner, and nothing else of the server changes; in every other case the end
  check does nothing.\<close>

theorem round_verdict:
  assumes "server_inv (ctx s)"
  shows "maybe_finish_round s =
    (if round_over (ctx s)
     then emit (verdict (ctx s)) (upd_ctx (upd_state (\<lambda>g. g\<lparr>gs_status := GAME_END\<rparr>)) s) else s)"
  using finish_round_emit [OF server_invD(11) [OF assms]] .

lemma round_verdict_witness:
  "maybe_finish_round (sample_sys sample_round) = sample_sys sample_round"
proof -
  have inv: "server_inv (ctx (sample_sys sample_round))" by (simp add: sample_round_inv)
  have "alive_slots sample_round = filter (\<lambda>i. cl_active (clients sample_round ! i) \<and> pl_alive (players sample_round ! i)) [0, 1, 2, 3, 4, 5, 6, 7]"
    by (simp add: alive_slots_eq upt_8)
  then have "2 \<le> length (alive_slots sample_round)"
    using sample_active_clients sample_round_players(1,2) by simp
  then show ?thesis using round_verdict [OF inv] by (simp add: round_over_def)
qed

section \<open>Connections\<close>



text \<open>C22: the end of a connection.  The other connected clients get LEAVE, in slot order (when the server
  notifies them at all); the slot is free afterwards, its name empty and its player neither alive nor
  ready; all other clients and players stay, and disconnecting a free slot does nothing.\<close>

theorem disconnect_exact:
  fixes s :: server_sys and i :: nat and notify :: bool
  defines "c \<equiv> ctx s"
  defines "cl \<equiv> clients c ! i"
  assumes inv: "server_inv c" and i: "i < MAX_PLAYERS"
  shows "if cl_active cl then
      server_disconnect_client i notify s =
        upd_ctx (\<lambda>_. replaced i
            (cl\<lparr>cl_fd := -1, cl_active := False, cl_client_id := (cl_client_id cl)[0 := 0], cl_name := (cl_name cl)[0 := 0]\<rparr>)
            ((players c ! i)\<lparr>pl_alive := False, pl_ready := False, pl_lives := 0\<rparr>) c)
          (if notify then emit (map (\<lambda>j. packet_to (clients c ! j) (msg_code MSG_LEAVE) (cl_id cl) BROADCAST_ENDPOINT_ID [])
             (filter (\<lambda>j. j \<noteq> i) (active_slots c))) s else s) \<and>
      server_inv (ctx (server_disconnect_client i notify s))
    else server_disconnect_client i notify s = s"
proof (cases "cl_active cl")
  case False
  then show ?thesis by (simp add: server_disconnect_client_def Let_def cl_def c_def)
next
  case True
  note I = server_invD [OF inv]
  note sl = slot_of_client(1) [OF I(3) i True [unfolded cl_def]]
  have "cl_fd (clients c ! j) \<noteq> cl_fd cl \<longleftrightarrow> j \<noteq> i" if "j \<in> set (active_slots c)" for j
    using that True i I(11) unfolding active_slots_def fds_ok_def cl_def by auto
  then have "filter (\<lambda>j. cl_fd (clients c ! j) \<noteq> cl_fd cl) (active_slots c) = filter (\<lambda>j. j \<noteq> i) (active_slots c)"
    by (rule filter_cong [OF refl])
  then have leave: "server_broadcast (msg_code MSG_LEAVE) (cl_id cl) [] (cl_fd cl) s =
      emit (map (\<lambda>j. packet_to (clients c ! j) (msg_code MSG_LEAVE) (cl_id cl) BROADCAST_ENDPOINT_ID [])
        (filter (\<lambda>j. j \<noteq> i) (active_slots c))) s"
    by (simp add: server_broadcast_emit c_def del: msg_code.simps)
  have upd: "upd_ctx f (upd_ctx g t) = upd_ctx (\<lambda>_. f (g (ctx t))) t" for f g t
    by (simp add: upd_ctx_def)
  have "server_inv (ctx (server_disconnect_client i notify s))"
    using disconnect.keeps [OF i] inv by (simp add: c_def)
  then show ?thesis
    using True leave sl unfolding server_disconnect_client_def Let_def c_def [symmetric] cl_def [symmetric] upd
    by (simp add: replaced_def upd_client_def upd_player_def upd_state_def cl_def c_def del: msg_code.simps)
qed

lemma disconnect_exact_witness:
  "\<not> cl_active (clients (ctx (server_disconnect_client 0 True (sample_sys sample_round))) ! 0)"
proof -
  have inv: "server_inv (ctx (sample_sys sample_round))" by (simp add: sample_round_inv)
  have "0 < length (clients sample_round)" using server_invD(1) [OF sample_round_inv(1)] by (simp add: arrays_ok_def)
  then show ?thesis
    using disconnect_exact [OF inv, of 0 True] sample_active_clients(1) by (simp add: replaced_def)
qed

section \<open>The client\<close>



text \<open>An explosion before a map.  \<open>MSG_EXPLOSION_START\<close> is the only board message without the guard
  \<open>cols > 0\<close>: a client that has no map yet divides by zero on it, whatever cell it names.\<close>

theorem explosion_before_map_undefined:
  assumes "client_ok (cctx s)" and "map_cols (gs_map (cc_state (cctx s))) = 0"
  shows "client_handle_server_message \<lparr>h_msg_type = msg_code MSG_EXPLOSION_START, h_sender_id = sid, h_target_id = tgt\<rparr>
    (explosion_start_wire m) s = None"
proof -
  have "\<not> safe_message \<lparr>h_msg_type = msg_code MSG_EXPLOSION_START, h_sender_id = sid, h_target_id = tgt\<rparr>
      (explosion_start_wire m) (cctx s)"
    using assms(2) by (simp add: safe_message_def explosion_cell_def Let_def explosion_start.dec_wire del: msg_code.simps)
  then show ?thesis using message_defined [OF assms(1)] by blast
qed

lemma explosion_before_map_undefined_witness:
  "client_handle_server_message \<lparr>h_msg_type = msg_code MSG_EXPLOSION_START, h_sender_id = 255, h_target_id = 254\<rparr>
    (explosion_start_wire \<lparr>es_radius = 1, es_cell_index = 0\<rparr>) sample_client = None"
  by (rule explosion_before_map_undefined [OF sample_client_ok sample_client_fields(3)])










text \<open>C28: the throttle.  With the clock and the last move in normal form, the comparison the client makes rejects
  a move exactly when less than a second divided by the player's speed has passed, for every speed,
  though the interval of speed one is not in normal form.\<close>

theorem move_throttled:
  assumes "ts_normal now" and "ts_normal before" and "0 < speed"
  shows "ts_cmp (ts_diff now before) \<lparr>tv_sec = 0, tv_nsec = SECOND_NS div int speed\<rparr> < 0 \<longleftrightarrow>
    ts_total now - ts_total before < SECOND_NS div int speed"
  using throttle [OF assms] by (simp add: move_interval_def)

lemma move_throttled_witness:
  "ts_cmp (ts_diff \<lparr>tv_sec = 2, tv_nsec = 5\<rparr> \<lparr>tv_sec = 1, tv_nsec = 700000005\<rparr>) \<lparr>tv_sec = 0, tv_nsec = SECOND_NS div int 3\<rparr> < 0"
  using move_throttled [of "\<lparr>tv_sec = 2, tv_nsec = 5\<rparr>" "\<lparr>tv_sec = 1, tv_nsec = 700000005\<rparr>" 3]
  by (simp add: ts_normal_def ts_total_def)

text \<open>Normalising a time keeps the instant it stands for, and yields a nanosecond part between zero and a
  second unless that part was a negative multiple of a second: then it comes out as exactly one second.\<close>

theorem elapsed_time_normalised:
  "ts_total (ts_norm ts) = ts_total ts \<and>
   (tv_nsec ts < 0 \<and> SECOND_NS dvd tv_nsec ts \<longrightarrow> tv_nsec (ts_norm ts) = SECOND_NS) \<and>
   (\<not> (tv_nsec ts < 0 \<and> SECOND_NS dvd tv_nsec ts) \<longrightarrow> 0 \<le> tv_nsec (ts_norm ts) \<and> tv_nsec (ts_norm ts) < SECOND_NS)"
proof -
  have "tv_nsec (ts_norm ts) = SECOND_NS" if "tv_nsec ts < 0" "SECOND_NS dvd tv_nsec ts"
    using that by (auto simp: ts_norm_def Let_def elim!: dvdE)
  then show ?thesis using ts_norm_total [of ts] ts_norm_normal [of ts] by (simp add: ts_normal_def)
qed

lemma elapsed_time_normalised_witness:
  "ts_norm \<lparr>tv_sec = 3, tv_nsec = - 1000000000\<rparr> = \<lparr>tv_sec = 1, tv_nsec = 1000000000\<rparr>"
proof -
  have "tv_nsec (ts_norm \<lparr>tv_sec = 3, tv_nsec = - 1000000000\<rparr>) = SECOND_NS"
    using elapsed_time_normalised [of "\<lparr>tv_sec = 3, tv_nsec = - 1000000000\<rparr>"] by simp
  then show ?thesis by (simp add: ts_norm_def Let_def)
qed

text \<open>C29: the log.  After any lines are added to a well-formed log, what the user sees is the last fifteen lines,
  oldest first, each cut at 511 bytes and at its first NUL.\<close>

theorem log_shows_last_lines:
  assumes "qlog_ok c"
  shows "log_lines (fold qlogf lines c) = last_n 15 (log_lines c @ map log_entry lines)"
  by (rule qlog.add_all_contents [OF assms])

lemma log_shows_last_lines_witness:
  "log_lines (fold qlogf [text_of ''ab'', text_of ''c''] (cctx sample_client)) = [text_of ''ab'', text_of ''c'']"
proof -
  have "qlog_ok (cctx sample_client)" using sample_client_ok by (simp add: client_ok_def)
  from log_shows_last_lines [OF this, of "[text_of ''ab'', text_of ''c'']"] sample_client_fields(5)
  show ?thesis by (simp add: last_n_def log_entry_def c_string_def text_of_def)
qed

section \<open>The screen\<close>



text \<open>C31: the board as it is drawn.  In a round, every cell of the map that has its place above the log shows
  the number of the last player that is alive or ready there, else a hash if the cell is empty and in
  the row or the column of a drawn explosion within its radius (walls do not stop it), else the cell
  of the map; a space follows it.\<close>

theorem board_drawn:
  fixes ws :: "(u16 \<times> u16) option"
  assumes "client_ok c" and "gs_status (cc_state c) = GAME_RUNNING" and "map_cells (gs_map (cc_state c)) = Some cells"
    and "screen_ok u" and "client_ui_render ws True c u = Some (out, u')"
    and "r < unat (map_rows (gs_map (cc_state c)))" and "k < unat (map_cols (gs_map (cc_state c)))"
    and "r + 13 < unat (screen_rows u')" and "2 * k + 7 < unat (screen_cols u')"
  shows "sb u' (r + 5) (2 * k + 5) =
      (let rows = unat (map_rows (gs_map (cc_state c))); cols = unat (map_cols (gs_map (cc_state c))); cell = cells ! (r * cols + k) in
       case find (\<lambda>p. (pl_alive p \<or> pl_ready p) \<and> unat (pl_row p) = r \<and> unat (pl_col p) = k) (rev (gs_players (cc_state c))) of
         Some p \<Rightarrow> 48 + pl_id p mod 10
       | None \<Rightarrow> if cell = CELL_EMPTY \<and> lit c rows cols r k then 35 else cell) \<and>
    sb u' (r + 5) (2 * k + 6) = 32"
  using board_shown [OF assms] unfolding cell_shown_def shown_at_def .

lemma board_drawn_witness:
  "\<exists>out u. client_ui_render None True sample_gamer screen_init = Some (out, u) \<and> sb u 5 9 = CELL_SOFT \<and> sb u 5 10 = 32"
proof -
  obtain out u where r: "client_ui_render None True sample_gamer screen_init = Some (out, u)"
    "unat (screen_rows u) = 128" "unat (screen_cols u) = 128" using sample_frames(1) by blast
  have "map_cells (gs_map (cc_state sample_gamer)) = Some [46, 46, 83, 46, 72]" by (simp add: sample_gamer_fields)
  from board_drawn [OF sample_gamer_ok sample_gamer_fields(1) this screen_init_ok r(1), of 0 2] r(2,3) sample_gamer_cell
  show ?thesis using r(1) by (simp add: sample_gamer_fields cell_shown_def shown_at_def)
qed

text \<open>C32: the log as it is drawn.  On a terminal of at least eight rows, whatever the rest of the screen shows,
  the window above the last row holds the newest lines of the log, at most six, oldest first, each
  from its third column and cut at the border, and blanks everywhere else.\<close>

theorem log_drawn:
  fixes ws :: "(u16 \<times> u16) option"
  assumes "client_ok c" and "screen_ok u" and "client_ui_render ws m c u = Some (out, u')"
    and "8 \<le> unat (screen_rows u')" and "j < 6" and "2 \<le> x" and "x + 1 < unat (screen_cols u')"
  shows "sb u' (unat (screen_rows u') - 7 + j) x =
    (let n = min 6 (length (log_lines c)); line = log_lines c ! (length (log_lines c) - n + j) in
     if j < n \<and> x - 2 < length line then line ! (x - 2) else 32)"
  using log_shown [OF assms] by (simp add: log_row_def Let_def)

lemma log_drawn_witness:
  "\<exists>out u. client_ui_render None True sample_reader screen_init = Some (out, u) \<and> sb u 121 3 = key CHR ''i''"
proof -
  obtain out u where r: "client_ui_render None True sample_reader screen_init = Some (out, u)"
    "unat (screen_rows u) = 128" "unat (screen_cols u) = 128" using sample_frames(2) by blast
  from log_drawn [OF sample_reader_ok screen_init_ok r(1), of 0 3] r(2,3) sample_reader_log
  show ?thesis using r(1) by (auto simp: log_row_def Let_def text_of_def key_def split: if_splits)
qed





text \<open>C34: no descriptor is lost.  Whatever the operating system answers, \<open>create_listener\<close> and
  \<open>connect_to_server\<close> leave exactly the descriptor they return open, and none when they fail; the
  listener is then bound to its port and listens, the client is connected to one of the addresses; and
  with five answers, or three for each address, they return.\<close>

theorem descriptors_kept:
  "(create_listener prt s = Some (fd, s') \<longrightarrow> os_open s' = (if fd < 0 then os_open s else fd # os_open s) \<and>
      (0 \<le> fd \<longrightarrow> (\<exists>a b c. os_calls s' = os_calls s @
         [(Sys_Socket, fd), (Sys_Reuseaddr fd, a), (Sys_Bind fd prt, b), (Sys_Listen fd MAX_PLAYERS, c)] \<and> 0 \<le> a \<and> 0 \<le> b \<and> 0 \<le> c))) \<and>
   (connect_to_server addresses s = Some (fd, s') \<longrightarrow> os_open s' = (if fd < 0 then os_open s else fd # os_open s) \<and>
      (0 \<le> fd \<longrightarrow> (\<exists>result. addresses = Some result \<and> (\<exists>it \<in> set result. last (os_calls s') = (Sys_Connect fd it, 0))))) \<and>
   (5 \<le> length (os_answers s) \<longrightarrow> create_listener prt s \<noteq> None) \<and>
   (3 * length addrs \<le> length (os_answers s) \<longrightarrow> connect_to_server (Some addrs) s \<noteq> None)"
  using listener_exact [of prt s fd s'] connect_loop_holds [of _ "-1" s fd s'] connect_loop_first [of _ "-1" s fd s']
    listener_total [of s prt] connect_loop_total [of addrs s "-1"]
  by (auto simp: connect_to_server_def holds_only_def split: option.splits)

lemma descriptors_kept_witness:
  "(\<exists>s'. create_listener 7777 (sample_os [3, 0, 0, 0]) = Some (3, s') \<and> os_open s' = [3, 0, 1, 2]) \<and>
   (\<exists>s'. connect_to_server (Some [[1], [2]]) (sample_os [3, -1, 0, 4, 0]) = Some (4, s') \<and> os_open s' = [4, 0, 1, 2])"
proof -
  have "\<exists>s'. create_listener 7777 (sample_os [3, 0, 0, 0]) = Some (3, s')"
    "\<exists>s'. connect_to_server (Some [[1], [2]]) (sample_os [3, -1, 0, 4, 0]) = Some (4, s')"
    by (simp_all add: create_listener_def checked_def sys_def sample_os_def connect_to_server_def)
  then show ?thesis
    using descriptors_kept [of 7777 "sample_os [3, 0, 0, 0]" 3 _ None "[]"]
      descriptors_kept [of 0 "sample_os [3, -1, 0, 4, 0]" 4 _ "Some [[1], [2]]" "[]"] by (fastforce simp: sample_os_def)
qed

text \<open>C35: the server from its command line.  Without two arguments, with a port that is not between 1 and 65535,
  or with a map file that cannot be opened or loaded, the program exits with 1 before it asks for a socket.
  Otherwise it asks for a listener on its port; without one it exits with 1; with one it runs its loop from
  the loaded map, which returns and keeps the invariant, and its exit code is 1 exactly for an error of the
  loop.  When it has exited, the listener is closed.\<close>

theorem server_main_exact:
  assumes "5 \<le> length (os_answers os)"
    and "\<forall>c fd. prepared argv files ok = Some c \<longrightarrow> sane_run inps \<lparr>ctx = c\<lparr>listen_fd := fd\<rparr>, env = e\<rparr>"
  shows "case prepared argv files ok of
     None \<Rightarrow> \<exists>t. server_main argv files ok e inps os = Some (Some 1, t, os)
   | Some c \<Rightarrow> \<exists>r t os' fd os1. server_main argv files ok e inps os = Some (r, Some t, os') \<and>
       create_listener (of_int (strtol (argv ! 1))) os = Some (fd, os1) \<and>
       (if fd < 0 then r = Some 1 \<and> os_open os' = os_open os
        else \<exists>q u. server_run_loop inps \<lparr>ctx = c\<lparr>listen_fd := fd\<rparr>, env = e\<rparr> = Some (q, u) \<and> server_inv (ctx u) \<and>
          r = map_option (\<lambda>q. if q \<noteq> 0 then 1 else 0) q \<and> t = (if q = None then u else upd_ctx (upd_state gs_free) u) \<and>
          os_open os' = (if q = None then fd # os_open os else os_open os))"
proof (cases "prepared argv files ok")
  case (Some c)
  have "server_inv (c\<lparr>listen_fd := fd\<rparr>)" for fd
    using reachable_inv [OF server_reachable.start [OF server_prepared(2) [OF Some]]] by simp
  from server_serve_exact [OF assms(1) this] show ?thesis
    using assms(2) by (simp add: Some server_prepared(1) [OF Some])
qed (simp add: server_not_prepared)

lemma server_main_exact_witness:
  "\<exists>t s. server_main [[], decimal 7777, []] (\<lambda>_. Some sample_file) True (env sample_start) [] (sample_os [3, 0, 0, 0, 0]) =
     Some (None, Some t, s) \<and> os_open s = [3, 0, 1, 2] \<and> server_inv (ctx t)"
proof -
  have p: "prepared [[], decimal 7777, []] (\<lambda>_. Some sample_file) True = Some sample_loaded"
    by (simp add: prepared_def strtol_decimal valid_port_def sample_load)
  have l: "\<exists>s. create_listener (of_int (strtol (decimal 7777))) (sample_os [3, 0, 0, 0, 0]) = Some (3, s)"
    by (simp add: create_listener_def checked_def sys_def sample_os_def)
  show ?thesis
    using server_main_exact [of "sample_os [3, 0, 0, 0, 0]" "[[], decimal 7777, []]" "\<lambda>_. Some sample_file" True "[]" "env sample_start"]
      l by (auto simp: p sample_os_def)
qed

section \<open>The stream\<close>

text \<open>C36: nothing is lost between the bytes and the handler.  If a connection's bytes are the frames of some
  messages and every byte arrives eventually, in whatever pieces, then as many rounds of the client's
  receive handler as there are messages do exactly what handling these messages one by one does,
  and the bytes after them are still unread.\<close>

theorem stream_handled:
  assumes "in_stream inb = concat (map frame ms) @ r" and "\<forall>m \<in> set ms. sendable m"
    and "steady (-1) (length (concat (map frame ms))) inb"
  shows "\<exists>inb'. in_stream inb' = r \<and> repeat_op (length ms) handle_fd_server (s, inb) =
    (case apply_messages ms s of None \<Rightarrow> Undefined | Some t \<Rightarrow> Done (t, inb'))"
  using stream_applied [OF assms(1,2), of 0] assms(3) by simp

lemma stream_handled_witness:
  "\<exists>t inb. repeat_op 2 handle_fd_server (sample_client, drip (frame (hello_message (cctx sample_client)) @ frame (leave_message (cctx sample_client)))) =
     Done (t, inb) \<and> in_stream inb = []"
proof -
  let ?ms = "[hello_message (cctx sample_client), leave_message (cctx sample_client)]"
  have ms: "\<forall>m \<in> set ?ms. sendable m" by (simp add: greetings_sendable)
  have "\<exists>t. apply_messages ?ms sample_client = Some t"
    by (simp add: hello_message_def leave_message_def client_handle_server_message_def Let_def del: msg_code.simps)
  then show ?thesis
    using stream_handled [of "drip (concat (map frame ?ms))" ?ms "[]" sample_client] ms drip_steady
    by (fastforce simp: numeral_2_eq_2)
qed

text \<open>C37: the receiver stays in step.  Whatever the operating system answers, timeouts, interruptions and
  failures included, the messages that a receiver gets out of a stream of framed messages are a
  prefix of them: never a part of one, never two mixed.\<close>

theorem received_in_step:
  assumes "in_stream c = concat (map frame ms) @ r" and "\<forall>m \<in> set ms. sendable m" and "k \<le> length ms"
    and "receive_messages k timeout_ms c = Some (got, c')"
  shows "got = take (length got) ms \<and> length got \<le> k"
  by (rule receive_messages_safe [OF assms])

lemma received_in_step_witness:
  "\<exists>got c'. receive_messages 1 (-1) \<lparr>in_stream = frame (leave_message (cctx sample_client)), in_polls = [],
       in_recvs = [Recv_Interrupted, Recv_Data 1, Recv_End]\<rparr> = Some (got, c') \<and> got = []"
proof -
  let ?c = "\<lparr>in_stream = frame (leave_message (cctx sample_client)), in_polls = [], in_recvs = [Recv_Interrupted, Recv_Data 1, Recv_End]\<rparr>"
  have "frame (leave_message (cctx sample_client)) = [5, 255, 255]"
    by (simp add: frame_def leave_message_def header_wire_def sample_client_def client_init_def)
  then have run: "\<exists>c'. receive_messages 1 (-1) ?c = Some ([], c')"
    by (simp add: receive_message_def sock_recv_header_def sock_recv_all_def recv_loop.simps wait_for_readable_def os_recv_def Let_def)
  then obtain got c' where g: "receive_messages 1 (-1) ?c = Some (got, c')" "got = []" by blast
  have "in_stream ?c = concat (map frame [leave_message (cctx sample_client)]) @ []" "1 \<le> length [leave_message (cctx sample_client)]"
    "\<forall>m \<in> set [leave_message (cctx sample_client)]. sendable m"
    by (simp_all add: greetings_sendable)
  from received_in_step [OF this(1,3,2) g(1)] show ?thesis using g by blast
qed

text \<open>C38: sending a message.  Whatever \<open>send\<close> answers, \<open>sock_send_message\<close> puts a prefix of the frame, header
  then payload, on the connection, and returns \<open>0\<close> exactly when it is the whole frame, \<open>-1\<close> otherwise.\<close>

theorem message_sent_exact:
  assumes "sock_send_message t sid tgt payload ob = Some (rv, ob')"
  shows "\<exists>n \<le> HEADER_SIZE + length payload. rv \<in> {0, -1} \<and> (rv = 0 \<longleftrightarrow> n = HEADER_SIZE + length payload) \<and>
    out_stream ob' = out_stream ob @
      take n (frame (\<lparr>h_msg_type = t, h_sender_id = sid, h_target_id = tgt\<rparr>, payload))"
  by (rule send_message_safe [OF assms])

lemma message_sent_exact_witness:
  "\<exists>n \<le> 4. sock_send_message 20 255 254 [1] \<lparr>out_stream = [], out_sends = [Send_Data 2, Send_Interrupted, Send_Data 1, Send_Error]\<rparr> =
     Some (-1, \<lparr>out_stream = take n [20, 255, 254, 1], out_sends = []\<rparr>)"
proof -
  let ?ob = "\<lparr>out_stream = [], out_sends = [Send_Data 2, Send_Interrupted, Send_Data 1, Send_Error]\<rparr>"
  have run: "sock_send_message 20 255 254 [1] ?ob = Some (-1, \<lparr>out_stream = [20, 255, 254], out_sends = []\<rparr>)"
    by (simp add: sock_send_message_def sock_send_all_def proto_write_header_wire header_wire_def)
  from message_sent_exact [OF run] show ?thesis unfolding run by (auto simp: frame_def header_wire_def)
qed

text \<open>Receiving a number of bytes.  \<open>sock_recv_all\<close> takes a prefix of the bytes that have arrived, at most as
  many as asked for, puts them at the start of the place it was given and changes nothing else of
  the caller's memory; it returns \<open>0\<close> exactly when it got all of them, else \<open>1\<close>, \<open>2\<close> or \<open>-1\<close>.\<close>

theorem bytes_received_exact:
  assumes "sock_recv_all off len timeout_ms buffer c = Some (rc, buffer', c')" and "off + len \<le> length buffer"
  shows "\<exists>n \<le> len. n \<le> length (in_stream c) \<and> in_stream c' = drop n (in_stream c) \<and>
    buffer' = blit off (take n (in_stream c)) buffer \<and> rc \<in> {0, 1, 2, -1} \<and> (rc = 0 \<longleftrightarrow> n = len)"
  by (rule recv_all_safe [OF assms])

lemma bytes_received_exact_witness:
  "\<exists>n \<le> 2. sock_recv_all 1 2 50 [0, 0, 0, 9] \<lparr>in_stream = [7, 8], in_polls = [Poll_Ready, Poll_Interrupted, Poll_Timeout],
       in_recvs = [Recv_Data 1]\<rparr> =
     Some (2, blit 1 (take n [7, 8]) [0, 0, 0, 9], \<lparr>in_stream = drop n [7, 8], in_polls = [], in_recvs = []\<rparr>)"
proof -
  let ?c = "\<lparr>in_stream = [7, 8], in_polls = [Poll_Ready, Poll_Interrupted, Poll_Timeout], in_recvs = [Recv_Data 1]\<rparr>"
  have run: "sock_recv_all 1 2 50 [0, 0, 0, 9] ?c =
      Some (2, [0, 7, 0, 9], \<lparr>in_stream = [8], in_polls = [], in_recvs = []\<rparr>)"
    by (simp add: sock_recv_all_def recv_loop.simps wait_for_readable_def os_recv_def blit_def)
  from bytes_received_exact [OF run] show ?thesis unfolding run by auto
qed

section \<open>The wire format\<close>

text \<open>The frame header round trip: a header written at the start of any buffer of at least
  three bytes is read back unchanged, and the rest of the buffer is kept.\<close>

theorem header_roundtrip:
  assumes "HEADER_SIZE \<le> length buffer"
  shows "\<exists>buffer'. proto_write_header h buffer = Some buffer' \<and> length buffer' = length buffer \<and>
    drop HEADER_SIZE buffer' = drop HEADER_SIZE buffer \<and> proto_read_header h0 buffer' = Some h"
  using assms proto_write_header_wire [OF assms]
  by (simp add: proto_read_header_wire)

lemma header_roundtrip_witness:
  "\<exists>buffer'. proto_write_header \<lparr>h_msg_type = 40, h_sender_id = 1, h_target_id = 254\<rparr> [0, 0, 0, 9] = Some buffer' \<and>
    length buffer' = 4 \<and> drop 3 buffer' = [9] \<and>
    proto_read_header \<lparr>h_msg_type = 0, h_sender_id = 0, h_target_id = 0\<rparr> buffer' =
      Some \<lparr>h_msg_type = 40, h_sender_id = 1, h_target_id = 254\<rparr>"
  using header_roundtrip [of "[0, 0, 0, 9]" "\<lparr>h_msg_type = 40, h_sender_id = 1, h_target_id = 254\<rparr>"
    "\<lparr>h_msg_type = 0, h_sender_id = 0, h_target_id = 0\<rparr>"] by (simp add: eval_nat_numeral)

text \<open>C39: each of the twelve messages of fixed size is coded exactly: its decoder accepts a byte
  sequence with result \<open>m\<close> if and only if the encoder, into the buffer the program gives it,
  produces that sequence for \<open>m\<close>; so decoding inverts encoding, no two byte sequences mean the
  same message, and every other length is refused.\<close>

theorem fixed_messages_exact:
  "(proto_decode_set_status_payload a0 bs = Some m0 \<longleftrightarrow>
      payload_of proto_encode_set_status_payload 8 m0 = Some bs) \<and>
   (proto_decode_move_attempt_payload a1 bs = Some m1 \<longleftrightarrow>
      payload_of proto_encode_move_attempt_payload 16 m1 = Some bs) \<and>
   (proto_decode_bomb_attempt_payload a2 bs = Some m2 \<longleftrightarrow>
      payload_of proto_encode_bomb_attempt_payload 16 m2 = Some bs) \<and>
   (proto_decode_moved_payload a3 bs = Some m3 \<longleftrightarrow>
      payload_of proto_encode_moved_payload 16 m3 = Some bs) \<and>
   (proto_decode_bomb_payload a4 bs = Some m4 \<longleftrightarrow>
      payload_of proto_encode_bomb_payload 16 m4 = Some bs) \<and>
   (proto_decode_explosion_start_payload a5 bs = Some m5 \<longleftrightarrow>
      payload_of proto_encode_explosion_start_payload 16 m5 = Some bs) \<and>
   (proto_decode_explosion_end_payload a6 bs = Some m6 \<longleftrightarrow>
      payload_of proto_encode_explosion_end_payload 16 m6 = Some bs) \<and>
   (proto_decode_death_payload a7 bs = Some m7 \<longleftrightarrow>
      payload_of proto_encode_death_payload 16 m7 = Some bs) \<and>
   (proto_decode_bonus_available_payload a8 bs = Some m8 \<longleftrightarrow>
      payload_of proto_encode_bonus_available_payload 16 m8 = Some bs) \<and>
   (proto_decode_bonus_retrieved_payload a9 bs = Some m9 \<longleftrightarrow>
      payload_of proto_encode_bonus_retrieved_payload 16 m9 = Some bs) \<and>
   (proto_decode_block_destroyed_payload a10 bs = Some m10 \<longleftrightarrow>
      payload_of proto_encode_block_destroyed_payload 16 m10 = Some bs) \<and>
   (proto_decode_winner_payload a11 bs = Some m11 \<longleftrightarrow>
      payload_of proto_encode_winner_payload 16 m11 = Some bs)"
  by (intro conjI set_status.dec_iff_payload move_attempt.dec_iff_payload bomb_attempt.dec_iff_payload
      moved.dec_iff_payload bomb.dec_iff_payload explosion_start.dec_iff_payload
      explosion_end.dec_iff_payload death.dec_iff_payload bonus_available.dec_iff_payload
      bonus_retrieved.dec_iff_payload block_destroyed.dec_iff_payload winner.dec_iff_payload)
    (simp_all add: fixed_wires)

text \<open>A player's hello survives the wire: the encoder succeeds exactly when its 35 bytes fit,
  writes nothing behind them, and the decoder gets back the two strings as bounded C strings, in
  arrays that end in NUL.\<close>

theorem hello_roundtrip:
  assumes "hello_shaped m" and "hello_shaped m0"
  shows "(proto_encode_hello_payload m buffer \<noteq> None \<longleftrightarrow> MAX_ID_LEN + MAX_NAME_LEN \<le> length buffer) \<and>
    (proto_encode_hello_payload m buffer = Some (buffer', n) \<longrightarrow>
       n = MAX_ID_LEN + MAX_NAME_LEN \<and> drop n buffer' = drop n buffer \<and>
       (\<exists>m'. proto_decode_hello_payload m0 (take n buffer') = Some m' \<and> hello_shaped m' \<and>
         strncmp_eq (hello_client_id m') (hello_client_id m) MAX_ID_LEN \<and>
         strncmp_eq (hello_player_name m') (hello_player_name m) MAX_NAME_LEN \<and>
         last (hello_client_id m') = 0 \<and> last (hello_player_name m') = 0))"
  using hello.enc_fits_iff [OF assms(1), of buffer] hello.enc_in_bounds [OF assms(1), of buffer buffer' n]
    hello.roundtrip [OF assms(1) _ assms(2), of buffer buffer' n]
  by (auto simp: hello_received_def hello_shaped_def strncmp_eq_def length_hello_wire)

definition sample_hello :: msg_hello_t where
  "sample_hello = \<lparr>hello_client_id = [99, 49] @ replicate 19 0, hello_player_name = [65, 110, 110] @ replicate 13 0\<rparr>"

lemma sample_hello_shaped: "hello_shaped sample_hello"
  by (simp add: hello_shaped_def sample_hello_def)

lemma hello_roundtrip_witness:
  "proto_encode_hello_payload sample_hello (replicate 40 7) \<noteq> None \<and>
   proto_encode_hello_payload sample_hello (replicate 34 7) = None"
  using hello_roundtrip [OF sample_hello_shaped sample_hello_shaped, THEN conjunct1, of "replicate 40 7"]
    hello_roundtrip [OF sample_hello_shaped sample_hello_shaped, THEN conjunct1, of "replicate 34 7"]
  by (simp del: not_None_eq)

text \<open>The welcome message survives the wire: the encoder succeeds exactly when
  \<open>proto_welcome_payload_size\<close> bytes fit, writes exactly those bytes, and the decoder returns the
  same server name, status, count and players (names as bounded C strings).\<close>

theorem welcome_roundtrip:
  assumes "welcome_shaped m" and "welcome_valid m" and "welcome_shaped m0"
  shows "(proto_encode_welcome_payload m buffer \<noteq> None \<longleftrightarrow> proto_welcome_payload_size m \<le> length buffer) \<and>
    (proto_encode_welcome_payload m buffer = Some (buffer', n) \<longrightarrow>
       n = proto_welcome_payload_size m \<and> drop n buffer' = drop n buffer \<and>
       proto_decode_welcome_payload m0 (take n buffer') = Some (welcome_received m0 m))"
  using welcome_msg.enc_fits_iff [OF assms(1,2), of buffer]
    welcome_msg.enc_in_bounds [OF assms(1,2), of buffer buffer' n]
    welcome_msg.roundtrip [OF assms, of buffer buffer' n]
  by (auto simp: welcome_payload_size [OF assms(1,2)])

definition sample_welcome :: msg_welcome_t where
  "sample_welcome = \<lparr>welcome_server_id = [115] @ replicate 20 0, welcome_game_status = 1,
     welcome_player_count = 1, welcome_players = replicate 8
       \<lparr>ps_id = 2, ps_ready = True, ps_name = [66, 111] @ replicate 14 0\<rparr>\<rparr>"

lemma sample_welcome_ok:
  "welcome_shaped sample_welcome" "welcome_valid sample_welcome"
  by (simp_all add: welcome_shaped_def welcome_valid_def summary_shaped_def sample_welcome_def)

lemma welcome_roundtrip_witness:
  "proto_encode_welcome_payload sample_welcome (replicate 39 0) \<noteq> None \<and>
   proto_encode_welcome_payload sample_welcome (replicate 38 0) = None"
  using welcome_roundtrip [OF sample_welcome_ok sample_welcome_ok(1), THEN conjunct1, of "replicate 39 0"]
    welcome_roundtrip [OF sample_welcome_ok sample_welcome_ok(1), THEN conjunct1, of "replicate 38 0"]
  by (simp add: proto_welcome_payload_size_def sample_welcome_def del: not_None_eq)

text \<open>The board synchronisation survives the wire: the encoder succeeds exactly when
  \<open>proto_sync_board_payload_size\<close> bytes fit, writes exactly those bytes, and the decoder returns the
  same status, count and player records, unchanged in every field.\<close>

theorem sync_board_roundtrip:
  assumes "sync_shaped m" and "sync_valid m" and "sync_shaped m0"
  shows "(proto_encode_sync_board_payload m buffer \<noteq> None \<longleftrightarrow> proto_sync_board_payload_size m \<le> length buffer) \<and>
    (proto_encode_sync_board_payload m buffer = Some (buffer', n) \<longrightarrow>
       n = proto_sync_board_payload_size m \<and> drop n buffer' = drop n buffer \<and>
       proto_decode_sync_board_payload m0 (take n buffer') = Some (sync_received m0 m))"
  using sync_board.enc_fits_iff [OF assms(1,2), of buffer]
    sync_board.enc_in_bounds [OF assms(1,2), of buffer buffer' n]
    sync_board.roundtrip [OF assms, of buffer buffer' n]
  by (auto simp: sync_board_payload_size [OF assms(1,2)])

definition sample_sync :: msg_sync_board_t where
  "sample_sync = \<lparr>sync_status = 1, sync_player_count = 2, sync_players = replicate 8
     \<lparr>sp_id = 3, sp_lives = 1, sp_cell_index = 300, sp_alive = True, sp_ready = True, sp_bomb_count = 1,
       sp_bomb_radius = 2, sp_bomb_timer_ticks = 60, sp_speed = 3\<rparr>\<rparr>"

lemma sample_sync_ok: "sync_shaped sample_sync" "sync_valid sample_sync"
  by (simp_all add: sync_shaped_def sync_valid_def sample_sync_def)

lemma sync_board_roundtrip_witness:
  "proto_encode_sync_board_payload sample_sync (replicate 26 0) \<noteq> None \<and>
   proto_encode_sync_board_payload sample_sync (replicate 25 0) = None"
  using sync_board_roundtrip [OF sample_sync_ok sample_sync_ok(1), THEN conjunct1, of "replicate 26 0"]
    sync_board_roundtrip [OF sample_sync_ok sample_sync_ok(1), THEN conjunct1, of "replicate 25 0"]
  by (simp add: proto_sync_board_payload_size_def sample_sync_def del: not_None_eq)

text \<open>C40: the map survives the wire: the encoder succeeds exactly when
  \<open>proto_map_payload_size\<close> bytes fit, writes exactly those bytes, and the decoder returns the same
  dimensions, their product as the cell count (it does not wrap in 16 bits) and the same cells.\<close>

theorem map_roundtrip:
  assumes "map_shaped m" and "map_valid m" and "map_shaped m0"
  shows "(proto_encode_map_payload m buffer \<noteq> None \<longleftrightarrow> proto_map_payload_size m \<le> length buffer) \<and>
    (proto_encode_map_payload m buffer = Some (buffer', n) \<longrightarrow>
       n = proto_map_payload_size m \<and> drop n buffer' = drop n buffer \<and>
       proto_decode_map_payload m0 (take n buffer') = Some (map_received m0 m))"
  using map_msg.enc_fits_iff [OF assms(1,2), of buffer]
    map_msg.enc_in_bounds [OF assms(1,2), of buffer buffer' n]
    map_msg.roundtrip [OF assms, of buffer buffer' n]
  by (auto simp: map_payload_size [OF assms(1,2)])

definition sample_map :: msg_map_t where
  "sample_map = \<lparr>mm_rows = 2, mm_cols = 3, mm_cell_count = 0, mm_cells = replicate 65025 46\<rparr>"

lemma sample_map_ok: "map_shaped sample_map" "map_valid sample_map"
  by (simp_all add: map_shaped_def map_valid_def sample_map_def)

lemma map_roundtrip_witness:
  "proto_encode_map_payload sample_map (replicate 8 0) \<noteq> None \<and>
   proto_encode_map_payload sample_map (replicate 7 0) = None"
  using map_roundtrip [OF sample_map_ok sample_map_ok(1), THEN conjunct1, of "replicate 8 0"]
    map_roundtrip [OF sample_map_ok sample_map_ok(1), THEN conjunct1, of "replicate 7 0"]
  by (simp add: proto_map_payload_size_def map_expected_count_def sample_map_def del: not_None_eq)

section \<open>The board\<close>

text \<open>On every map the server can load, the 16-bit index of a cell does not wrap, stays inside
  the cell array, and \<open>split_cell_index\<close> recovers the row and the column from it.\<close>

theorem cell_index_roundtrip:
  assumes "wf_map m" and "row < map_rows m" and "col < map_cols m"
  shows "unat (make_cell_index row col (map_cols m)) = unat row * unat (map_cols m) + unat col \<and>
    unat (make_cell_index row col (map_cols m)) < length (the (map_cells m)) \<and>
    split_cell_index (make_cell_index row col (map_cols m)) (map_cols m) = Some (row, col)"
  using assms unat_make_cell_index [OF assms(2,3)] make_cell_index_less [OF assms(2,3)]
    split_make_cell_index [OF assms(2,3)] by (auto simp: wf_map_def)

definition sample_board :: map_t where
  "sample_board = \<lparr>map_rows = 3, map_cols = 5, map_cells = Some (replicate 15 CELL_EMPTY)\<rparr>"

lemma sample_board_wf: "wf_map sample_board"
  by (simp add: sample_board_def wf_map_def)

lemma cell_index_roundtrip_witness:
  "unat (make_cell_index 2 4 5) = 14 \<and> split_cell_index (make_cell_index 2 4 5) 5 = Some (2, 4)"
  using cell_index_roundtrip [OF sample_board_wf, of 2 4] by (simp add: sample_board_def)

text \<open>Writing a cell changes that cell and no other, succeeds exactly inside the map, and
  keeps the map well formed; reading outside the map gives a hard block.\<close>

theorem cell_set_get:
  assumes "wf_map (gs_map st)"
  shows "(gs_cell_set st row col v \<noteq> None \<longleftrightarrow>
      row < map_rows (gs_map st) \<and> col < map_cols (gs_map st)) \<and>
    (gs_cell_set st row col v = Some st' \<longrightarrow> wf_map (gs_map st') \<and>
       gs_cell_get st' r c = (if r = row \<and> c = col then v else gs_cell_get st r c)) \<and>
    (\<not> (r < map_rows (gs_map st) \<and> c < map_cols (gs_map st)) \<longrightarrow> gs_cell_get st r c = CELL_HARD)"
  using gs_cell_get_set [OF assms, of row col v st' r c] gs_cell_set_wf [OF assms, of row col v st']
    wf_in_bounds [OF assms]
  by (auto simp: gs_cell_set_def gs_cell_get_def)

lemma cell_set_get_witness:
  "gs_cell_set (gs_init\<lparr>gs_map := sample_board\<rparr>) 2 4 CELL_SOFT \<noteq> None \<and>
   gs_cell_set (gs_init\<lparr>gs_map := sample_board\<rparr>) 3 0 CELL_SOFT = None"
  using cell_set_get [THEN conjunct1, of "gs_init\<lparr>gs_map := sample_board\<rparr>" 2 4 CELL_SOFT]
    cell_set_get [THEN conjunct1, of "gs_init\<lparr>gs_map := sample_board\<rparr>" 3 0 CELL_SOFT] sample_board_wf
  by (simp add: sample_board_def del: not_None_eq)

end
